(* ===== verification/Prelude.thy ===== *)
theory Prelude
  imports Main "HOL-Library.Word" "HOL-Library.AList"
begin

text \<open>
  Shared vocabulary of the development: the C++ machine types the sources use, the ways a
  C++ call can fail, and the generic facts about words, lists and association lists that the
  component theories rely on.
\<close>

unbundle bit_operations_syntax

named_theorems cxx_simps \<open>unfolding of the error-passing combinators\<close>
named_theorems size_arith \<open>reading 64-bit arithmetic as arithmetic on natural numbers\<close>

type_synonym size_t = "64 word"
type_synonym addr = "64 word"
type_synonym byte = "8 word"

abbreviation nullptr :: addr where "nullptr \<equiv> 0"

text \<open>
  How a call can fail to return: \<open>operator new\<close> throws; an exception leaves a
  \<open>noexcept\<close> function or a thread; a null pointer is dereferenced; a pointer to memory that
  was never allocated or is already released is dereferenced or released; the control flow
  runs off the end of a function that must return a value; a loop never ends; a floating-point
  value is converted to an integer type that cannot hold it; a signed operation overflows; an exception
  other than these is thrown (its type is named).
\<close>

datatype cxx_error =
    Bad_alloc
  | Terminate
  | Null_deref
  | Invalid_access
  | Missing_return
  | Diverges
  | Undefined_conversion
  | Signed_overflow
  | Throws string

type_synonym 'a cxx = "cxx_error + 'a"

definition bind_cxx :: "'a cxx \<Rightarrow> ('a \<Rightarrow> 'b cxx) \<Rightarrow> 'b cxx" where
  "bind_cxx m f = (case m of Inl e \<Rightarrow> Inl e | Inr x \<Rightarrow> f x)"

definition noexcept_cxx :: "'a cxx \<Rightarrow> 'a cxx" where
  "noexcept_cxx m = (case m of Inl Bad_alloc \<Rightarrow> Inl Terminate | Inl (Throws x) \<Rightarrow> Inl Terminate | _ \<Rightarrow> m)"

text \<open>The result of an operation on \<open>int\<close>, whose exact value may not fit.\<close>

definition int32_ok :: "int \<Rightarrow> bool" where
  "int32_ok x \<longleftrightarrow> - (2 ^ 31) \<le> x \<and> x < 2 ^ 31"

definition int_result :: "int \<Rightarrow> int cxx" where
  "int_result x = (if int32_ok x then Inr x else Inl Signed_overflow)"

text \<open>\<open>post_cxx E Q m\<close>: the call fails only with an error in \<open>E\<close>, and what it
  returns satisfies \<open>Q\<close>.\<close>

definition post_cxx :: "cxx_error set \<Rightarrow> ('a \<Rightarrow> bool) \<Rightarrow> 'a cxx \<Rightarrow> bool" where
  "post_cxx E Q m = (case m of Inl e \<Rightarrow> e \<in> E | Inr x \<Rightarrow> Q x)"

text \<open>\<open>std::to_string\<close>.\<close>

fun decimal :: "nat \<Rightarrow> string" where
  "decimal n = (if n < 10 then [char_of (48 + n)] else decimal (n div 10) @ [char_of (48 + n mod 10)])"

declare decimal.simps [simp del]

definition show_int :: "int \<Rightarrow> string" where
  "show_int x = (if x < 0 then ''-'' @ decimal (nat (- x)) else decimal (nat x))"

text \<open>\<open>(x + a - 1) & -a\<close>, the rounding idiom of the pool and of the schema layout.\<close>

definition align_up :: "'a::len word \<Rightarrow> 'a word \<Rightarrow> 'a word" where
  "align_up x a = (x + a - 1) AND (- a)"

lemma bind_cxx_Inr [simp, cxx_simps]: "bind_cxx (Inr x) f = f x"
  by (simp add: bind_cxx_def)

lemma bind_cxx_Inl [simp, cxx_simps]: "bind_cxx (Inl e) f = Inl e"
  by (simp add: bind_cxx_def)

lemma bind_cxx_eq_Inr: "bind_cxx m f = Inr y \<longleftrightarrow> (\<exists>x. m = Inr x \<and> f x = Inr y)"
  by (cases m) auto

lemma bind_cxx_eq_Inl: "bind_cxx m f = Inl e \<longleftrightarrow> m = Inl e \<or> (\<exists>x. m = Inr x \<and> f x = Inl e)"
  by (cases m) auto

lemma int_result_eq [simp]:
  "int_result x = Inr y \<longleftrightarrow> int32_ok x \<and> y = x"
  "int_result x = Inl e \<longleftrightarrow> \<not> int32_ok x \<and> e = Signed_overflow"
  by (auto simp: int_result_def)

lemma int_result_ok: "int32_ok x \<Longrightarrow> int_result x = Inr x"
  by simp

lemma noexcept_cxx_Inr [simp]: "noexcept_cxx (Inr x) = Inr x"
  by (simp add: noexcept_cxx_def)

lemma noexcept_cxx_eq_Inr [simp]: "noexcept_cxx m = Inr x \<longleftrightarrow> m = Inr x"
  by (auto simp: noexcept_cxx_def split: sum.splits cxx_error.splits)

lemma post_Inr [simp]: "post_cxx E Q (Inr x) = Q x"
  by (simp add: post_cxx_def)

lemma post_Inl [simp]: "post_cxx E Q (Inl e) = (e \<in> E)"
  by (simp add: post_cxx_def)

lemma post_bind:
  "post_cxx E R m \<Longrightarrow> (\<And>x. R x \<Longrightarrow> post_cxx E Q (f x)) \<Longrightarrow> post_cxx E Q (bind_cxx m f)"
  by (cases m) auto

lemma post_mono:
  "post_cxx E Q m \<Longrightarrow> E \<subseteq> E' \<Longrightarrow> (\<And>x. Q x \<Longrightarrow> Q' x) \<Longrightarrow> post_cxx E' Q' m"
  by (cases m) auto

lemma post_noexcept: "post_cxx {Bad_alloc} Q m \<Longrightarrow> post_cxx {Terminate} Q (noexcept_cxx m)"
  by (cases m) (auto simp: noexcept_cxx_def)

lemma post_InrD: "post_cxx E Q m \<Longrightarrow> m = Inr x \<Longrightarrow> Q x"
  by simp

lemma post_InlD: "post_cxx E Q m \<Longrightarrow> m = Inl e \<Longrightarrow> e \<in> E"
  by simp

text \<open>The digits of a number determine it.\<close>

definition digits_value :: "string \<Rightarrow> nat" where
  "digits_value ds = foldl (\<lambda>v c. 10 * v + (of_char c - 48)) 0 ds"

lemma digits_value_decimal [simp]: "digits_value (decimal n) = n"
proof (induction n rule: decimal.induct)
  case (1 n)
  have d: "of_char (char_of (48 + m) :: char) = 48 + m" if "m < 10" for m :: nat using that by (simp add: of_char_of)
  show ?case
  proof (cases "n < 10")
    case True
    then show ?thesis by (simp add: decimal.simps [of n] digits_value_def d)
  next
    case False
    then show ?thesis using 1 by (simp add: decimal.simps [of n] digits_value_def d)
  qed
qed

lemma decimal_inject [simp]: "decimal m = decimal n \<longleftrightarrow> m = n"
  by (metis digits_value_decimal)

lemma restrict_map_UNIV [simp]: "m |` UNIV = m"
  by (simp add: restrict_map_def)

lemma takeWhile_before: "c \<notin> set us \<Longrightarrow> takeWhile (\<lambda>b. b \<noteq> c) (us @ c # ws) = us"
  by (induction us) auto

lemma unat_lt_64 [simp]: "unat (x :: 64 word) < 2 ^ 64"
  using unsigned_less [of x] by simp

lemma unat_add_ok [size_arith]:
  "unat x + unat y < 2 ^ LENGTH('a) \<Longrightarrow> unat (x + y :: 'a::len word) = unat x + unat y"
  by (rule unat_add_lem [THEN iffD1])

lemma unat_sub_ok [size_arith]: "unat y \<le> unat x \<Longrightarrow> unat (x - y :: 'a::len word) = unat x - unat y"
  by (rule unat_sub) (simp add: word_le_nat_alt)

lemma unat_drop_bit_1: "unat (drop_bit 1 (r :: 64 word)) = unat r div 2"
  by (simp only: unat_drop_bit_eq) (simp only: drop_bit_eq_div power_one_right)

lemma unat_push_bit_1: "2 * unat b < 2 ^ 64 \<Longrightarrow> unat (push_bit 1 (b :: 64 word)) = 2 * unat b"
  by (simp add: push_bit_eq_mult unat_word_ariths mult.commute)

lemma unat_word_of_nat_64: "n < 2 ^ 64 \<Longrightarrow> unat (word_of_nat n :: 64 word) = n"
  by (simp only: unat_of_nat mod_less len_num1 len_num0 len_bit0 len_bit1) (simp add: take_bit_nat_eq_self)

lemma minus_pow2_mask: "- (2 ^ k :: 'a::len word) = NOT (mask k)"
  by (rule minus_exp_eq_not_mask)

lemma and_not_mask_word: "(w :: 'a::len word) AND NOT (mask k) = push_bit k (drop_bit k w)"
  by (rule bit_word_eqI) (auto simp: bit_simps)

lemma unat_push_drop:
  "unat (push_bit k (drop_bit k (w :: 'a::len word))) = (unat w div 2 ^ k) * 2 ^ k"
proof (cases "k < LENGTH('a)")
  case True
  have "push_bit k (drop_bit k w) = of_nat ((unat w div 2 ^ k) * 2 ^ k)"
    by (simp add: push_bit_eq_mult unat_drop_bit_eq [symmetric] drop_bit_eq_div [symmetric])
  moreover have "(unat w div 2 ^ k) * 2 ^ k < 2 ^ LENGTH('a)"
    using unsigned_less [of w] div_times_less_eq_dividend le_less_trans by blast
  ultimately show ?thesis
    by (metis mod_less unat_of_nat)
next
  case False
  then have "unat w div 2 ^ k = 0"
    by (metis div_less leI less_exp order_less_le_trans power_increasing_iff one_less_numeral_iff semiring_norm(76) unsigned_less)
  moreover have "drop_bit k w = 0"
    using False by (metis (no_types) drop_bit_eq_div unat_drop_bit_eq unat_0_iff calculation)
  ultimately show ?thesis by simp
qed

lemma unat_pow2: "k < LENGTH('a) \<Longrightarrow> unat (2 ^ k :: 'a::len word) = 2 ^ k"
  by (metis mod_less of_nat_numeral of_nat_power one_less_numeral_iff power_strict_increasing semiring_norm(76) unat_of_nat)

lemma unat_align_up:
  fixes x :: "'a::len word"
  assumes "a = 2 ^ k" and "k < LENGTH('a)" and "unat x + 2 ^ k - 1 < 2 ^ LENGTH('a)"
  shows "unat (align_up x a) = ((unat x + 2 ^ k - 1) div 2 ^ k) * 2 ^ k"
proof -
  have a: "unat a = 2 ^ k"
    using assms(1,2) by (simp add: unat_pow2)
  have "unat (x + a - 1) = unat x + 2 ^ k - 1"
  proof -
    have one: "unat (a - 1) = 2 ^ k - 1"
      using a by (subst unat_sub_ok) auto
    have "unat (x + (a - 1)) = unat x + unat (a - 1)"
      using assms(3) by (intro unat_add_ok) (simp add: one)
    then show ?thesis by (simp add: one algebra_simps)
  qed
  then show ?thesis
    by (simp add: align_up_def assms(1) minus_pow2_mask and_not_mask_word unat_push_drop)
qed

end
