(* ===== verification/Lock_Free_Queue.thy ===== *)
theory Lock_Free_Queue
  imports Prelude
begin

text \<open>
  The lock-free queue of \<open>example/performance_units/lock_free_queue.cpp\<close>: any number of threads run \<open>input\<close> and
  \<open>output\<close>, and every access to shared memory is a step of its own. Addresses are numbers, 0 is the null
  pointer; nodes are never freed, as in the code. Memory accesses are taken as sequentially
  consistent.
\<close>

subsection \<open>State\<close>

text \<open>Where a thread is, with its local variables: \<open>node\<close> and \<open>cur\<close> of \<open>input\<close>, \<open>first\<close> and \<open>next\<close> of
  \<open>output\<close>.\<close>

datatype pc =
    Idle
  | In_loop nat
  | In_check nat nat
  | In_cas nat nat
  | In_help nat nat
  | In_help_cas nat nat nat
  | In_swing nat nat
  | Out_loop
  | Out_next nat
  | Out_cas nat nat
  | Out_read nat
  | Out_empty

record LockFreeQueue =
  nexts :: "nat \<Rightarrow> nat"
  log_info :: "nat \<Rightarrow> string"
  fresh :: nat
  head :: nat
  tail :: nat
  pcs :: "nat \<Rightarrow> pc"

text \<open>The constructor: \<open>head\<close> and \<open>tail\<close> point to an empty sentinel node.\<close>

definition LockFreeQueue_new :: LockFreeQueue where
  "LockFreeQueue_new = \<lparr>nexts = (\<lambda>_. 0), log_info = (\<lambda>_. []), fresh = 2, head = 1, tail = 1, pcs = (\<lambda>_. Idle)\<rparr>"

text \<open>What an observer sees, with the thread: the calls with their arguments, the moments at which they take effect, and
  the returns with their results.\<close>

datatype event =
    Tau
  | Call_in nat string
  | Enq nat string
  | Ret_in nat bool
  | Call_out nat
  | Deq nat string
  | Deq_empty nat
  | Ret_out nat string

definition goto :: "nat \<Rightarrow> pc \<Rightarrow> LockFreeQueue \<Rightarrow> LockFreeQueue" where
  "goto t p s = s\<lparr>pcs := (pcs s)(t := p)\<rparr>"

subsection \<open>Steps\<close>

text \<open>Entering \<open>input(data)\<close> allocates the node; entering \<open>output()\<close> does nothing to shared state.\<close>

definition input :: "nat \<Rightarrow> string \<Rightarrow> LockFreeQueue \<Rightarrow> LockFreeQueue" where
  "input t x s = goto t (In_loop (fresh s))
     (s\<lparr>nexts := (nexts s)(fresh s := 0), log_info := (log_info s)(fresh s := x), fresh := Suc (fresh s)\<rparr>)"

definition output_call :: "nat \<Rightarrow> LockFreeQueue \<Rightarrow> LockFreeQueue" where
  "output_call t s = goto t Out_loop s"

definition input_step :: "nat \<Rightarrow> pc \<Rightarrow> LockFreeQueue \<Rightarrow> event \<times> LockFreeQueue" where
  "input_step t p s =
     (case p of
        In_loop n \<Rightarrow> (Tau, goto t (In_check n (tail s)) s)
      | In_check n c \<Rightarrow> (Tau, goto t (if nexts s c = 0 then In_cas n c else In_help n c) s)
      | In_cas n c \<Rightarrow>
          if nexts s c = 0 then (Enq t (log_info s n), goto t (In_swing n c) (s\<lparr>nexts := (nexts s)(c := n)\<rparr>))
          else (Tau, goto t (In_loop n) s)
      | In_help n c \<Rightarrow> (Tau, goto t (In_help_cas n c (nexts s c)) s)
      | In_help_cas n c x \<Rightarrow> (Tau, goto t (In_loop n) (if tail s = c then s\<lparr>tail := x\<rparr> else s))
      | In_swing n c \<Rightarrow> (Ret_in t True, goto t Idle (if tail s = c then s\<lparr>tail := n\<rparr> else s))
      | _ \<Rightarrow> (Tau, s))"

definition output_step :: "nat \<Rightarrow> pc \<Rightarrow> LockFreeQueue \<Rightarrow> event \<times> LockFreeQueue" where
  "output_step t p s =
     (case p of
        Out_loop \<Rightarrow> (Tau, goto t (Out_next (head s)) s)
      | Out_next f \<Rightarrow>
          if nexts s f = 0 then (Deq_empty t, goto t Out_empty s) else (Tau, goto t (Out_cas f (nexts s f)) s)
      | Out_cas f x \<Rightarrow>
          if head s = f then (Deq t (log_info s x), goto t (Out_read x) (s\<lparr>head := x\<rparr>)) else (Tau, goto t Out_loop s)
      | Out_read x \<Rightarrow> (Ret_out t (log_info s x), goto t Idle s)
      | Out_empty \<Rightarrow> (Ret_out t [], goto t Idle s)
      | _ \<Rightarrow> (Tau, s))"

definition in_output :: "pc \<Rightarrow> bool" where
  "in_output p = (case p of Out_loop \<Rightarrow> True | Out_next f \<Rightarrow> True | Out_cas f x \<Rightarrow> True | Out_read x \<Rightarrow> True
     | Out_empty \<Rightarrow> True | _ \<Rightarrow> False)"

definition thread_step :: "nat \<Rightarrow> LockFreeQueue \<Rightarrow> event \<times> LockFreeQueue" where
  "thread_step t s = (if in_output (pcs s t) then output_step t (pcs s t) s else input_step t (pcs s t) s)"

text \<open>All interleavings of all threads, with the sequence of events.\<close>

inductive lfq_trace :: "event list \<Rightarrow> LockFreeQueue \<Rightarrow> bool" where
  start: "lfq_trace [] LockFreeQueue_new"
| call_input: "lfq_trace tr s \<Longrightarrow> pcs s t = Idle \<Longrightarrow> lfq_trace (tr @ [Call_in t x]) (input t x s)"
| call_output: "lfq_trace tr s \<Longrightarrow> pcs s t = Idle \<Longrightarrow> lfq_trace (tr @ [Call_out t]) (output_call t s)"
| step: "lfq_trace tr s \<Longrightarrow> pcs s t \<noteq> Idle \<Longrightarrow> thread_step t s = (e, s') \<Longrightarrow> lfq_trace (tr @ [e]) s'"

subsection \<open>The abstract queue\<close>

fun fifo :: "event \<Rightarrow> string list \<Rightarrow> string list option" where
  "fifo (Enq t x) q = Some (q @ [x])"
| "fifo (Deq t x) q = (case q of [] \<Rightarrow> None | y # ys \<Rightarrow> if x = y then Some ys else None)"
| "fifo (Deq_empty t) q = (if q = [] then Some [] else None)"
| "fifo _ q = Some q"

fun fifo_run :: "event list \<Rightarrow> string list \<Rightarrow> string list option" where
  "fifo_run [] q = Some q"
| "fifo_run (e # es) q = Option.bind (fifo e q) (fifo_run es)"

lemma fifo_run_append: "fifo_run (es @ fs) q = Option.bind (fifo_run es q) (fifo_run fs)"
  by (induction es arbitrary: q) (auto split: Option.bind_splits)

subsection \<open>Chains of nodes\<close>

fun linked :: "(nat \<Rightarrow> nat) \<Rightarrow> nat list \<Rightarrow> bool" where
  "linked nx [] = False"
| "linked nx [x] = (nx x = 0)"
| "linked nx (x # y # ys) = (nx x = y \<and> linked nx (y # ys))"

fun after :: "nat \<Rightarrow> nat list \<Rightarrow> nat list" where
  "after x [] = []"
| "after x (y # ys) = (if x = y then ys else after x ys)"

definition before :: "nat list \<Rightarrow> nat \<Rightarrow> nat \<Rightarrow> bool" where
  "before ch x y \<longleftrightarrow> x \<in> set ch \<and> (y = x \<or> y \<in> set (after x ch))"

lemma after_subset: "set (after x ch) \<subseteq> set ch"
  by (induction ch) auto

lemma after_append: "x \<in> set ch \<Longrightarrow> after x (ch @ zs) = after x ch @ zs"
  by (induction ch) auto

lemma after_last: "distinct ch \<Longrightarrow> x \<in> set ch \<Longrightarrow> after x ch = [] \<longleftrightarrow> x = last ch"
  by (induction ch) auto

lemma after_trans:
  "distinct ch \<Longrightarrow> y \<in> set (after x ch) \<Longrightarrow> z \<in> set (after y ch) \<Longrightarrow> z \<in> set (after x ch)"
proof (induction ch)
  case (Cons c ch)
  show ?case
  proof (cases "x = c")
    case True
    then show ?thesis using Cons.prems after_subset [of y ch] by (auto split: if_splits)
  next
    case False
    moreover have "y \<noteq> c" using Cons.prems False after_subset [of x ch] by auto
    ultimately show ?thesis using Cons by simp
  qed
qed simp

lemma linked_after:
  "linked nx ch \<Longrightarrow> distinct ch \<Longrightarrow> x \<in> set ch \<Longrightarrow> nx x \<noteq> 0 \<Longrightarrow> after x ch = nx x # after (nx x) ch"
proof (induction nx ch rule: linked.induct)
  case (3 nx c y ys)
  show ?case
  proof (cases "x = c")
    case False
    then have IH: "after x (y # ys) = nx x # after (nx x) (y # ys)" using 3 by simp
    then have "nx x \<in> set (y # ys)" using after_subset [of x "y # ys"] by auto
    then have "nx x \<noteq> c" using 3(3) by auto
    then show ?thesis using IH False by simp
  qed (use 3 in auto)
qed auto

lemma linked_null: "linked nx ch \<Longrightarrow> 0 \<notin> set ch \<Longrightarrow> distinct ch \<Longrightarrow> x \<in> set ch \<Longrightarrow> nx x = 0 \<longleftrightarrow> x = last ch"
  by (induction nx ch rule: linked.induct) auto

lemma linked_cong: "linked nx ch \<Longrightarrow> (\<And>x. x \<in> set ch \<Longrightarrow> nx' x = nx x) \<Longrightarrow> linked nx' ch"
  by (induction nx ch rule: linked.induct) auto

lemma linked_append:
  "linked nx ch \<Longrightarrow> distinct ch \<Longrightarrow> n \<notin> set ch \<Longrightarrow> nx n = 0 \<Longrightarrow> linked (nx(last ch := n)) (ch @ [n])"
proof (induction nx ch rule: linked.induct)
  case (3 nx x y ys)
  define l where "l = last (y # ys)"
  have l: "last (x # y # ys) = l" "x \<noteq> l" using 3(3) last_in_set [of "y # ys"] by (auto simp: l_def)
  have "linked (nx(last (y # ys) := n)) ((y # ys) @ [n])" by (rule 3(1)) (use 3 in auto)
  then have "linked (nx(l := n)) (y # ys @ [n])" unfolding l_def by (simp only: append_Cons)
  then show ?case using 3(2) l(2) unfolding l(1) by (simp add: fun_upd_def)
qed auto

lemma before_refl: "x \<in> set ch \<Longrightarrow> before ch x x"
  by (simp add: before_def)

lemma before_trans: "distinct ch \<Longrightarrow> before ch x y \<Longrightarrow> before ch y z \<Longrightarrow> before ch x z"
  by (auto simp: before_def intro: after_trans)

lemma before_append: "before ch x y \<Longrightarrow> before (ch @ zs) x y"
  by (auto simp: before_def after_append)

lemma before_in: "before ch x y \<Longrightarrow> x \<in> set ch \<and> y \<in> set ch"
  using after_subset [of x ch] by (auto simp: before_def)

lemma before_next:
  "linked nx ch \<Longrightarrow> distinct ch \<Longrightarrow> x \<in> set ch \<Longrightarrow> nx x \<noteq> 0 \<Longrightarrow> before ch x (nx x)"
  by (simp add: before_def linked_after)

lemma before_strict:
  assumes "linked nx ch" "distinct ch" "before ch x y" "x \<noteq> y"
  shows "nx x \<noteq> 0 \<or> 0 \<in> set ch"
  using assms linked_null [of nx ch x] after_last [of ch x] by (auto simp: before_def)

subsection \<open>Invariant\<close>

definition pc_ok :: "nat list \<Rightarrow> (nat \<Rightarrow> nat) \<Rightarrow> nat \<Rightarrow> nat \<Rightarrow> pc \<Rightarrow> bool" where
  "pc_ok ch nx hp tp p =
     (case p of
        In_check n c \<Rightarrow> before ch c tp
      | In_cas n c \<Rightarrow> before ch c tp
      | In_help n c \<Rightarrow> before ch c tp \<and> nx c \<noteq> 0
      | In_help_cas n c x \<Rightarrow> before ch c tp \<and> x = nx c \<and> x \<noteq> 0
      | In_swing n c \<Rightarrow> before ch c tp \<and> n = nx c \<and> n \<noteq> 0
      | Out_next f \<Rightarrow> before ch f hp
      | Out_cas f x \<Rightarrow> before ch f hp \<and> x = nx f \<and> x \<noteq> 0
      | Out_read x \<Rightarrow> x \<in> set ch
      | _ \<Rightarrow> True)"

text \<open>The node of an \<open>input\<close> that has not been linked yet.\<close>

definition pending :: "pc \<Rightarrow> nat option" where
  "pending p = (case p of In_loop n \<Rightarrow> Some n | In_check n c \<Rightarrow> Some n | In_cas n c \<Rightarrow> Some n
     | In_help n c \<Rightarrow> Some n | In_help_cas n c x \<Rightarrow> Some n | _ \<Rightarrow> None)"

definition chain_ok :: "nat list \<Rightarrow> LockFreeQueue \<Rightarrow> bool" where
  "chain_ok ch s \<longleftrightarrow> linked (nexts s) ch \<and> distinct ch \<and> 0 \<notin> set ch \<and> (\<forall>x \<in> set ch. x < fresh s) \<and>
     head s \<in> set ch \<and> tail s \<in> set ch"

definition unlinked :: "nat list \<Rightarrow> LockFreeQueue \<Rightarrow> nat \<Rightarrow> bool" where
  "unlinked ch s n \<longleftrightarrow> 0 < n \<and> n < fresh s \<and> n \<notin> set ch \<and> nexts s n = 0"

definition lfq_inv :: "nat list \<Rightarrow> LockFreeQueue \<Rightarrow> bool" where
  "lfq_inv ch s \<longleftrightarrow> chain_ok ch s \<and> 0 < fresh s \<and> (\<forall>t. pc_ok ch (nexts s) (head s) (tail s) (pcs s t)) \<and>
     (\<forall>t n. pending (pcs s t) = Some n \<longrightarrow> unlinked ch s n) \<and>
     (\<forall>t u n. pending (pcs s t) = Some n \<longrightarrow> pending (pcs s u) = Some n \<longrightarrow> t = u)"

definition contents :: "nat list \<Rightarrow> LockFreeQueue \<Rightarrow> string list" where
  "contents ch s = map (log_info s) (after (head s) ch)"

lemma goto_simps [simp]:
  "nexts (goto t p s) = nexts s" "log_info (goto t p s) = log_info s" "fresh (goto t p s) = fresh s"
  "head (goto t p s) = head s" "tail (goto t p s) = tail s" "pcs (goto t p s) = (pcs s)(t := p)"
  "chain_ok ch (goto t p s) = chain_ok ch s" "unlinked ch (goto t p s) n = unlinked ch s n"
  "contents ch (goto t p s) = contents ch s"
  by (simp_all add: goto_def chain_ok_def unlinked_def contents_def)

lemma lfq_invD:
  assumes "lfq_inv ch s"
  shows "chain_ok ch s" "pc_ok ch (nexts s) (head s) (tail s) (pcs s t)"
    "pending (pcs s t) = Some n \<Longrightarrow> unlinked ch s n"
    "pending (pcs s t) = Some n \<Longrightarrow> pending (pcs s u) = Some n \<Longrightarrow> t = u"
  using assms unfolding lfq_inv_def by blast+

text \<open>What another thread knows stays true when the chain grows and the ends move on.\<close>

lemma pc_ok_mono:
  assumes "pc_ok ch nx hp tp p" and "distinct ch'"
    and "\<And>x y. before ch x y \<Longrightarrow> before ch' x y" and "\<And>x. x \<in> set ch \<Longrightarrow> nx x \<noteq> 0 \<Longrightarrow> nx' x = nx x"
    and "before ch' hp hp'" and "before ch' tp tp'"
  shows "pc_ok ch' nx' hp' tp' p"
proof -
  have 1: "before ch' x tp'" if "before ch x tp" for x using before_trans [OF assms(2) assms(3) [OF that] assms(6)] .
  have 2: "before ch' x hp'" if "before ch x hp" for x using before_trans [OF assms(2) assms(3) [OF that] assms(5)] .
  have 3: "x \<in> set ch'" if "x \<in> set ch" for x using assms(3) [OF before_refl [OF that]] before_in by blast
  show ?thesis using assms(1) 1 2 3 assms(4)
    by (cases p) (auto simp: pc_ok_def dest: before_in)
qed

text \<open>One step of thread \<open>t\<close> to \<open>p\<close>, which turns the shared part of \<open>s\<close> into that of \<open>s'\<close>.\<close>

lemma lfq_inv_move:
  assumes i: "lfq_inv ch s" and ok: "chain_ok ch' s'" and f: "fresh s' = fresh s" and pcs: "pcs s' = pcs s"
    and mono: "\<And>x y. before ch x y \<Longrightarrow> before ch' x y" "\<And>x. x \<in> set ch \<Longrightarrow> nexts s x \<noteq> 0 \<Longrightarrow> nexts s' x = nexts s x"
    and ends: "before ch' (head s) (head s')" "before ch' (tail s) (tail s')"
    and others: "\<And>u n. u \<noteq> t \<Longrightarrow> pending (pcs s u) = Some n \<Longrightarrow> unlinked ch' s' n"
    and own: "pc_ok ch' (nexts s') (head s') (tail s') p"
      "\<And>n. pending p = Some n \<Longrightarrow> pending (pcs s t) = Some n \<and> unlinked ch' s' n"
  shows "lfq_inv ch' (goto t p s')"
proof -
  have d: "distinct ch'" using ok by (simp add: chain_ok_def)
  have "pc_ok ch' (nexts s') (head s') (tail s') (pcs s u)" for u
    by (rule pc_ok_mono [where ch = ch and nx = "nexts s" and hp = "head s" and tp = "tail s"])
      (use i d mono ends in \<open>simp_all add: lfq_inv_def\<close>)
  moreover have "pending (pcs s u) = Some n \<Longrightarrow> pending p = Some n \<Longrightarrow> u = t" for u n
    using own(2) i unfolding lfq_inv_def by blast
  ultimately show ?thesis using i ok f others own unfolding lfq_inv_def
    by (auto simp: pcs split: if_splits)
qed

lemma lfq_inv_local:
  assumes "lfq_inv ch s" "pc_ok ch (nexts s) (head s) (tail s) p"
    "\<And>n. pending p = Some n \<Longrightarrow> pending (pcs s t) = Some n"
  shows "lfq_inv ch (goto t p s)"
  using assms by (intro lfq_inv_move [OF assms(1)]) (auto simp: lfq_inv_def chain_ok_def before_refl)

lemma chain_ok_tail: "chain_ok ch s \<Longrightarrow> x \<in> set ch \<Longrightarrow> chain_ok ch (s\<lparr>tail := x\<rparr>)"
  by (simp add: chain_ok_def)

lemma chain_ok_head: "chain_ok ch s \<Longrightarrow> x \<in> set ch \<Longrightarrow> chain_ok ch (s\<lparr>head := x\<rparr>)"
  by (simp add: chain_ok_def)

lemma lfq_inv_tail:
  assumes "lfq_inv ch s" "before ch (tail s) x" "pc_ok ch (nexts s) (head s) x p"
    "\<And>n. pending p = Some n \<Longrightarrow> pending (pcs s t) = Some n"
  shows "lfq_inv ch (goto t p (s\<lparr>tail := x\<rparr>))"
proof (rule lfq_inv_move [OF assms(1)])
  show "chain_ok ch (s\<lparr>tail := x\<rparr>)" using assms(1,2) before_in [OF assms(2)] by (auto simp: lfq_inv_def chain_ok_def)
qed (use assms in \<open>auto simp: lfq_inv_def chain_ok_def unlinked_def before_refl\<close>)

lemma lfq_inv_head:
  assumes "lfq_inv ch s" "before ch (head s) x" "pc_ok ch (nexts s) x (tail s) p" "pending p = None"
  shows "lfq_inv ch (goto t p (s\<lparr>head := x\<rparr>))"
proof (rule lfq_inv_move [OF assms(1)])
  show "chain_ok ch (s\<lparr>head := x\<rparr>)" using assms(1,2) before_in [OF assms(2)] by (auto simp: lfq_inv_def chain_ok_def)
qed (use assms in \<open>auto simp: lfq_inv_def chain_ok_def unlinked_def before_refl\<close>)

text \<open>Linking a pending node behind the last one.\<close>

lemma lfq_inv_link:
  assumes i: "lfq_inv ch s" and p: "pcs s t = In_cas n c" and nx: "nexts s c = 0"
  shows "lfq_inv (ch @ [n]) (goto t (In_swing n c) (s\<lparr>nexts := (nexts s)(c := n)\<rparr>))"
    and "contents (ch @ [n]) (s\<lparr>nexts := (nexts s)(c := n)\<rparr>) = contents ch s @ [log_info s n]"
proof -
  have ok: "chain_ok ch s" and pc: "before ch c (tail s)" and u: "unlinked ch s n"
    using lfq_invD(1) [OF i] lfq_invD(2) [OF i, of t] lfq_invD(3) [OF i, of t n] p by (simp_all add: pc_ok_def pending_def)
  note c = ok [unfolded chain_ok_def]
  have cin: "c \<in> set ch" using before_in [OF pc] by simp
  then have cl: "c = last ch" using linked_null [of "nexts s" ch c] c nx by simp
  have n: "n \<notin> set ch" "0 < n" "n < fresh s" "nexts s n = 0" using u by (auto simp: unlinked_def)
  have ok': "chain_ok (ch @ [n]) (s\<lparr>nexts := (nexts s)(c := n)\<rparr>)"
    using linked_append [of "nexts s" ch n] c n unfolding chain_ok_def cl by auto
  show "lfq_inv (ch @ [n]) (goto t (In_swing n c) (s\<lparr>nexts := (nexts s)(c := n)\<rparr>))"
  proof (rule lfq_inv_move [OF i ok'])
    fix x y assume "before ch x y" then show "before (ch @ [n]) x y" by (rule before_append)
  next
    fix w m assume w: "w \<noteq> t" "pending (pcs s w) = Some m"
    have "m \<noteq> n" using lfq_invD(4) [OF i, of w m t] w p by (auto simp: pending_def)
    moreover have "unlinked ch s m" using lfq_invD(3) [OF i w(2)] .
    ultimately show "unlinked (ch @ [n]) (s\<lparr>nexts := (nexts s)(c := n)\<rparr>) m"
      using cin by (auto simp: unlinked_def)
  qed (use c cin n nx pc in \<open>auto simp: pc_ok_def pending_def before_refl before_append\<close>)
  show "contents (ch @ [n]) (s\<lparr>nexts := (nexts s)(c := n)\<rparr>) = contents ch s @ [log_info s n]"
    using c by (simp add: contents_def after_append)
qed

subsection \<open>Simulation of the abstract queue\<close>

text \<open>One step of a thread is one step of the abstract queue, or none.\<close>

definition simulates :: "nat list \<Rightarrow> LockFreeQueue \<Rightarrow> event \<Rightarrow> LockFreeQueue \<Rightarrow> bool" where
  "simulates ch s e s' \<longleftrightarrow> (\<exists>ch'. lfq_inv ch' s' \<and> fifo e (contents ch s) = Some (contents ch' s'))"

lemma simulates_tau:
  "lfq_inv ch (goto t p s') \<Longrightarrow> contents ch s' = contents ch s \<Longrightarrow> simulates ch s Tau (goto t p s')"
  by (auto simp: simulates_def)

lemma input_step_simulates:
  assumes i: "lfq_inv ch s" and st: "input_step t (pcs s t) s = (e, s')" and p: "pcs s t \<noteq> Idle" "\<not> in_output (pcs s t)"
  shows "simulates ch s e s'"
proof -
  have ok: "linked (nexts s) ch" "distinct ch" "0 \<notin> set ch" "tail s \<in> set ch"
    using lfq_invD(1) [OF i] by (auto simp: chain_ok_def)
  note pc = lfq_invD(2) [OF i, of t]
  show ?thesis
  proof (cases "pcs s t")
    case (In_loop n)
    have "lfq_inv ch (goto t (In_check n (tail s)) s)"
      using i ok In_loop by (intro lfq_inv_local) (auto simp: pc_ok_def pending_def before_refl)
    then show ?thesis using st In_loop by (auto simp: input_step_def intro: simulates_tau)
  next
    case (In_check n c)
    have "lfq_inv ch (goto t (if nexts s c = 0 then In_cas n c else In_help n c) s)"
      using i pc In_check by (intro lfq_inv_local) (auto simp: pc_ok_def pending_def split: if_splits)
    then show ?thesis using st In_check by (auto simp: input_step_def intro: simulates_tau)
  next
    case (In_cas n c)
    show ?thesis
    proof (cases "nexts s c = 0")
      case True
      then show ?thesis using st In_cas lfq_inv_link [OF i In_cas True] by (auto simp: input_step_def simulates_def)
    next
      case False
      have "lfq_inv ch (goto t (In_loop n) s)" using i In_cas by (intro lfq_inv_local) (auto simp: pc_ok_def pending_def)
      then show ?thesis using st In_cas False by (auto simp: input_step_def intro: simulates_tau)
    qed
  next
    case (In_help n c)
    have "lfq_inv ch (goto t (In_help_cas n c (nexts s c)) s)"
      using i pc In_help by (intro lfq_inv_local) (auto simp: pc_ok_def pending_def)
    then show ?thesis using st In_help by (auto simp: input_step_def intro: simulates_tau)
  next
    case (In_help_cas n c x)
    have "before ch c x" using pc In_help_cas ok before_next [of "nexts s" ch c] before_in by (auto simp: pc_ok_def)
    then have "lfq_inv ch (goto t (In_loop n) (if tail s = c then s\<lparr>tail := x\<rparr> else s))"
      using i In_help_cas lfq_inv_local [OF i, of "In_loop n" t] lfq_inv_tail [OF i, of x "In_loop n" t]
      by (auto simp: pc_ok_def pending_def)
    then show ?thesis using st In_help_cas by (auto simp: input_step_def contents_def intro!: simulates_tau)
  next
    case (In_swing n c)
    have "before ch c n" using pc In_swing ok before_next [of "nexts s" ch c] before_in by (auto simp: pc_ok_def)
    then have "lfq_inv ch (goto t Idle (if tail s = c then s\<lparr>tail := n\<rparr> else s))"
      using i In_swing lfq_inv_local [OF i, of Idle t] lfq_inv_tail [OF i, of n Idle t]
      by (auto simp: pc_ok_def pending_def)
    then show ?thesis using st In_swing by (auto simp: input_step_def contents_def simulates_def)
  qed (use p in \<open>simp_all add: in_output_def\<close>)
qed

lemma output_step_simulates:
  assumes i: "lfq_inv ch s" and st: "output_step t (pcs s t) s = (e, s')" and p: "in_output (pcs s t)"
  shows "simulates ch s e s'"
proof -
  have ok: "linked (nexts s) ch" "distinct ch" "0 \<notin> set ch" "head s \<in> set ch"
    using lfq_invD(1) [OF i] by (auto simp: chain_ok_def)
  note pc = lfq_invD(2) [OF i, of t]
  show ?thesis
  proof (cases "pcs s t")
    case Out_loop
    have "lfq_inv ch (goto t (Out_next (head s)) s)"
      using i ok by (intro lfq_inv_local) (auto simp: pc_ok_def pending_def before_refl)
    then show ?thesis using st Out_loop by (auto simp: output_step_def intro: simulates_tau)
  next
    case (Out_next f)
    have f: "before ch f (head s)" using pc Out_next by (simp add: pc_ok_def)
    show ?thesis
    proof (cases "nexts s f = 0")
      case True
      then have "head s = f" using before_strict [OF ok(1,2) f] ok(3) by auto
      then have "contents ch s = []" using True linked_null [OF ok(1,3,2,4)] after_last [OF ok(2,4)] by (simp add: contents_def)
      moreover have "lfq_inv ch (goto t Out_empty s)" using i by (intro lfq_inv_local) (auto simp: pc_ok_def pending_def)
      ultimately show ?thesis using st Out_next True by (auto simp: output_step_def simulates_def)
    next
      case False
      then have "lfq_inv ch (goto t (Out_cas f (nexts s f)) s)"
        using i f by (intro lfq_inv_local) (auto simp: pc_ok_def pending_def)
      then show ?thesis using st Out_next False by (auto simp: output_step_def intro: simulates_tau)
    qed
  next
    case (Out_cas f x)
    have x: "x = nexts s f" "x \<noteq> 0" "f \<in> set ch" using pc Out_cas before_in by (auto simp: pc_ok_def)
    show ?thesis
    proof (cases "head s = f")
      case True
      have a: "after f ch = x # after x ch" using linked_after [OF ok(1,2) x(3)] x by simp
      have "before ch f x" using before_next [OF ok(1,2) x(3)] x by simp
      then have "lfq_inv ch (goto t (Out_read x) (s\<lparr>head := x\<rparr>))"
        using i True before_in by (intro lfq_inv_head) (auto simp: pc_ok_def pending_def)
      moreover have "contents ch s = log_info s x # contents ch (s\<lparr>head := x\<rparr>)"
        using True a by (simp add: contents_def)
      ultimately show ?thesis using st Out_cas True by (auto simp: output_step_def simulates_def)
    next
      case False
      have "lfq_inv ch (goto t Out_loop s)" using i by (intro lfq_inv_local) (auto simp: pc_ok_def pending_def)
      then show ?thesis using st Out_cas False by (auto simp: output_step_def intro: simulates_tau)
    qed
  next
    case (Out_read x)
    have "lfq_inv ch (goto t Idle s)" using i by (intro lfq_inv_local) (auto simp: pc_ok_def pending_def)
    then show ?thesis using st Out_read by (auto simp: output_step_def simulates_def)
  next
    case Out_empty
    have "lfq_inv ch (goto t Idle s)" using i by (intro lfq_inv_local) (auto simp: pc_ok_def pending_def)
    then show ?thesis using st Out_empty by (auto simp: output_step_def simulates_def)
  qed (use p in \<open>simp_all add: in_output_def\<close>)
qed

lemma thread_step_simulates:
  assumes "lfq_inv ch s" "pcs s t \<noteq> Idle" "thread_step t s = (e, s')"
  shows "simulates ch s e s'"
  using assms input_step_simulates output_step_simulates by (auto simp: thread_step_def split: if_splits)

lemma lfq_inv_input:
  assumes i: "lfq_inv ch s" and p: "pcs s t = Idle"
  shows "lfq_inv ch (input t x s)" and "contents ch (input t x s) = contents ch s"
proof -
  note c = lfq_invD(1) [OF i, unfolded chain_ok_def]
  have f: "fresh s \<notin> set ch" "0 < fresh s" using c i by (auto simp: lfq_inv_def)
  let ?nx = "(nexts s)(fresh s := 0)"
  have eq: "?nx y = nexts s y" if "y \<in> set ch" for y using f that by auto
  have ok: "chain_ok ch (input t x s)"
    using c linked_cong [of "nexts s" ch ?nx] eq by (auto simp: input_def chain_ok_def)
  have pco: "pc_ok ch ?nx (head s) (tail s) (pcs s u)" for u
    by (rule pc_ok_mono [OF lfq_invD(2) [OF i]]) (use c eq in \<open>auto simp: before_refl\<close>)
  have u: "unlinked ch (input t x s) n \<and> n \<noteq> fresh s" if "pending (pcs s w) = Some n" for w n
    using lfq_invD(3) [OF i that] by (auto simp: unlinked_def input_def)
  have new: "unlinked ch (input t x s) (fresh s)" using f by (simp add: unlinked_def input_def)
  have pcs: "pcs (input t x s) = (pcs s)(t := In_loop (fresh s))" by (simp add: input_def)
  have nx: "nexts (input t x s) = ?nx" "head (input t x s) = head s" "tail (input t x s) = tail s"
    "fresh (input t x s) = Suc (fresh s)" by (simp_all add: input_def)
  have pd: "pending (In_loop (fresh s)) = Some (fresh s)" "pc_ok ch ?nx (head s) (tail s) (In_loop (fresh s))"
    by (simp_all add: pending_def pc_ok_def)
  show "lfq_inv ch (input t x s)"
    unfolding lfq_inv_def nx pcs using ok pco u new pd lfq_invD(4) [OF i]
    by (auto split: if_splits)
  have "\<forall>y \<in> set (after (head s) ch). y \<noteq> fresh s" using f after_subset by blast
  then show "contents ch (input t x s) = contents ch s" by (simp add: contents_def input_def)
qed

lemma lfq_inv_new: "lfq_inv [1] LockFreeQueue_new" "contents [1] LockFreeQueue_new = []"
  by (simp_all add: lfq_inv_def chain_ok_def LockFreeQueue_new_def pc_ok_def pending_def contents_def)

lemma lfq_trace_fifo:
  "lfq_trace tr s \<Longrightarrow> \<exists>ch. lfq_inv ch s \<and> fifo_run tr [] = Some (contents ch s)"
proof (induction rule: lfq_trace.induct)
  case start
  show ?case using lfq_inv_new by auto
next
  case (call_input tr s t x)
  then obtain ch where ch: "lfq_inv ch s" "fifo_run tr [] = Some (contents ch s)" by blast
  then show ?case using lfq_inv_input [OF ch(1) call_input.hyps(2)] by (intro exI [of _ ch]) (simp add: fifo_run_append)
next
  case (call_output tr s t)
  then obtain ch where "lfq_inv ch s" "fifo_run tr [] = Some (contents ch s)" by blast
  moreover from this(1) have "lfq_inv ch (output_call t s)"
    unfolding output_call_def by (rule lfq_inv_local) (auto simp: pc_ok_def pending_def)
  ultimately show ?case by (auto simp: output_call_def fifo_run_append)
next
  case (step tr s t e s')
  then obtain ch where ch: "lfq_inv ch s" "fifo_run tr [] = Some (contents ch s)" by blast
  then obtain ch' where "lfq_inv ch' s'" "fifo e (contents ch s) = Some (contents ch' s')"
    using thread_step_simulates [OF ch(1) step.hyps(2,3)] by (auto simp: simulates_def)
  then show ?case using ch(2) by (auto simp: fifo_run_append)
qed

subsection \<open>What a call of output returns\<close>

fun results :: "nat \<Rightarrow> event list \<Rightarrow> string list" where
  "results t [] = []"
| "results t (Deq u x # es) = (if u = t then x # results t es else results t es)"
| "results t (Deq_empty u # es) = (if u = t then [] # results t es else results t es)"
| "results t (_ # es) = results t es"

fun returned :: "nat \<Rightarrow> event list \<Rightarrow> string list" where
  "returned t [] = []"
| "returned t (Ret_out u x # es) = (if u = t then x # returned t es else returned t es)"
| "returned t (_ # es) = returned t es"

lemma results_append: "results t (es @ fs) = results t es @ results t fs"
  by (induction t es rule: results.induct) auto

lemma returned_append: "returned t (es @ fs) = returned t es @ returned t fs"
  by (induction t es rule: returned.induct) auto

text \<open>The result a call of \<open>output\<close> has settled on and not returned yet.\<close>

definition in_flight :: "LockFreeQueue \<Rightarrow> nat \<Rightarrow> string list" where
  "in_flight s t = (case pcs s t of Out_read x \<Rightarrow> [log_info s x] | Out_empty \<Rightarrow> [[]] | _ \<Rightarrow> [])"

lemma in_flight_goto [simp]:
  "in_flight (goto u p s) t = (if t = u then (case p of Out_read x \<Rightarrow> [log_info s x] | Out_empty \<Rightarrow> [[]] | _ \<Rightarrow> []) else in_flight s t)"
  by (simp add: in_flight_def cong: pc.case_cong)

lemma in_flight_shared [simp]:
  "in_flight (s\<lparr>nexts := f\<rparr>) t = in_flight s t" "in_flight (s\<lparr>tail := x\<rparr>) t = in_flight s t"
  "in_flight (s\<lparr>head := x\<rparr>) t = in_flight s t"
  by (simp_all add: in_flight_def cong: pc.case_cong)

lemma input_step_results:
  assumes "input_step u (pcs s u) s = (e, s')" "\<not> in_output (pcs s u)" "pcs s u \<noteq> Idle"
  shows "results t [e] = [] \<and> returned t [e] = [] \<and> in_flight s' t = in_flight s t"
proof -
  have "in_flight s u = []" using assms(2) by (cases "pcs s u") (simp_all add: in_flight_def in_output_def)
  then show ?thesis using assms
    by (cases "pcs s u") (auto simp: input_step_def in_output_def split: if_splits)
qed

lemma output_step_results:
  assumes "output_step u (pcs s u) s = (e, s')" "in_output (pcs s u)"
  shows "in_flight s t @ results t [e] = returned t [e] @ in_flight s' t"
proof -
  have "in_flight s u = (case pcs s u of Out_read x \<Rightarrow> [log_info s x] | Out_empty \<Rightarrow> [[]] | _ \<Rightarrow> [])" by (simp add: in_flight_def)
  then show ?thesis using assms
    by (cases "pcs s u") (auto simp: output_step_def in_output_def split: if_splits)
qed

lemma thread_step_results:
  assumes "thread_step u s = (e, s')" "pcs s u \<noteq> Idle"
  shows "in_flight s t @ results t [e] = returned t [e] @ in_flight s' t"
  using assms input_step_results [of u s e s' t] output_step_results [of u s e s' t]
  by (auto simp: thread_step_def split: if_splits)

lemma input_in_flight:
  assumes "lfq_inv ch s" "pcs s u = Idle"
  shows "in_flight (input u x s) t = in_flight s t"
proof (cases "pcs s t")
  case (Out_read y)
  then have "y < fresh s" using lfq_invD(1) [OF assms(1)] lfq_invD(2) [OF assms(1), of t] by (auto simp: pc_ok_def chain_ok_def)
  then show ?thesis using Out_read assms(2) by (auto simp: in_flight_def input_def goto_def)
qed (use assms(2) in \<open>auto simp: in_flight_def input_def goto_def\<close>)

lemma lfq_trace_results: "lfq_trace tr s \<Longrightarrow> results t tr = returned t tr @ in_flight s t"
proof (induction rule: lfq_trace.induct)
  case start
  show ?case by (simp add: in_flight_def LockFreeQueue_new_def)
next
  case (call_input tr s u x)
  then obtain ch where "lfq_inv ch s" using lfq_trace_fifo by blast
  then show ?case using call_input input_in_flight [of _ s u x t] by (auto simp: results_append returned_append)
next
  case (call_output tr s u)
  then show ?case by (auto simp: output_call_def results_append returned_append) (simp add: in_flight_def)
next
  case (step tr s u e s')
  then show ?case using thread_step_results [OF step.hyps(3,2), of t]
    by (simp add: results_append returned_append)
qed

subsection \<open>The calls of a thread\<close>

text \<open>Where a call is: its argument before it has taken effect, its result after that.\<close>

datatype phase = Between | Inserting string | Inserted | Taking | Took string

fun own_step :: "event \<Rightarrow> phase \<Rightarrow> phase option" where
  "own_step (Call_in t x) Between = Some (Inserting x)"
| "own_step (Enq t x) (Inserting y) = (if x = y then Some Inserted else None)"
| "own_step (Ret_in t b) Inserted = (if b then Some Between else None)"
| "own_step (Call_out t) Between = Some Taking"
| "own_step (Deq t x) Taking = Some (Took x)"
| "own_step (Deq_empty t) Taking = Some (Took [])"
| "own_step (Ret_out t x) (Took y) = (if x = y then Some Between else None)"
| "own_step _ _ = None"

fun thread_of :: "event \<Rightarrow> nat option" where
  "thread_of Tau = None"
| "thread_of (Call_in t x) = Some t"
| "thread_of (Enq t x) = Some t"
| "thread_of (Ret_in t b) = Some t"
| "thread_of (Call_out t) = Some t"
| "thread_of (Deq t x) = Some t"
| "thread_of (Deq_empty t) = Some t"
| "thread_of (Ret_out t x) = Some t"

text \<open>\<open>None\<close> if the events of the thread are not those of complete calls, one after the other, and a last one that may
  still be running.\<close>

fun call_run :: "nat \<Rightarrow> event list \<Rightarrow> phase \<Rightarrow> phase option" where
  "call_run t [] p = Some p"
| "call_run t (e # es) p = (if thread_of e = Some t then Option.bind (own_step e p) (call_run t es) else call_run t es p)"

definition phase_at :: "LockFreeQueue \<Rightarrow> nat \<Rightarrow> phase" where
  "phase_at s t =
     (case pcs s t of
        Idle \<Rightarrow> Between
      | In_loop n \<Rightarrow> Inserting (log_info s n)
      | In_check n c \<Rightarrow> Inserting (log_info s n)
      | In_cas n c \<Rightarrow> Inserting (log_info s n)
      | In_help n c \<Rightarrow> Inserting (log_info s n)
      | In_help_cas n c x \<Rightarrow> Inserting (log_info s n)
      | In_swing n c \<Rightarrow> Inserted
      | Out_loop \<Rightarrow> Taking
      | Out_next f \<Rightarrow> Taking
      | Out_cas f x \<Rightarrow> Taking
      | Out_read x \<Rightarrow> Took (log_info s x)
      | Out_empty \<Rightarrow> Took [])"

lemma call_run_append: "call_run t (es @ fs) p = Option.bind (call_run t es p) (call_run t fs)"
  by (induction t es p rule: call_run.induct) (auto split: Option.bind_splits)

lemma phase_at_same: "pcs s' t = pcs s t \<Longrightarrow> log_info s' = log_info s \<Longrightarrow> phase_at s' t = phase_at s t"
  by (simp add: phase_at_def cong: pc.case_cong)

lemma input_step_frame:
  "input_step u p s = (e, s') \<Longrightarrow> log_info s' = log_info s \<and> (t \<noteq> u \<longrightarrow> pcs s' t = pcs s t) \<and> thread_of e \<in> {None, Some u}"
  by (cases p) (auto simp: input_step_def split: if_splits)

lemma output_step_frame:
  "output_step u p s = (e, s') \<Longrightarrow> log_info s' = log_info s \<and> (t \<noteq> u \<longrightarrow> pcs s' t = pcs s t) \<and> thread_of e \<in> {None, Some u}"
  by (cases p) (auto simp: output_step_def split: if_splits)

lemma input_step_own:
  assumes "input_step t p s = (e, s')" "pcs s t = p" "p \<noteq> Idle" "\<not> in_output p"
  shows "call_run t [e] (phase_at s t) = Some (phase_at s' t)"
  using assms by (cases p) (auto simp: input_step_def in_output_def phase_at_def split: if_splits)

lemma output_step_own:
  assumes "output_step t p s = (e, s')" "pcs s t = p" "in_output p"
  shows "call_run t [e] (phase_at s t) = Some (phase_at s' t)"
  using assms by (cases p) (auto simp: output_step_def in_output_def phase_at_def split: if_splits)

lemma thread_step_phase:
  assumes "thread_step u s = (e, s')" "pcs s u \<noteq> Idle"
  shows "call_run t [e] (phase_at s t) = Some (phase_at s' t)"
proof (cases "t = u")
  case True
  then show ?thesis using assms input_step_own [of u "pcs s u" s e s'] output_step_own [of u "pcs s u" s e s']
    by (cases "in_output (pcs s u)") (simp_all add: thread_step_def)
next
  case False
  have f: "pcs s' t = pcs s t" "log_info s' = log_info s" "thread_of e \<noteq> Some t"
    using False assms(1) input_step_frame [of u "pcs s u" s e s' t] output_step_frame [of u "pcs s u" s e s' t]
    by (auto simp: thread_step_def split: if_splits)
  then show ?thesis using phase_at_same [OF f(1,2)] by simp
qed

lemma input_phase:
  assumes "lfq_inv ch s" "pcs s u = Idle"
  shows "call_run t [Call_in u x] (phase_at s t) = Some (phase_at (input u x s) t)"
proof (cases "t = u")
  case True
  then show ?thesis using assms(2) by (simp add: phase_at_def input_def)
next
  case False
  have n: "n \<noteq> fresh s" if "pending (pcs s t) = Some n" for n
    using lfq_invD(3) [OF assms(1) that] by (simp add: unlinked_def)
  have x: "y \<noteq> fresh s" if "pcs s t = Out_read y" for y
    using lfq_invD(2) [OF assms(1), of t] lfq_invD(1) [OF assms(1)] that by (auto simp: pc_ok_def chain_ok_def)
  show ?thesis using False n x
    by (cases "pcs s t") (simp_all add: phase_at_def input_def pending_def)
qed

lemma lfq_trace_calls: "lfq_trace tr s \<Longrightarrow> call_run t tr Between = Some (phase_at s t)"
proof (induction rule: lfq_trace.induct)
  case start
  show ?case by (simp add: phase_at_def LockFreeQueue_new_def)
next
  case (call_input tr s u x)
  then obtain ch where "lfq_inv ch s" using lfq_trace_fifo by blast
  then show ?case using call_input input_phase by (simp add: call_run_append)
next
  case (call_output tr s u)
  moreover have "phase_at (output_call u s) t = (if t = u then Taking else phase_at s t)"
    using phase_at_same [of "output_call u s" t s] by (auto simp: output_call_def) (simp add: phase_at_def)
  moreover have "phase_at s u = Between" using call_output.hyps(2) by (simp add: phase_at_def)
  ultimately show ?case by (cases "t = u") (auto simp: call_run_append)
next
  case (step tr s u e s')
  then show ?case using thread_step_phase [OF step.hyps(3,2), of t] by (simp add: call_run_append)
qed

end
