(* ===== verification/Queue_Theorems.thy ===== *)
theory Queue_Theorems
  imports Lock_Free_Queue
begin

text \<open>
  Properties of the lock-free queues: linearisability and progress of \<open>LockFreeQueue\<close>
  (\<open>example/performance_units/lock_free_queue.cpp\<close>).
\<close>

subsection \<open>Linearisability\<close>

text \<open>
  C9: in every interleaving of any number of threads the queue is linearisable. The moments at which
  calls take effect, in their order, are a run of the abstract FIFO queue: enqueues, dequeues and reports of
  emptiness. And the events of each thread are those of its calls, one after the other: \<open>input(x)\<close> is called, enqueues
  its argument \<open>x\<close> once and returns \<open>true\<close>; \<open>output()\<close> is called, either dequeues one value and returns it or finds the
  queue empty and returns the empty string. Only the last call of a thread may be incomplete, and then it is as far as
  the thread's program counter says.
\<close>

theorem lock_free_queue_fifo:
  assumes "lfq_trace tr s"
  shows "(\<exists>q. fifo_run tr [] = Some q) \<and> (\<forall>t. call_run t tr Between = Some (phase_at s t))"
  using lfq_trace_fifo [OF assms] lfq_trace_calls [OF assms] by blast

fun solo :: "nat \<Rightarrow> nat \<Rightarrow> LockFreeQueue \<Rightarrow> LockFreeQueue" where
  "solo t 0 s = s"
| "solo t (Suc k) s = (if pcs s t = Idle then s else solo t k (snd (thread_step t s)))"

text \<open>One thread inserts \<open>a\<close> and returns; another takes it and returns it while a third finds the queue empty.\<close>

lemma lfq_trace_step:
  "lfq_trace tr s \<Longrightarrow> pcs s t \<noteq> Idle \<Longrightarrow> thread_step t s = (e, s') \<Longrightarrow> tr @ [e] = tr' \<Longrightarrow> lfq_trace tr' s'"
  using lfq_trace.step by blast

fun lfq_schedule :: "nat list \<Rightarrow> event list \<Rightarrow> LockFreeQueue \<Rightarrow> event list \<times> LockFreeQueue" where
  "lfq_schedule [] tr s = (tr, s)"
| "lfq_schedule (t # ts) tr s =
     (if pcs s t = Idle then (tr, s) else case thread_step t s of (e, s') \<Rightarrow> lfq_schedule ts (tr @ [e]) s')"

lemma lfq_schedule_trace: "lfq_trace tr s \<Longrightarrow> lfq_schedule ts tr s = (tr', s') \<Longrightarrow> lfq_trace tr' s'"
  by (induction ts tr s arbitrary: tr' s' rule: lfq_schedule.induct)
    (auto split: if_splits prod.splits intro: lfq_trace.step)

definition three_calls :: "event list" where
  "three_calls = [Call_in 7 ''a'', Call_out 8, Call_out 9, Tau, Tau, Tau, Enq 7 ''a'', Tau, Deq 8 ''a'', Tau, Deq_empty 9, Ret_in 7 True,
     Ret_out 8 ''a'', Ret_out 9 []]"

lemma three_calls_trace: "\<exists>s. lfq_trace three_calls s \<and> pcs s = (\<lambda>_. Idle)"
proof -
  let ?s = "output_call 9 (output_call 8 (input 7 ''a'' LockFreeQueue_new))"
  have "lfq_trace ((([] @ [Call_in 7 ''a'']) @ [Call_out 8]) @ [Call_out 9]) ?s"
    by (intro lfq_trace.call_output lfq_trace.call_input lfq_trace.start)
      (simp_all add: LockFreeQueue_new_def input_def output_call_def)
  moreover obtain s where "lfq_schedule [7, 7, 8, 7, 8, 8, 9, 9, 7, 8, 9] [Call_in 7 ''a'', Call_out 8, Call_out 9] ?s = (three_calls, s)"
    "pcs s = (\<lambda>_. Idle)"
    by (simp add: three_calls_def thread_step_def in_output_def input_step_def output_step_def input_def output_call_def
        LockFreeQueue_new_def fun_eq_iff)
  ultimately show ?thesis using lfq_schedule_trace by fastforce
qed

theorem lock_free_queue_fifo_witness:
  "\<exists>q. fifo_run three_calls [] = Some q \<and> call_run 7 three_calls Between = Some Between \<and>
     call_run 8 three_calls Between = Some Between \<and> call_run 9 three_calls Between = Some Between"
proof -
  obtain s where s: "lfq_trace three_calls s" "pcs s = (\<lambda>_. Idle)" using three_calls_trace by blast
  have "phase_at s t = Between" for t by (simp add: phase_at_def s(2))
  then show ?thesis using lock_free_queue_fifo [OF s(1)] by simp
qed

subsection \<open>Progress\<close>

definition lag :: "nat list \<Rightarrow> LockFreeQueue \<Rightarrow> nat" where
  "lag ch s = length (after (tail s) ch)"

text \<open>An upper bound on the steps a thread still needs when it runs alone.\<close>

definition steps_left :: "nat list \<Rightarrow> LockFreeQueue \<Rightarrow> pc \<Rightarrow> nat" where
  "steps_left ch s p =
     (case p of
        Idle \<Rightarrow> 0
      | In_loop n \<Rightarrow> 10 * lag ch s + 25
      | In_check n c \<Rightarrow> 10 * lag ch s + (if c = tail s then 24 else 34)
      | In_cas n c \<Rightarrow> 10 * lag ch s + (if nexts s c = 0 then 23 else 33)
      | In_help n c \<Rightarrow> 10 * lag ch s + (if c = tail s then 23 else 33)
      | In_help_cas n c x \<Rightarrow> 10 * lag ch s + (if c = tail s then 22 else 32)
      | In_swing n c \<Rightarrow> 10 * lag ch s + 1
      | Out_loop \<Rightarrow> 4
      | Out_next f \<Rightarrow> (if f = head s then 3 else 7)
      | Out_cas f x \<Rightarrow> (if f = head s then 2 else 6)
      | Out_read x \<Rightarrow> 1
      | Out_empty \<Rightarrow> 1)"

lemma lag_goto [simp]: "lag ch (goto t p s) = lag ch s"
  by (simp add: lag_def)

lemma steps_left_goto [simp]: "steps_left ch (goto t p s) q = steps_left ch s q"
  by (cases q) (simp_all add: steps_left_def)

lemma output_step_decreases:
  assumes i: "lfq_inv ch s" and st: "output_step t (pcs s t) s = (e, s')" and p: "in_output (pcs s t)"
  shows "steps_left ch s' (pcs s' t) < steps_left ch s (pcs s t)"
proof -
  note pc = lfq_invD(2) [OF i, of t]
  show ?thesis using st p pc
    by (cases "pcs s t") (auto simp: output_step_def in_output_def steps_left_def split: if_splits)
qed

lemma input_step_decreases:
  assumes i: "lfq_inv ch s" and st: "input_step t (pcs s t) s = (e, s')" and p: "pcs s t \<noteq> Idle" "\<not> in_output (pcs s t)"
  shows "\<exists>ch'. lfq_inv ch' s' \<and> steps_left ch' s' (pcs s' t) < steps_left ch s (pcs s t)"
proof -
  have ok: "linked (nexts s) ch" "distinct ch" "0 \<notin> set ch" "tail s \<in> set ch"
    using lfq_invD(1) [OF i] by (auto simp: chain_ok_def)
  note pc = lfq_invD(2) [OF i, of t]
  obtain ch' where ch': "lfq_inv ch' s'" using input_step_simulates [OF i st p] by (auto simp: simulates_def)
  show ?thesis
  proof (cases "pcs s t")
    case (In_cas n c)
    show ?thesis
    proof (cases "nexts s c = 0")
      case True
      have s': "s' = goto t (In_swing n c) (s\<lparr>nexts := (nexts s)(c := n)\<rparr>)" using st In_cas True by (simp add: input_step_def)
      have "lag (ch @ [n]) s' = Suc (lag ch s)" using ok by (simp add: s' lag_def after_append)
      then show ?thesis using lfq_inv_link(1) [OF i In_cas True]
        by (intro exI [of _ "ch @ [n]"]) (simp add: s' In_cas True steps_left_def)
    next
      case False
      then have "s' = goto t (In_loop n) s" using st In_cas by (simp add: input_step_def)
      then show ?thesis using In_cas False st i lfq_inv_local [OF i, of "In_loop n" t]
        by (intro exI [of _ ch]) (auto simp: steps_left_def pc_ok_def pending_def)
    qed
  next
    case (In_help_cas n c x)
    have x: "x = nexts s c" "x \<noteq> 0" using pc In_help_cas by (auto simp: pc_ok_def)
    have s': "s' = goto t (In_loop n) (if tail s = c then s\<lparr>tail := x\<rparr> else s)" using st In_help_cas by (simp add: input_step_def)
    show ?thesis
    proof (cases "tail s = c")
      case True
      have a: "after c ch = x # after x ch" using linked_after [OF ok(1,2)] ok(4) x True by simp
      then have xin: "x \<in> set ch" using after_subset [of c ch] by auto
      have l': "lfq_inv ch s'" using lfq_inv_tail [OF i, of x "In_loop n" t] before_next [OF ok(1,2), of c] ok(4) x True In_help_cas
        by (simp add: s' pc_ok_def pending_def)
      have "Suc (lag ch s') = lag ch s" using a True by (simp add: s' lag_def)
      then show ?thesis using l' by (intro exI [of _ ch]) (simp add: s' In_help_cas True steps_left_def)
    next
      case False
      then have "lfq_inv ch s'" using lfq_inv_local [OF i, of "In_loop n" t] In_help_cas by (simp add: s' pc_ok_def pending_def)
      then show ?thesis using False by (intro exI [of _ ch]) (simp add: s' In_help_cas steps_left_def)
    qed
  next
    case (In_check n c)
    have c: "before ch c (tail s)" using pc In_check by (simp add: pc_ok_def)
    have "nexts s c \<noteq> 0" if "c \<noteq> tail s" using before_strict [OF ok(1,2) c that] ok(3) by simp
    moreover have "lfq_inv ch (goto t (if nexts s c = 0 then In_cas n c else In_help n c) s)"
      using i c In_check by (intro lfq_inv_local) (auto simp: pc_ok_def pending_def split: if_splits)
    ultimately show ?thesis using st In_check
      by (intro exI [of _ ch]) (auto simp: input_step_def steps_left_def)
  next
    case (In_loop n)
    have "lfq_inv ch (goto t (In_check n (tail s)) s)"
      using i ok In_loop by (intro lfq_inv_local) (auto simp: pc_ok_def pending_def before_refl)
    then show ?thesis using st In_loop by (intro exI [of _ ch]) (auto simp: input_step_def steps_left_def)
  next
    case (In_help n c)
    have "lfq_inv ch (goto t (In_help_cas n c (nexts s c)) s)"
      using i pc In_help by (intro lfq_inv_local) (auto simp: pc_ok_def pending_def)
    then show ?thesis using st In_help by (intro exI [of _ ch]) (auto simp: input_step_def steps_left_def)
  next
    case (In_swing n c)
    then show ?thesis using st ch' by (intro exI [of _ ch']) (auto simp: input_step_def steps_left_def)
  qed (use p in \<open>simp_all add: in_output_def\<close>)
qed

lemma thread_step_decreases:
  assumes i: "lfq_inv ch s" and p: "pcs s t \<noteq> Idle"
  shows "\<exists>ch'. lfq_inv ch' (snd (thread_step t s)) \<and>
    steps_left ch' (snd (thread_step t s)) (pcs (snd (thread_step t s)) t) < steps_left ch s (pcs s t)"
proof (cases "in_output (pcs s t)")
  case True
  obtain e s' where st: "output_step t (pcs s t) s = (e, s')" by (cases "output_step t (pcs s t) s")
  obtain ch' where "lfq_inv ch' s'" using output_step_simulates [OF i st True] by (auto simp: simulates_def)
  moreover have "steps_left ch' s' q = steps_left ch s' q" if "in_output q \<or> q = Idle" for q
    using that by (cases q) (simp_all add: steps_left_def in_output_def)
  moreover have "in_output (pcs s' t) \<or> pcs s' t = Idle" using st True
    by (cases "pcs s t") (auto simp: output_step_def in_output_def split: if_splits)
  ultimately show ?thesis using output_step_decreases [OF i st True] st True by (auto simp: thread_step_def)
next
  case False
  obtain e s' where st: "input_step t (pcs s t) s = (e, s')" by (cases "input_step t (pcs s t) s")
  then show ?thesis using input_step_decreases [OF i st p False] False by (simp add: thread_step_def)
qed

lemma solo_finishes: "lfq_inv ch s \<Longrightarrow> pcs (solo t (steps_left ch s (pcs s t)) s) t = Idle"
proof -
  have "pcs (solo t k s) t = Idle" if "lfq_inv ch s" "steps_left ch s (pcs s t) \<le> k" for k ch s
    using that
  proof (induction k arbitrary: ch s)
    case 0
    then show ?case using thread_step_decreases [OF 0(1), of t] by force
  next
    case (Suc k)
    show ?case
    proof (cases "pcs s t = Idle")
      case False
      then obtain ch' where "lfq_inv ch' (snd (thread_step t s))"
        "steps_left ch' (snd (thread_step t s)) (pcs (snd (thread_step t s)) t) \<le> k"
        using thread_step_decreases [OF Suc.prems(1) False] Suc.prems(2) by (meson le_trans less_Suc_eq_le not_less)
      then show ?thesis using Suc.IH False by simp
    qed simp
  qed
  then show "lfq_inv ch s \<Longrightarrow> pcs (solo t (steps_left ch s (pcs s t)) s) t = Idle" by blast
qed

lemma steps_left_bound:
  assumes "lfq_inv ch s"
  shows "steps_left ch s p \<le> 10 * fresh s + 34"
proof -
  have c: "distinct ch" "set ch \<subseteq> {..<fresh s}" using lfq_invD(1) [OF assms] by (auto simp: chain_ok_def)
  have "length ch \<le> fresh s" using card_mono [OF _ c(2)] distinct_card [OF c(1)] by simp
  moreover have "length (after x ys) \<le> length ys" for x ys by (induction ys) auto
  ultimately have "lag ch s \<le> fresh s" by (metis lag_def le_trans)
  then show ?thesis by (cases p) (auto simp: steps_left_def)
qed

text \<open>
  C10: from every reachable state, whatever the other threads were doing when they stopped, a
  thread that runs alone finishes its call within \<open>10 * fresh + 34\<close> of its steps, where \<open>fresh\<close> counts the
  nodes allocated so far.
\<close>

theorem lock_free_queue_progress:
  assumes "lfq_trace tr s"
  shows "\<exists>k. k \<le> 10 * fresh s + 34 \<and> pcs (solo t k s) t = Idle"
proof -
  obtain ch where i: "lfq_inv ch s" using lfq_trace_fifo [OF assms] by blast
  show ?thesis using solo_finishes [OF i, of t] steps_left_bound [OF i] by blast
qed

theorem lock_free_queue_progress_witness:
  "\<exists>k. k \<le> 64 \<and> pcs (solo 7 k (input 7 ''a'' LockFreeQueue_new)) 7 = Idle"
proof -
  have "lfq_trace ([] @ [Call_in 7 ''a'']) (input 7 ''a'' LockFreeQueue_new)"
    by (rule lfq_trace.call_input [OF lfq_trace.start]) (simp add: LockFreeQueue_new_def)
  from lock_free_queue_progress [OF this, of 7] show ?thesis by (simp add: input_def LockFreeQueue_new_def)
qed

end
