(* ===== verification/Free_Lock_Queue.thy ===== *)
theory Free_Lock_Queue
  imports Prelude
begin

text \<open>
  \<open>FreeLockQueue\<close> (\<open>example/protobuf/free_lock_queue.h\<close>): a queue whose \<open>de_queue\<close> ignores the result of its
  compare-and-swap and frees the old head. Every access to shared memory is a step; an access
  to a freed node is an error. The constructor of \<open>ListNode\<close> leaves \<open>next\<close> unset: its value is an argument.
\<close>

record ListNode =
  val :: "32 word"
  next_node :: nat

datatype flq_pc =
    Flq_idle
  | E_loop nat
  | E_cas nat nat
  | E_help nat nat
  | E_help_cas nat nat nat
  | E_swing nat nat
  | D_loop
  | D_check nat
  | D_arg nat
  | D_cas nat nat
  | D_val nat
  | D_read nat nat
  | D_del nat "32 word"

record FreeLockQueue =
  nodes :: "nat \<Rightarrow> ListNode option"
  flq_fresh :: nat
  flq_head :: nat
  flq_tail :: nat
  flq_pcs :: "nat \<Rightarrow> flq_pc"
  flq_returned :: "(nat \<times> 32 word) list"

text \<open>The class has no constructor: \<open>head\<close> and \<open>tail\<close> hold whatever the memory held, and no node has been made.\<close>

definition FreeLockQueue_new :: "nat \<Rightarrow> nat \<Rightarrow> FreeLockQueue" where
  "FreeLockQueue_new hp tp = \<lparr>nodes = Map.empty, flq_fresh = 1, flq_head = hp, flq_tail = tp, flq_pcs = (\<lambda>_. Flq_idle), flq_returned = []\<rparr>"

definition flq_goto :: "nat \<Rightarrow> flq_pc \<Rightarrow> FreeLockQueue \<Rightarrow> FreeLockQueue" where
  "flq_goto t p s = s\<lparr>flq_pcs := (flq_pcs s)(t := p)\<rparr>"

definition get_node :: "FreeLockQueue \<Rightarrow> nat \<Rightarrow> ListNode cxx" where
  "get_node s a = (if a = 0 then Inl Null_deref else case nodes s a of None \<Rightarrow> Inl Invalid_access | Some n \<Rightarrow> Inr n)"

text \<open>Entering \<open>en_queue(x)\<close>: the new node's \<open>next\<close> is whatever the memory held.\<close>

definition en_queue :: "nat \<Rightarrow> nat \<Rightarrow> 32 word \<Rightarrow> FreeLockQueue \<Rightarrow> FreeLockQueue" where
  "en_queue garbage t x s = flq_goto t (E_loop (flq_fresh s))
     (s\<lparr>nodes := (nodes s)(flq_fresh s \<mapsto> \<lparr>val = x, next_node = garbage\<rparr>), flq_fresh := Suc (flq_fresh s)\<rparr>)"

definition en_queue_step :: "nat \<Rightarrow> flq_pc \<Rightarrow> FreeLockQueue \<Rightarrow> FreeLockQueue cxx" where
  "en_queue_step t p s =
     (case p of
        E_loop n \<Rightarrow> Inr (flq_goto t (E_cas n (flq_tail s)) s)
      | E_cas n c \<Rightarrow> bind_cxx (get_node s c) (\<lambda>nd.
          if next_node nd = 0 then Inr (flq_goto t (E_swing n c) (s\<lparr>nodes := (nodes s)(c \<mapsto> nd\<lparr>next_node := n\<rparr>)\<rparr>))
          else Inr (flq_goto t (E_help n c) s))
      | E_help n c \<Rightarrow> bind_cxx (get_node s c) (\<lambda>nd. Inr (flq_goto t (E_help_cas n c (next_node nd)) s))
      | E_help_cas n c x \<Rightarrow> Inr (flq_goto t (E_loop n) (if flq_tail s = c then s\<lparr>flq_tail := x\<rparr> else s))
      | E_swing n c \<Rightarrow> Inr (flq_goto t Flq_idle (if flq_tail s = c then s\<lparr>flq_tail := n\<rparr> else s))
      | _ \<Rightarrow> Inr s)"

definition de_queue :: "nat \<Rightarrow> FreeLockQueue \<Rightarrow> FreeLockQueue" where
  "de_queue t s = flq_goto t D_loop s"

definition de_queue_step :: "nat \<Rightarrow> flq_pc \<Rightarrow> FreeLockQueue \<Rightarrow> FreeLockQueue cxx" where
  "de_queue_step t p s =
     (case p of
        D_loop \<Rightarrow> Inr (flq_goto t (D_check (flq_head s)) s)
      | D_check c \<Rightarrow> bind_cxx (get_node s c) (\<lambda>nd.
          if next_node nd = 0 then Inr (flq_goto t Flq_idle (s\<lparr>flq_returned := flq_returned s @ [(t, - 1)]\<rparr>))
          else Inr (flq_goto t (D_arg c) s))
      | D_arg c \<Rightarrow> bind_cxx (get_node s c) (\<lambda>nd. Inr (flq_goto t (D_cas c (next_node nd)) s))
      | D_cas c x \<Rightarrow> Inr (flq_goto t (D_val c) (if flq_head s = c then s\<lparr>flq_head := x\<rparr> else s))
      | D_val c \<Rightarrow> bind_cxx (get_node s c) (\<lambda>nd. Inr (flq_goto t (D_read c (next_node nd)) s))
      | D_read c x \<Rightarrow> bind_cxx (get_node s x) (\<lambda>nx. Inr (flq_goto t (D_del c (val nx)) s))
      | D_del c v \<Rightarrow> bind_cxx (get_node s c) (\<lambda>nd.
          Inr (flq_goto t Flq_idle (s\<lparr>nodes := (nodes s)(c := None), flq_returned := flq_returned s @ [(t, v)]\<rparr>)))
      | _ \<Rightarrow> Inr s)"

definition de_queueing :: "flq_pc \<Rightarrow> bool" where
  "de_queueing p = (case p of D_loop \<Rightarrow> True | D_check c \<Rightarrow> True | D_arg c \<Rightarrow> True | D_cas c x \<Rightarrow> True | D_val c \<Rightarrow> True
     | D_read c x \<Rightarrow> True      | D_del c v \<Rightarrow> True | _ \<Rightarrow> False)"

definition flq_step :: "nat \<Rightarrow> FreeLockQueue \<Rightarrow> FreeLockQueue cxx" where
  "flq_step t s = (if de_queueing (flq_pcs s t) then de_queue_step t (flq_pcs s t) s else en_queue_step t (flq_pcs s t) s)"

text \<open>A schedule says which thread makes the next step.\<close>

fun flq_run :: "nat list \<Rightarrow> FreeLockQueue \<Rightarrow> FreeLockQueue cxx" where
  "flq_run [] s = Inr s"
| "flq_run (t # ts) s = bind_cxx (flq_step t s) (flq_run ts)"

lemma flq_run_append: "flq_run (ts @ us) s = bind_cxx (flq_run ts s) (flq_run us)"
  by (induction ts arbitrary: s) (simp_all add: bind_cxx_def split: sum.splits)

lemmas flq_defs = flq_step_def de_queueing_def de_queue_step_def en_queue_step_def flq_goto_def get_node_def

text \<open>So the first call on a queue as the program makes it goes through a pointer to no node, unless \<open>tail\<close> happens to
  hold the address of the node that the call makes.\<close>

lemma first_call_fails:
  "isl (flq_run [t, t] (de_queue t (FreeLockQueue_new hp tp)))"
  "tp \<noteq> 1 \<Longrightarrow> isl (flq_run [t, t] (en_queue garbage t x (FreeLockQueue_new hp tp)))"
  by (simp_all add: flq_defs de_queue_def en_queue_def FreeLockQueue_new_def)

lemma race_state:
  assumes "t \<noteq> u" "flq_pcs s t = D_loop" "flq_pcs s u = D_loop"
    and "flq_head s = a" "a \<noteq> 0" "nodes s a = Some na" "next_node na = b" "b \<noteq> 0" "nodes s b = Some nb"
  shows "flq_run [t, u, t, u, t, u, t, u, t, u, t, u] s =
    Inr (s\<lparr>flq_pcs := (flq_pcs s)(t := D_del a (val nb), u := D_del a (val nb)), flq_head := b\<rparr>)"
  using assms by (cases "b = a") (auto simp: flq_defs fun_upd_twist)

text \<open>
  C30: two calls of \<open>de_queue\<close> that run at the same time take the same value: both read the same
  head, the failure of the second compare-and-swap goes unnoticed, and both end up about to
  return the value and free the same node, so that the second of them frees it again.
\<close>

theorem dequeue_race:
  assumes "t \<noteq> u" "flq_pcs s t = D_loop" "flq_pcs s u = D_loop"
    and "flq_head s = a" "a \<noteq> 0" "nodes s a = Some na" "next_node na = b" "b \<noteq> 0" "nodes s b = Some nb"
  shows "(\<exists>s'. flq_run [t, u, t, u, t, u, t, u, t, u, t, u] s = Inr s' \<and>
      flq_pcs s' t = D_del a (val nb) \<and> flq_pcs s' u = D_del a (val nb)) \<and>
    flq_run ([t, u, t, u, t, u, t, u, t, u, t, u] @ [t, u]) s = Inl Invalid_access"
proof -
  have "flq_run [t, u] (s\<lparr>flq_pcs := (flq_pcs s)(t := D_del a (val nb), u := D_del a (val nb)), flq_head := b\<rparr>) =
      Inl Invalid_access"
    using assms by (simp add: flq_defs)
  then show ?thesis using race_state [OF assms] assms(1)
    by (simp add: flq_run_append del: flq_run.simps append.simps)
qed

definition two_values :: FreeLockQueue where
  "two_values = \<lparr>nodes = [1 \<mapsto> \<lparr>val = 0, next_node = 2\<rparr>, 2 \<mapsto> \<lparr>val = 10, next_node = 3\<rparr>, 3 \<mapsto> \<lparr>val = 20, next_node = 0\<rparr>],
     flq_fresh = 4, flq_head = 1, flq_tail = 3, flq_pcs = (\<lambda>_. D_loop), flq_returned = []\<rparr>"

theorem dequeue_race_witness:
  "flq_run ([0, 1, 0, 1, 0, 1, 0, 1, 0, 1, 0, 1] @ [0, 1]) two_values = Inl Invalid_access"
  using dequeue_race [of 0 1 two_values 1 "\<lparr>val = 0, next_node = 2\<rparr>" 2 "\<lparr>val = 10, next_node = 3\<rparr>"]
  by (simp add: two_values_def del: flq_run.simps append.simps)

end
