(* ===== verification/Queue_Interface.thy ===== *)
theory Queue_Interface
  imports Queue_Theorems Free_Lock_Queue
begin

text \<open>
  The FIFO queue as an interface, and the two lock-free queues as its providers when one thread at a time uses them:
  each call runs to its end before the next one starts. (What interleaved calls do is shown in \<open>Queue_Theorems\<close> and
  \<open>Free_Lock_Queue\<close>.)
\<close>

subsection \<open>The interface\<close>

datatype 'a queue_op = Put 'a | Get

fun queue_calls ::
  "('a \<Rightarrow> 's \<Rightarrow> 's cxx) \<Rightarrow> ('s \<Rightarrow> ('a \<times> 's) cxx) \<Rightarrow> 'a queue_op list \<Rightarrow> 's \<Rightarrow> ('a list \<times> 's) cxx" where
  "queue_calls enq deq [] s = Inr ([], s)"
| "queue_calls enq deq (Put x # ops) s = bind_cxx (enq x s) (queue_calls enq deq ops)"
| "queue_calls enq deq (Get # ops) s =
     bind_cxx (deq s) (\<lambda>(x, s1). bind_cxx (queue_calls enq deq ops s1) (\<lambda>(xs, s2). Inr (x # xs, s2)))"

text \<open>The results a FIFO queue gives; \<open>none\<close> answers a call on the empty queue.\<close>

fun fifo_calls :: "'a \<Rightarrow> 'a queue_op list \<Rightarrow> 'a list \<Rightarrow> 'a list" where
  "fifo_calls none [] q = []"
| "fifo_calls none (Put x # ops) q = fifo_calls none ops (q @ [x])"
| "fifo_calls none (Get # ops) [] = none # fifo_calls none ops []"
| "fifo_calls none (Get # ops) (x # q) = x # fifo_calls none ops q"

locale fifo_queue =
  fixes rep :: "'s \<Rightarrow> 'a list \<Rightarrow> bool" and enq :: "'a \<Rightarrow> 's \<Rightarrow> 's cxx" and deq :: "'s \<Rightarrow> ('a \<times> 's) cxx" and none :: 'a
  assumes enq_last: "rep s q \<Longrightarrow> \<exists>s'. enq x s = Inr s' \<and> rep s' (q @ [x])"
    and deq_first: "rep s (x # q) \<Longrightarrow> \<exists>s'. deq s = Inr (x, s') \<and> rep s' q"
    and deq_none: "rep s [] \<Longrightarrow> \<exists>s'. deq s = Inr (none, s') \<and> rep s' []"
begin

lemma calls_fifo: "rep s q \<Longrightarrow> \<exists>s'. queue_calls enq deq ops s = Inr (fifo_calls none ops q, s')"
proof (induction ops arbitrary: s q)
  case (Cons opn ops)
  show ?case
  proof (cases opn)
    case (Put x)
    obtain s1 where "enq x s = Inr s1" "rep s1 (q @ [x])" using enq_last [OF Cons.prems] by blast
    then show ?thesis using Cons.IH [of s1 "q @ [x]"] by (simp add: Put)
  next
    case Get
    obtain x s1 q1 where "deq s = Inr (x, s1)" "rep s1 q1" "fifo_calls none (Get # ops) q = x # fifo_calls none ops q1"
      using Cons.prems deq_none deq_first by (cases q) fastforce+
    then show ?thesis using Cons.IH [of s1 q1] by (auto simp: Get)
  qed
qed simp

end

subsection \<open>FreeLockQueue, one call at a time\<close>

fun flq_alone :: "nat \<Rightarrow> nat \<Rightarrow> FreeLockQueue \<Rightarrow> FreeLockQueue cxx" where
  "flq_alone t k s =
     (if flq_pcs s t = Flq_idle then Inr s
      else case k of 0 \<Rightarrow> Inl Diverges | Suc k' \<Rightarrow> bind_cxx (flq_step t s) (flq_alone t k'))"

lemma flq_alone_steps:
  "flq_pcs s t = Flq_idle \<Longrightarrow> flq_alone t k s = Inr s"
  "flq_pcs s t \<noteq> Flq_idle \<Longrightarrow> flq_alone t (Suc k) s = bind_cxx (flq_step t s) (flq_alone t k)"
  by simp_all

declare flq_alone.simps [simp del]

definition flq_enq :: "nat \<Rightarrow> nat \<Rightarrow> 32 word \<Rightarrow> FreeLockQueue \<Rightarrow> FreeLockQueue cxx" where
  "flq_enq garbage t x s = flq_alone t 6 (en_queue garbage t x s)"

definition flq_deq :: "nat \<Rightarrow> FreeLockQueue \<Rightarrow> (32 word \<times> FreeLockQueue) cxx" where
  "flq_deq t s = bind_cxx (flq_alone t 7 (de_queue t s)) (\<lambda>s'. Inr (snd (last (flq_returned s')), s'))"

text \<open>The nodes from head to tail: a sentinel, then one node per value.\<close>

fun flq_chain :: "(nat \<Rightarrow> ListNode option) \<Rightarrow> nat list \<Rightarrow> 32 word list \<Rightarrow> bool" where
  "flq_chain ns [a] [] = (\<exists>v. ns a = Some \<lparr>val = v, next_node = 0\<rparr>)"
| "flq_chain ns (a # b # bs) (x # xs) =
     ((\<exists>v. ns a = Some \<lparr>val = v, next_node = b\<rparr>) \<and> (\<exists>n. ns b = Some \<lparr>val = x, next_node = n\<rparr>) \<and> flq_chain ns (b # bs) xs)"
| "flq_chain ns _ _ = False"

definition flq_rep :: "nat \<Rightarrow> FreeLockQueue \<Rightarrow> 32 word list \<Rightarrow> bool" where
  "flq_rep t s q \<longleftrightarrow> (\<exists>ch. flq_chain (nodes s) ch q \<and> distinct ch \<and> list_all (\<lambda>a. 0 < a \<and> a < flq_fresh s) ch \<and>
     flq_head s = hd ch \<and> flq_tail s = last ch \<and> flq_pcs s t = Flq_idle)"

lemma flq_chain_cong: "flq_chain ns ch q \<Longrightarrow> (\<And>a. a \<in> set ch \<Longrightarrow> ns' a = ns a) \<Longrightarrow> flq_chain ns' ch q"
  by (induction ns ch q rule: flq_chain.induct) auto

lemma flq_chain_last: "flq_chain ns ch q \<Longrightarrow> ch \<noteq> [] \<and> (\<exists>v. ns (last ch) = Some \<lparr>val = v, next_node = 0\<rparr>)"
  by (induction ns ch q rule: flq_chain.induct) auto

lemma flq_chain_snoc:
  "flq_chain ns ch q \<Longrightarrow> distinct ch \<Longrightarrow> n \<notin> set ch \<Longrightarrow> ns (last ch) = Some \<lparr>val = v, next_node = 0\<rparr> \<Longrightarrow>
   flq_chain (ns(n \<mapsto> \<lparr>val = x, next_node = 0\<rparr>, last ch \<mapsto> \<lparr>val = v, next_node = n\<rparr>)) (ch @ [n]) (q @ [x])"
proof (induction ns ch q rule: flq_chain.induct)
  case (2 ns a b bs y ys)
  have "last (b # bs) \<in> set (b # bs)" by (rule last_in_set) simp
  then have "a \<noteq> last (b # bs)" using 2(3) by auto
  then show ?case using 2 by auto
qed auto

lemma flq_enq_rep:
  assumes "flq_rep t s q"
  shows "\<exists>s'. flq_enq 0 t x s = Inr s' \<and> flq_rep t s' (q @ [x])"
proof -
  obtain ch where ch: "flq_chain (nodes s) ch q" "distinct ch" "list_all (\<lambda>a. 0 < a \<and> a < flq_fresh s) ch"
    "flq_head s = hd ch" "flq_tail s = last ch" "flq_pcs s t = Flq_idle"
    using assms by (auto simp: flq_rep_def)
  let ?n = "flq_fresh s" and ?l = "last ch"
  obtain v where ne: "ch \<noteq> []" and v: "nodes s ?l = Some \<lparr>val = v, next_node = 0\<rparr>" using flq_chain_last [OF ch(1)] by blast
  have all: "0 < a \<and> a < ?n" if "a \<in> set ch" for a using ch(3) that by (simp add: list_all_iff)
  have "?l \<in> set ch" using ne by simp
  with all [of ?l] have "0 < ?l" "?l < ?n" by simp_all
  moreover have "?n \<notin> set ch" using all [of ?n] by auto
  ultimately have l: "?l \<noteq> 0" "?l \<noteq> ?n" "?n \<notin> set ch" "0 < ?n" by simp_all
  let ?ns = "(nodes s)(?n \<mapsto> \<lparr>val = x, next_node = 0\<rparr>, ?l \<mapsto> \<lparr>val = v, next_node = ?n\<rparr>)"
  define s' where "s' = s\<lparr>nodes := ?ns, flq_fresh := Suc ?n, flq_tail := ?n, flq_pcs := (flq_pcs s)(t := Flq_idle)\<rparr>"
  have "flq_enq 0 t x s = Inr s'"
    using l v ch(5) by (simp add: flq_enq_def en_queue_def flq_alone_steps flq_defs numeral_eq_Suc s'_def)
  moreover have "flq_chain ?ns (ch @ [?n]) (q @ [x])" by (rule flq_chain_snoc [OF ch(1,2) l(3) v])
  then have "flq_rep t s' (q @ [x])" unfolding flq_rep_def
    using ch ne l by (intro exI [of _ "ch @ [?n]"]) (auto simp: s'_def list_all_iff)
  ultimately show ?thesis by blast
qed

lemma flq_deq_empty:
  assumes "flq_rep t s []"
  shows "\<exists>s'. flq_deq t s = Inr (- 1, s') \<and> flq_rep t s' []"
proof -
  obtain a v where a: "nodes s a = Some \<lparr>val = v, next_node = 0\<rparr>" "0 < a" "a < flq_fresh s"
    "flq_head s = a" "flq_tail s = a" "flq_pcs s t = Flq_idle"
    using assms by (auto simp: flq_rep_def elim: flq_chain.elims)
  define s' where "s' = s\<lparr>flq_pcs := (flq_pcs s)(t := Flq_idle), flq_returned := flq_returned s @ [(t, - 1)]\<rparr>"
  have "flq_deq t s = Inr (- 1, s')"
    using a by (simp add: flq_deq_def de_queue_def flq_alone_steps flq_defs numeral_eq_Suc s'_def)
  moreover have "flq_rep t s' []" unfolding flq_rep_def using a by (intro exI [of _ "[a]"]) (simp add: s'_def)
  ultimately show ?thesis by blast
qed

lemma flq_deq_first:
  assumes "flq_rep t s (x # q)"
  shows "\<exists>s'. flq_deq t s = Inr (x, s') \<and> flq_rep t s' q"
proof -
  obtain ch where ch: "flq_chain (nodes s) ch (x # q)" "distinct ch" "list_all (\<lambda>a. 0 < a \<and> a < flq_fresh s) ch"
    "flq_head s = hd ch" "flq_tail s = last ch" "flq_pcs s t = Flq_idle"
    using assms by (auto simp: flq_rep_def)
  obtain a b bs where "ch = a # b # bs" using ch(1) by (cases "(nodes s, ch, x # q)" rule: flq_chain.cases) auto
  with ch obtain v n where c: "nodes s a = Some \<lparr>val = v, next_node = b\<rparr>" "nodes s b = Some \<lparr>val = x, next_node = n\<rparr>"
    "flq_chain (nodes s) (b # bs) q" "distinct (a # b # bs)" "list_all (\<lambda>a. 0 < a \<and> a < flq_fresh s) (a # b # bs)"
    "flq_head s = a" "flq_tail s = last (b # bs)" "flq_pcs s t = Flq_idle"
    by auto
  define s' where "s' = s\<lparr>nodes := (nodes s)(a := None), flq_head := b, flq_pcs := (flq_pcs s)(t := Flq_idle),
     flq_returned := flq_returned s @ [(t, x)]\<rparr>"
  have "flq_deq t s = Inr (x, s')"
    using c by (simp add: flq_deq_def de_queue_def flq_alone_steps flq_defs numeral_eq_Suc s'_def)
  moreover have "flq_chain (nodes s') (b # bs) q" using c(4) by (intro flq_chain_cong [OF c(3)]) (auto simp: s'_def)
  then have "flq_rep t s' q" unfolding flq_rep_def using c by (intro exI [of _ "b # bs"]) (simp add: s'_def)
  ultimately show ?thesis by blast
qed

interpretation flq: fifo_queue "flq_rep t" "flq_enq 0 t" "flq_deq t" "- 1"
  by unfold_locales (fact flq_enq_rep flq_deq_first flq_deq_empty)+

text \<open>It takes a sentinel whose \<open>next\<close> is null and nodes that come out of \<open>new\<close> with a null \<open>next\<close>. The constructor of
  \<open>ListNode\<close> does not set it: with any other value the second insertion goes astray.\<close>

lemma garbage_goes_astray:
  assumes "flq_rep t s []" and "garbage \<noteq> 0" and "nodes s garbage = None" and "garbage \<noteq> flq_fresh s" and "garbage \<noteq> Suc (flq_fresh s)"
  shows "bind_cxx (flq_enq garbage t x s) (flq_enq garbage t y) = Inl Invalid_access"
proof -
  obtain a v where a: "nodes s a = Some \<lparr>val = v, next_node = 0\<rparr>" "0 < a" "a < flq_fresh s"
    "flq_head s = a" "flq_tail s = a" "flq_pcs s t = Flq_idle"
    using assms by (auto simp: flq_rep_def elim: flq_chain.elims)
  let ?n = "flq_fresh s"
  define s1 where "s1 = s\<lparr>nodes := (nodes s)(?n \<mapsto> \<lparr>val = x, next_node = garbage\<rparr>, a \<mapsto> \<lparr>val = v, next_node = ?n\<rparr>),
     flq_fresh := Suc ?n, flq_tail := ?n, flq_pcs := (flq_pcs s)(t := Flq_idle)\<rparr>"
  have g: "garbage \<noteq> a" using a(1) assms(3) by auto
  have "flq_enq garbage t x s = Inr s1"
    using a assms by (simp add: flq_enq_def en_queue_def flq_alone_steps flq_defs numeral_eq_Suc s1_def)
  moreover have "flq_enq garbage t y s1 = Inl Invalid_access"
    using a assms g by (simp add: flq_enq_def en_queue_def flq_alone_steps flq_defs numeral_eq_Suc s1_def)
  ultimately show ?thesis by simp
qed

subsection \<open>LockFreeQueue, one call at a time\<close>

text \<open>The thread runs alone until it returns; the last event says what it returns.\<close>

fun lfq_alone :: "nat \<Rightarrow> nat \<Rightarrow> event \<Rightarrow> LockFreeQueue \<Rightarrow> (event \<times> LockFreeQueue) cxx" where
  "lfq_alone t k e s =
     (if pcs s t = Idle then Inr (e, s)
      else case k of 0 \<Rightarrow> Inl Diverges | Suc k' \<Rightarrow> (case thread_step t s of (e', s') \<Rightarrow> lfq_alone t k' e' s'))"

lemma lfq_alone_steps:
  "pcs s t = Idle \<Longrightarrow> lfq_alone t k e s = Inr (e, s)"
  "pcs s t \<noteq> Idle \<Longrightarrow> lfq_alone t (Suc k) e s = (case thread_step t s of (e', s') \<Rightarrow> lfq_alone t k e' s')"
  by (subst lfq_alone.simps, simp)+

declare lfq_alone.simps [simp del]

definition lfq_enq :: "nat \<Rightarrow> string \<Rightarrow> LockFreeQueue \<Rightarrow> LockFreeQueue cxx" where
  "lfq_enq t x s = bind_cxx (lfq_alone t 4 Tau (input t x s)) (\<lambda>(e, s'). Inr s')"

definition lfq_deq :: "nat \<Rightarrow> LockFreeQueue \<Rightarrow> (string \<times> LockFreeQueue) cxx" where
  "lfq_deq t s = bind_cxx (lfq_alone t 4 Tau (output_call t s)) (\<lambda>(e, s'). Inr (case e of Ret_out u x \<Rightarrow> x | _ \<Rightarrow> [], s'))"

definition lfq_rep :: "nat \<Rightarrow> LockFreeQueue \<Rightarrow> string list \<Rightarrow> bool" where
  "lfq_rep t s q \<longleftrightarrow> (\<exists>ch. lfq_inv ch s \<and> contents ch s = q \<and> pcs s t = Idle \<and> nexts s (tail s) = 0)"

lemma lfq_inv_step:
  assumes "lfq_inv ch s" "pcs s t \<noteq> Idle" "thread_step t s = (e, s')" "fifo e (contents ch s) = Some q"
  shows "\<exists>ch'. lfq_inv ch' s' \<and> contents ch' s' = q"
  using thread_step_simulates [OF assms(1-3)] assms(4) by (auto simp: simulates_def)

lemmas lfq_defs = thread_step_def in_output_def input_step_def output_step_def input_def output_call_def

lemma lfq_enq_rep:
  assumes "lfq_rep t s q"
  shows "\<exists>s'. lfq_enq t x s = Inr s' \<and> lfq_rep t s' (q @ [x])"
proof -
  obtain ch where i: "lfq_inv ch s" and q: "contents ch s = q" and p: "pcs s t = Idle" and last: "nexts s (tail s) = 0"
    using assms by (auto simp: lfq_rep_def)
  let ?n = "fresh s" and ?c = "tail s"
  have c: "?c < ?n" using i by (auto simp: lfq_inv_def chain_ok_def)
  define s0 where "s0 = input t x s"
  define s1 where "s1 = goto t (In_check ?n ?c) s0"
  define s2 where "s2 = goto t (In_cas ?n ?c) s1"
  define s3 where "s3 = goto t (In_swing ?n ?c) (s2\<lparr>nexts := (nexts s2)(?c := ?n)\<rparr>)"
  define s4 where "s4 = goto t Idle (s3\<lparr>tail := ?n\<rparr>)"
  note ss = s4_def s3_def s2_def s1_def s0_def
  have st: "thread_step t s0 = (Tau, s1)" "thread_step t s1 = (Tau, s2)" "thread_step t s2 = (Enq t x, s3)"
    "thread_step t s3 = (Ret_in t True, s4)" "pcs s0 t \<noteq> Idle" "pcs s1 t \<noteq> Idle" "pcs s2 t \<noteq> Idle" "pcs s3 t \<noteq> Idle" "pcs s4 t = Idle"
    using last c by (simp_all add: ss lfq_defs)
  have "lfq_enq t x s = Inr s4"
    unfolding lfq_enq_def s0_def [symmetric] by (simp add: numeral_eq_Suc lfq_alone_steps st)
  moreover obtain ch1 where "lfq_inv ch1 s1" "contents ch1 s1 = q"
    using lfq_inv_step [OF lfq_inv_input(1) [OF i p] st(5) [unfolded s0_def] st(1) [unfolded s0_def]] lfq_inv_input(2) [OF i p] q by auto
  with lfq_inv_step [OF _ st(6,2)] obtain ch2 where "lfq_inv ch2 s2" "contents ch2 s2 = q" by auto
  with lfq_inv_step [OF _ st(7,3)] obtain ch3 where "lfq_inv ch3 s3" "contents ch3 s3 = q @ [x]" by auto
  with lfq_inv_step [OF _ st(8,4)] obtain ch4 where "lfq_inv ch4 s4" "contents ch4 s4 = q @ [x]" by auto
  moreover have "nexts s4 (tail s4) = 0" using c by (simp add: ss input_def)
  ultimately show ?thesis using st(9) by (auto simp: lfq_rep_def)
qed

lemma lfq_output_call: "lfq_inv ch s \<Longrightarrow> lfq_inv ch (output_call t s) \<and> contents ch (output_call t s) = contents ch s"
  unfolding output_call_def by (auto intro!: lfq_inv_local simp: pc_ok_def pending_def)

lemma contents_head:
  assumes "lfq_inv ch s"
  shows "contents ch s = [] \<longleftrightarrow> nexts s (head s) = 0" and "contents ch s = x # q \<Longrightarrow> log_info s (nexts s (head s)) = x"
proof -
  have ch: "linked (nexts s) ch" "distinct ch" "0 \<notin> set ch" "head s \<in> set ch" using assms by (auto simp: lfq_inv_def chain_ok_def)
  note l = linked_null [OF ch(1,3,2,4)] after_last [OF ch(2,4)] linked_after [OF ch(1,2,4)]
  show "contents ch s = [] \<longleftrightarrow> nexts s (head s) = 0" using l by (simp add: contents_def)
  show "contents ch s = x # q \<Longrightarrow> log_info s (nexts s (head s)) = x" using l by (auto simp: contents_def)
qed

lemma lfq_deq_empty:
  assumes "lfq_rep t s []"
  shows "\<exists>s'. lfq_deq t s = Inr ([], s') \<and> lfq_rep t s' []"
proof -
  obtain ch where i: "lfq_inv ch s" and q: "contents ch s = []" and p: "pcs s t = Idle" and last: "nexts s (tail s) = 0"
    using assms by (auto simp: lfq_rep_def)
  have h: "nexts s (head s) = 0" using contents_head(1) [OF i] q by simp
  define s0 where "s0 = output_call t s"
  define s1 where "s1 = goto t (Out_next (head s)) s0"
  define s2 where "s2 = goto t Out_empty s1"
  define s3 where "s3 = goto t Idle s2"
  note ss = s3_def s2_def s1_def s0_def
  have st: "thread_step t s0 = (Tau, s1)" "thread_step t s1 = (Deq_empty t, s2)" "thread_step t s2 = (Ret_out t [], s3)"
    "pcs s0 t \<noteq> Idle" "pcs s1 t \<noteq> Idle" "pcs s2 t \<noteq> Idle" "pcs s3 t = Idle"
    using h by (simp_all add: ss lfq_defs)
  have "lfq_deq t s = Inr ([], s3)"
    unfolding lfq_deq_def s0_def [symmetric] by (simp add: numeral_eq_Suc lfq_alone_steps st)
  moreover have "lfq_inv ch s0" "contents ch s0 = []" using lfq_output_call [OF i] q by (simp_all add: s0_def)
  with lfq_inv_step [OF _ st(4,1)] obtain ch1 where "lfq_inv ch1 s1" "contents ch1 s1 = []" by auto
  with lfq_inv_step [OF _ st(5,2), where ch = ch1 and q = "[]"] obtain ch2 where "lfq_inv ch2 s2" "contents ch2 s2 = []" by auto
  with lfq_inv_step [OF _ st(6,3), where ch = ch2 and q = "[]"] obtain ch3 where "lfq_inv ch3 s3" "contents ch3 s3 = []" by auto
  moreover have "nexts s3 (tail s3) = 0" using last by (simp add: ss output_call_def)
  ultimately show ?thesis using st(7) by (auto simp: lfq_rep_def)
qed

lemma lfq_deq_first:
  assumes "lfq_rep t s (x # q)"
  shows "\<exists>s'. lfq_deq t s = Inr (x, s') \<and> lfq_rep t s' q"
proof -
  obtain ch where i: "lfq_inv ch s" and q: "contents ch s = x # q" and p: "pcs s t = Idle" and last: "nexts s (tail s) = 0"
    using assms by (auto simp: lfq_rep_def)
  let ?f = "head s" and ?x = "nexts s (head s)"
  have h: "?x \<noteq> 0" "log_info s ?x = x" using contents_head [OF i] q by auto
  define s0 where "s0 = output_call t s"
  define s1 where "s1 = goto t (Out_next ?f) s0"
  define s2 where "s2 = goto t (Out_cas ?f ?x) s1"
  define s3 where "s3 = goto t (Out_read ?x) (s2\<lparr>head := ?x\<rparr>)"
  define s4 where "s4 = goto t Idle s3"
  note ss = s4_def s3_def s2_def s1_def s0_def
  have st: "thread_step t s0 = (Tau, s1)" "thread_step t s1 = (Tau, s2)" "thread_step t s2 = (Deq t x, s3)"
    "thread_step t s3 = (Ret_out t x, s4)" "pcs s0 t \<noteq> Idle" "pcs s1 t \<noteq> Idle" "pcs s2 t \<noteq> Idle" "pcs s3 t \<noteq> Idle" "pcs s4 t = Idle"
    using h by (simp_all add: ss lfq_defs)
  have "lfq_deq t s = Inr (x, s4)"
    unfolding lfq_deq_def s0_def [symmetric] by (simp add: numeral_eq_Suc lfq_alone_steps st)
  moreover have "lfq_inv ch s0" "contents ch s0 = x # q" using lfq_output_call [OF i] q by (simp_all add: s0_def)
  with lfq_inv_step [OF _ st(5,1)] obtain ch1 where "lfq_inv ch1 s1" "contents ch1 s1 = x # q" by auto
  with lfq_inv_step [OF _ st(6,2)] obtain ch2 where "lfq_inv ch2 s2" "contents ch2 s2 = x # q" by auto
  with lfq_inv_step [OF _ st(7,3), where ch = ch2 and q = q] obtain ch3 where "lfq_inv ch3 s3" "contents ch3 s3 = q" by auto
  with lfq_inv_step [OF _ st(8,4)] obtain ch4 where "lfq_inv ch4 s4" "contents ch4 s4 = q" by auto
  moreover have "nexts s4 (tail s4) = 0" using last by (simp add: ss output_call_def)
  ultimately show ?thesis using st(9) by (auto simp: lfq_rep_def)
qed

interpretation lfq: fifo_queue "lfq_rep t" "lfq_enq t" "lfq_deq t" "[]"
  by unfold_locales (fact lfq_enq_rep lfq_deq_first lfq_deq_empty)+

lemma lfq_rep_new: "lfq_rep t LockFreeQueue_new []"
  unfolding lfq_rep_def using lfq_inv_new by (intro exI [of _ "[1]"]) (simp add: LockFreeQueue_new_def)

subsection \<open>Property\<close>

text \<open>A queue that somebody has given a sentinel, as no member function of \<open>FreeLockQueue\<close> does.\<close>

definition sentinel_queue :: FreeLockQueue where
  "sentinel_queue = \<lparr>nodes = [1 \<mapsto> \<lparr>val = 0, next_node = 0\<rparr>], flq_fresh = 2, flq_head = 1, flq_tail = 1,
     flq_pcs = (\<lambda>_. Flq_idle), flq_returned = []\<rparr>"

lemma sentinel_queue_rep: "flq_rep t sentinel_queue []"
  unfolding flq_rep_def by (intro exI [of _ "[1]"]) (simp add: sentinel_queue_def)

lemma free_lock_queue_sequential:
  "flq_rep t s [] \<Longrightarrow> \<exists>s'. queue_calls (flq_enq 0 t) (flq_deq t) ops s = Inr (fifo_calls (- 1) ops [], s')"
  by (rule flq.calls_fifo)

text \<open>C31. A new \<open>LockFreeQueue\<close> used by one thread answers any sequence of calls as the abstract FIFO
  queue does, with the empty string when it is empty, and every call ends within four steps.\<close>

theorem lock_free_queue_sequential:
  "\<exists>s'. queue_calls (lfq_enq t) (lfq_deq t) ops LockFreeQueue_new = Inr (fifo_calls [] ops [], s')"
  by (rule lfq.calls_fifo [OF lfq_rep_new])

lemma lock_free_queue_example:
  "\<exists>s'. queue_calls (lfq_enq 3) (lfq_deq 3) [Put ''a'', Put ''b'', Get, Get, Get] LockFreeQueue_new = Inr ([''a'', ''b'', []], s')"
  using lfq.calls_fifo [OF lfq_rep_new, of 3 "[Put ''a'', Put ''b'', Get, Get, Get]"] by simp

end
