(* ===== verification/Single_Consumer.thy ===== *)
theory Single_Consumer
  imports Queue_Interface
begin

text \<open>
  \<open>FreeLockQueue\<close> under concurrency (\<open>example/protobuf/free_lock_queue.h\<close>): with one producer and one consumer every
  interleaving of their steps is a run of a FIFO queue; a second producer is enough to access a freed node.
\<close>

subsection \<open>Runs of one producer and one consumer\<close>

text \<open>The operation that takes effect with thread \<open>t\<close>'s next step: linking the new node, moving \<open>head\<close>, or seeing that the
  sentinel has no successor.\<close>

definition next_of :: "FreeLockQueue \<Rightarrow> nat \<Rightarrow> nat" where
  "next_of s a = (case nodes s a of None \<Rightarrow> 0 | Some nd \<Rightarrow> next_node nd)"

definition val_of :: "FreeLockQueue \<Rightarrow> nat \<Rightarrow> 32 word" where
  "val_of s a = (case nodes s a of None \<Rightarrow> 0 | Some nd \<Rightarrow> val nd)"

definition takes_effect :: "nat \<Rightarrow> FreeLockQueue \<Rightarrow> 32 word queue_op list" where
  "takes_effect t s =
     (case flq_pcs s t of
        E_cas n a \<Rightarrow> if next_of s a = 0 then [Put (val_of s n)] else []
      | D_check a \<Rightarrow> if next_of s a = 0 then [Get] else []
      | D_cas a b \<Rightarrow> if flq_head s = a then [Get] else []
      | _ \<Rightarrow> [])"

text \<open>The operations in the order in which they took effect, and the values passed to \<open>en_queue\<close> so far.\<close>

inductive spsc_run :: "nat \<Rightarrow> nat \<Rightarrow> 32 word queue_op list \<Rightarrow> 32 word list \<Rightarrow> FreeLockQueue \<Rightarrow> bool" for p c where
  Spsc_start: "flq_rep p s [] \<Longrightarrow> flq_pcs s c = Flq_idle \<Longrightarrow> flq_returned s = [] \<Longrightarrow> spsc_run p c [] [] s"
| Spsc_enq: "spsc_run p c ops xs s \<Longrightarrow> flq_pcs s p = Flq_idle \<Longrightarrow> spsc_run p c ops (xs @ [x]) (en_queue 0 p x s)"
| Spsc_deq: "spsc_run p c ops xs s \<Longrightarrow> flq_pcs s c = Flq_idle \<Longrightarrow> spsc_run p c ops xs (de_queue c s)"
| Spsc_step: "spsc_run p c ops xs s \<Longrightarrow> t = p \<or> t = c \<Longrightarrow> flq_step t s = Inr s' \<Longrightarrow>
    spsc_run p c (ops @ takes_effect t s) xs s'"

fun puts :: "'a queue_op list \<Rightarrow> 'a list" where
  "puts [] = []"
| "puts (Put x # ops) = x # puts ops"
| "puts (Get # ops) = puts ops"

lemma puts_append: "puts (ops @ ops') = puts ops @ puts ops'"
  by (induction ops rule: puts.induct) simp_all

text \<open>What a FIFO queue holds after a sequence of operations.\<close>

fun fifo_rest :: "'a queue_op list \<Rightarrow> 'a list \<Rightarrow> 'a list" where
  "fifo_rest [] q = q"
| "fifo_rest (Put x # ops) q = fifo_rest ops (q @ [x])"
| "fifo_rest (Get # ops) q = fifo_rest ops (tl q)"

lemma fifo_rest_append: "fifo_rest (ops @ ops') q = fifo_rest ops' (fifo_rest ops q)"
  by (induction ops q rule: fifo_rest.induct) simp_all

lemma fifo_calls_append: "fifo_calls d (ops @ ops') q = fifo_calls d ops q @ fifo_calls d ops' (fifo_rest ops q)"
  by (induction d ops q rule: fifo_calls.induct) simp_all

lemmas fifo_snoc = fifo_rest_append fifo_calls_append puts_append

subsection \<open>The invariant\<close>

text \<open>The values of calls under way: not yet linked, or taken and not yet returned.\<close>

definition to_link :: "FreeLockQueue \<Rightarrow> nat \<Rightarrow> 32 word list" where
  "to_link s p = (case flq_pcs s p of E_loop n \<Rightarrow> [val_of s n] | E_cas n a \<Rightarrow> [val_of s n] | _ \<Rightarrow> [])"

definition to_return :: "FreeLockQueue \<Rightarrow> nat \<Rightarrow> 32 word list" where
  "to_return s c = (case flq_pcs s c of D_val a \<Rightarrow> [val_of s (next_of s a)] | D_read a b \<Rightarrow> [val_of s b] | D_del a v \<Rightarrow> [v] | _ \<Rightarrow> [])"

definition new_node :: "nat list \<Rightarrow> FreeLockQueue \<Rightarrow> nat \<Rightarrow> bool" where
  "new_node ch s n \<longleftrightarrow> 0 < n \<and> n < flq_fresh s \<and> n \<notin> set ch \<and> (\<exists>x. nodes s n = Some \<lparr>val = x, next_node = 0\<rparr>)"

definition producer_ok :: "nat list \<Rightarrow> FreeLockQueue \<Rightarrow> flq_pc \<Rightarrow> bool" where
  "producer_ok ch s pc =
     (case pc of
        Flq_idle \<Rightarrow> flq_tail s = last ch
      | E_loop n \<Rightarrow> flq_tail s = last ch \<and> new_node ch s n
      | E_cas n a \<Rightarrow> flq_tail s = last ch \<and> a = last ch \<and> new_node ch s n
      | E_swing n a \<Rightarrow> flq_tail s = a \<and> n = last ch
      | _ \<Rightarrow> False)"

definition left_behind :: "nat list \<Rightarrow> FreeLockQueue \<Rightarrow> nat \<Rightarrow> bool" where
  "left_behind ch s a \<longleftrightarrow> 0 < a \<and> a < flq_fresh s \<and> a \<notin> set ch \<and> (\<exists>x. nodes s a = Some \<lparr>val = x, next_node = hd ch\<rparr>)"

definition consumer_ok :: "nat list \<Rightarrow> FreeLockQueue \<Rightarrow> flq_pc \<Rightarrow> bool" where
  "consumer_ok ch s pc =
     (case pc of
        Flq_idle \<Rightarrow> True
      | D_loop \<Rightarrow> True
      | D_check a \<Rightarrow> a = hd ch
      | D_arg a \<Rightarrow> a = hd ch \<and> tl ch \<noteq> []
      | D_cas a b \<Rightarrow> a = hd ch \<and> tl ch \<noteq> [] \<and> b = hd (tl ch)
      | D_val a \<Rightarrow> left_behind ch s a
      | D_read a b \<Rightarrow> left_behind ch s a \<and> b = hd ch
      | D_del a v \<Rightarrow> left_behind ch s a
      | _ \<Rightarrow> False)"

definition spsc_inv :: "nat \<Rightarrow> nat \<Rightarrow> nat list \<Rightarrow> 32 word list \<Rightarrow> FreeLockQueue \<Rightarrow> bool" where
  "spsc_inv p c ch q s \<longleftrightarrow> p \<noteq> c \<and> flq_chain (nodes s) ch q \<and> distinct ch \<and> list_all (\<lambda>a. 0 < a \<and> a < flq_fresh s) ch \<and>
     flq_head s = hd ch \<and> producer_ok ch s (flq_pcs s p) \<and> consumer_ok ch s (flq_pcs s c)"

text \<open>The history: what took effect answers the calls made and explains the values returned.\<close>

definition history_ok :: "nat \<Rightarrow> nat \<Rightarrow> 32 word queue_op list \<Rightarrow> 32 word list \<Rightarrow> FreeLockQueue \<Rightarrow> bool" where
  "history_ok p c ops xs s \<longleftrightarrow> xs = puts ops @ to_link s p \<and>
     fifo_calls (- 1) ops [] = map snd (flq_returned s) @ to_return s c"

definition spsc_ok :: "nat \<Rightarrow> nat \<Rightarrow> 32 word queue_op list \<Rightarrow> 32 word list \<Rightarrow> FreeLockQueue \<Rightarrow> bool" where
  "spsc_ok p c ops xs s \<longleftrightarrow> (\<exists>ch. spsc_inv p c ch (fifo_rest ops []) s) \<and> history_ok p c ops xs s"

lemmas spsc_defs = spsc_inv_def history_ok_def producer_ok_def consumer_ok_def to_link_def to_return_def takes_effect_def
  new_node_def left_behind_def next_of_def val_of_def

text \<open>The shape of the chain at its head and at its end.\<close>

lemma flq_chain_hd:
  assumes "flq_chain ns ch q"
  obtains v where "ns (hd ch) = Some \<lparr>val = v, next_node = 0\<rparr>" "tl ch = []" "q = []"
  | v b n x where "ns (hd ch) = Some \<lparr>val = v, next_node = b\<rparr>" "tl ch \<noteq> []" "b = hd (tl ch)" "ns b = Some \<lparr>val = x, next_node = n\<rparr>"
      "q = x # tl q" "flq_chain ns (tl ch) (tl q)" "b \<in> set ch"
  using assms by (cases "(ns, ch, q)" rule: flq_chain.cases) auto

lemma spsc_ids:
  assumes "spsc_inv p c ch q s"
  shows "ch \<noteq> []" "hd ch \<in> set ch" "last ch \<in> set ch" "0 < hd ch" "0 < last ch" "p \<noteq> c"
    "\<And>a. a \<in> set ch \<Longrightarrow> 0 < a \<and> a < flq_fresh s"
proof -
  show ne: "ch \<noteq> []" using assms flq_chain_last by (auto simp: spsc_inv_def)
  then show h: "hd ch \<in> set ch" "last ch \<in> set ch" by simp_all
  show all: "\<And>a. a \<in> set ch \<Longrightarrow> 0 < a \<and> a < flq_fresh s" using assms by (auto simp: spsc_inv_def list_all_iff)
  show "0 < hd ch" "0 < last ch" using h all by blast+
  show "p \<noteq> c" using assms by (simp add: spsc_inv_def)
qed

subsection \<open>What the other thread's steps leave alone\<close>

lemma consumer_ok_frame:
  assumes "consumer_ok ch s pc" "flq_fresh s \<le> flq_fresh s'" "\<And>a. left_behind ch s a \<Longrightarrow> nodes s' a = nodes s a"
  shows "consumer_ok ch s' pc"
proof -
  have "left_behind ch s' a" if "left_behind ch s a" for a using assms(2) assms(3) [OF that] that by (auto simp: left_behind_def)
  then show ?thesis using assms(1) by (auto simp: consumer_ok_def split: flq_pc.splits)
qed

lemma producer_ok_frame:
  assumes "producer_ok ch s pc" "flq_fresh s' = flq_fresh s" "flq_tail s' = flq_tail s"
    and "last ch' = last ch" "set ch' \<subseteq> set ch" "\<And>a. new_node ch s a \<Longrightarrow> nodes s' a = nodes s a"
  shows "producer_ok ch' s' pc"
proof -
  have "new_node ch' s' a" if "new_node ch s a" for a using assms(2,5) assms(6) [OF that] that by (auto simp: new_node_def)
  then show ?thesis using assms(1,3,4) by (auto simp: producer_ok_def split: flq_pc.splits)
qed

lemma new_node_val: "new_node ch s a \<Longrightarrow> nodes s a = Some \<lparr>val = val_of s a, next_node = 0\<rparr>"
  by (auto simp: new_node_def val_of_def)

lemma to_link_frame:
  assumes "producer_ok ch s (flq_pcs s p)" "flq_pcs s' p = flq_pcs s p" "\<And>a. new_node ch s a \<Longrightarrow> nodes s' a = nodes s a"
  shows "to_link s' p = to_link s p"
  using assms by (auto simp: to_link_def producer_ok_def val_of_def split: flq_pc.splits)

lemma to_return_frame:
  assumes "consumer_ok ch s (flq_pcs s c)" "flq_pcs s' c = flq_pcs s c"
    and "\<And>a. left_behind ch s a \<Longrightarrow> nodes s' a = nodes s a" "val_of s' (hd ch) = val_of s (hd ch)"
  shows "to_return s' c = to_return s c"
proof (cases "\<exists>a. flq_pcs s c = D_val a")
  case True
  then obtain a where a: "flq_pcs s c = D_val a" by blast
  then have l: "left_behind ch s a" using assms(1) by (simp add: consumer_ok_def)
  then have "next_of s a = hd ch" "next_of s' a = hd ch" using assms(3) [OF l] by (auto simp: left_behind_def next_of_def)
  then show ?thesis using a assms(2,4) by (simp add: to_return_def)
next
  case False
  then show ?thesis using assms(1,2,4) by (auto simp: to_return_def consumer_ok_def split: flq_pc.splits)
qed

subsection \<open>The producer's steps\<close>

lemma spsc_invD:
  assumes "spsc_inv p c ch q s"
  shows "flq_chain (nodes s) ch q" "distinct ch" "list_all (\<lambda>a. 0 < a \<and> a < flq_fresh s) ch" "flq_head s = hd ch"
    "producer_ok ch s (flq_pcs s p)" "consumer_ok ch s (flq_pcs s c)"
  using assms by (simp_all add: spsc_inv_def)

lemma spsc_en_queue:
  assumes i: "spsc_inv p c ch q s" and idle: "flq_pcs s p = Flq_idle" and h: "history_ok p c ops xs s"
  shows "spsc_inv p c ch q (en_queue 0 p x s)" "history_ok p c ops (xs @ [x]) (en_queue 0 p x s)"
proof -
  let ?n = "flq_fresh s" and ?s = "en_queue 0 p x s"
  have s: "flq_pcs ?s = (flq_pcs s)(p := E_loop ?n)" "nodes ?s = (nodes s)(?n \<mapsto> \<lparr>val = x, next_node = 0\<rparr>)"
    "flq_fresh ?s = Suc ?n" "flq_head ?s = flq_head s" "flq_tail ?s = flq_tail s" "flq_returned ?s = flq_returned s"
    by (simp_all add: en_queue_def flq_goto_def)
  note f = spsc_ids [OF i] and d = spsc_invD [OF i]
  have n: "?n \<notin> set ch" "0 < ?n" using f(2,4) f(7) by fastforce+
  have frame: "nodes ?s a = nodes s a" if "left_behind ch s a" for a using that by (auto simp: s left_behind_def)
  have "flq_chain (nodes ?s) ch q" using n by (intro flq_chain_cong [OF d(1)]) (auto simp: s)
  moreover have "consumer_ok ch ?s (flq_pcs s c)" using frame by (intro consumer_ok_frame [OF d(6)]) (simp_all add: s)
  moreover have "producer_ok ch ?s (E_loop ?n)" using d(5) n idle by (simp add: producer_ok_def new_node_def s)
  ultimately show "spsc_inv p c ch q ?s" using d(2-4) f(6) by (auto simp: spsc_inv_def s list_all_iff)
  have "to_return ?s c = to_return s c" using f(2,6) n frame by (intro to_return_frame [OF d(6)]) (auto simp: s val_of_def)
  moreover have "to_link ?s p = [x]" "to_link s p = []" using idle by (simp_all add: to_link_def val_of_def s)
  ultimately show "history_ok p c ops (xs @ [x]) ?s" using h by (simp add: history_ok_def s)
qed

definition spsc_at :: "nat \<Rightarrow> nat \<Rightarrow> nat list \<Rightarrow> 32 word queue_op list \<Rightarrow> 32 word list \<Rightarrow> FreeLockQueue \<Rightarrow> bool" where
  "spsc_at p c ch ops xs s \<longleftrightarrow> spsc_inv p c ch (fifo_rest ops []) s \<and> history_ok p c ops xs s"

lemma flq_goto_simps [simp]:
  "nodes (flq_goto t pc s) = nodes s" "flq_fresh (flq_goto t pc s) = flq_fresh s" "flq_head (flq_goto t pc s) = flq_head s"
  "flq_tail (flq_goto t pc s) = flq_tail s" "flq_returned (flq_goto t pc s) = flq_returned s"
  "flq_pcs (flq_goto t pc s) = (flq_pcs s)(t := pc)"
  by (simp_all add: flq_goto_def)

lemma val_of_simps [simp]:
  "val_of (flq_goto t pc s) = val_of s" "val_of (s\<lparr>flq_tail := a\<rparr>) = val_of s" "val_of (s\<lparr>flq_head := a\<rparr>) = val_of s"
  by (simp_all add: val_of_def fun_eq_iff)

lemma producer_moves:
  assumes "spsc_at p c ch ops xs s" "producer_ok ch (s\<lparr>flq_tail := a\<rparr>) pc" "to_link (flq_goto p pc s) p = to_link s p"
  shows "spsc_at p c ch ops xs (flq_goto p pc (s\<lparr>flq_tail := a\<rparr>))"
proof -
  let ?s = "flq_goto p pc (s\<lparr>flq_tail := a\<rparr>)"
  have i: "spsc_inv p c ch (fifo_rest ops []) s" and h: "history_ok p c ops xs s" using assms(1) by (simp_all add: spsc_at_def)
  note f = spsc_ids [OF i] and d = spsc_invD [OF i]
  have "consumer_ok ch ?s (flq_pcs s c)" by (rule consumer_ok_frame [OF d(6)]) simp_all
  moreover have "producer_ok ch ?s pc" by (rule producer_ok_frame [OF assms(2)]) simp_all
  ultimately have "spsc_inv p c ch (fifo_rest ops []) ?s" using d f(6) by (simp add: spsc_inv_def)
  moreover have "to_return ?s c = to_return s c" using f(6) by (intro to_return_frame [OF d(6)]) (auto simp: val_of_def)
  moreover have "to_link ?s p = to_link s p" using assms(3) by (simp add: to_link_def cong: flq_pc.case_cong)
  ultimately show ?thesis using h by (simp add: spsc_at_def history_ok_def)
qed

lemma producer_links:
  assumes a: "spsc_at p c ch ops xs s" and pc: "flq_pcs s p = E_cas n (last ch)"
  obtains x v where "nodes s (last ch) = Some \<lparr>val = v, next_node = 0\<rparr>" "val_of s n = x" "0 < last ch"
    "spsc_at p c (ch @ [n]) (ops @ [Put x]) xs
       (flq_goto p (E_swing n (last ch)) (s\<lparr>nodes := (nodes s)(last ch \<mapsto> \<lparr>val = v, next_node = n\<rparr>)\<rparr>))"
proof -
  let ?q = "fifo_rest ops []"
  have i: "spsc_inv p c ch ?q s" and h: "history_ok p c ops xs s" using a by (simp_all add: spsc_at_def)
  note f = spsc_ids [OF i] and d = spsc_invD [OF i]
  obtain v where v: "nodes s (last ch) = Some \<lparr>val = v, next_node = 0\<rparr>" using flq_chain_last [OF d(1)] by blast
  have t: "flq_tail s = last ch" "new_node ch s n" using d(5) pc by (simp_all add: producer_ok_def)
  define x where "x = val_of s n"
  have n: "n \<notin> set ch" "n \<noteq> last ch" "0 < n" "n < flq_fresh s" "nodes s n = Some \<lparr>val = x, next_node = 0\<rparr>"
    using t(2) f(3) new_node_val [OF t(2)] by (auto simp: new_node_def x_def)
  define ns where "ns = (nodes s)(last ch \<mapsto> \<lparr>val = v, next_node = n\<rparr>)"
  define s' where "s' = flq_goto p (E_swing n (last ch)) (s\<lparr>nodes := ns\<rparr>)"
  have s: "nodes s' = ns" "flq_pcs s' = (flq_pcs s)(p := E_swing n (last ch))" "flq_fresh s' = flq_fresh s"
    "flq_head s' = flq_head s" "flq_tail s' = flq_tail s" "flq_returned s' = flq_returned s"
    by (simp_all add: s'_def)
  have frame: "ns a = nodes s a" if "left_behind ch s a" for a using that f(3) by (auto simp: ns_def left_behind_def)
  have "flq_chain ((nodes s)(n \<mapsto> \<lparr>val = x, next_node = 0\<rparr>, last ch \<mapsto> \<lparr>val = v, next_node = n\<rparr>)) (ch @ [n]) (?q @ [x])"
    by (rule flq_chain_snoc [OF d(1,2) n(1) v])
  then have c1: "flq_chain ns (ch @ [n]) (?q @ [x])" using n(5) by (simp add: ns_def fun_upd_idem)
  have lb: "left_behind (ch @ [n]) s' a" if "left_behind ch s a" for a
    using that frame [OF that] f(1) n(5) f(4) by (auto simp: left_behind_def s)
  have "consumer_ok (ch @ [n]) s' (flq_pcs s c)"
    using d(6) f(1) lb by (auto simp: consumer_ok_def split: flq_pc.splits)
  moreover have "producer_ok (ch @ [n]) s' (E_swing n (last ch))" using t(1) by (simp add: producer_ok_def s)
  ultimately have i': "spsc_inv p c (ch @ [n]) (?q @ [x]) s'"
    using c1 d(2-4) f(1,6) n by (simp add: spsc_inv_def s list_all_iff)
  have "val_of s' (hd ch) = val_of s (hd ch)" using v by (simp add: val_of_def s ns_def)
  then have "to_return s' c = to_return s c" using f(6) frame by (intro to_return_frame [OF d(6)]) (simp_all add: s)
  moreover have "to_link s' p = []" "to_link s p = [x]" using pc by (simp_all add: to_link_def s x_def)
  ultimately have "history_ok p c (ops @ [Put x]) xs s'"
    using h by (simp add: history_ok_def fifo_snoc s)
  with i' have "spsc_at p c (ch @ [n]) (ops @ [Put x]) xs s'" by (simp add: spsc_at_def fifo_snoc)
  then show ?thesis using that [OF v x_def [symmetric] f(5)] by (simp add: s'_def ns_def)
qed

lemma producer_step:
  assumes a: "spsc_at p c ch ops xs s"
  shows "\<exists>s' ch'. flq_step p s = Inr s' \<and> spsc_at p c ch' (ops @ takes_effect p s) xs s'"
proof -
  have i: "spsc_inv p c ch (fifo_rest ops []) s" using a by (simp add: spsc_at_def)
  note d = spsc_invD [OF i]
  consider "flq_pcs s p = Flq_idle" | n where "flq_pcs s p = E_loop n" "flq_tail s = last ch" "new_node ch s n"
    | n where "flq_pcs s p = E_cas n (last ch)"
    | a where "flq_pcs s p = E_swing (last ch) a" "flq_tail s = a"
    using d(5) by (auto simp: producer_ok_def split: flq_pc.splits)
  then show ?thesis
  proof cases
    case 1
    then show ?thesis using a by (auto simp: flq_step_def de_queueing_def en_queue_step_def takes_effect_def)
  next
    case (2 n)
    have "spsc_at p c ch ops xs (flq_goto p (E_cas n (last ch)) (s\<lparr>flq_tail := flq_tail s\<rparr>))"
      using 2(2,3) 2(1) by (intro producer_moves [OF a]) (auto simp: producer_ok_def new_node_def to_link_def)
    then have "spsc_at p c ch ops xs (flq_goto p (E_cas n (last ch)) s)" by simp
    then show ?thesis using 2 by (auto simp: flq_step_def de_queueing_def en_queue_step_def takes_effect_def)
  next
    case (3 n)
    show ?thesis by (rule producer_links [OF a 3])
      (use 3 in \<open>auto simp: flq_step_def de_queueing_def en_queue_step_def takes_effect_def get_node_def next_of_def\<close>)
  next
    case (4 b)
    have "spsc_at p c ch ops xs (flq_goto p Flq_idle (s\<lparr>flq_tail := last ch\<rparr>))"
      using 4 by (intro producer_moves [OF a]) (auto simp: producer_ok_def to_link_def)
    then show ?thesis using 4 by (auto simp: flq_step_def de_queueing_def en_queue_step_def takes_effect_def)
  qed
qed

subsection \<open>The consumer's steps\<close>

text \<open>A step that leaves the chain: it may free a node that is not reachable any more.\<close>

lemma consumer_moves:
  assumes "spsc_at p c ch ops xs s" "consumer_ok ch s' pc"
    and "s' = flq_goto c pc (s\<lparr>nodes := ns, flq_returned := r\<rparr>)"
    and "\<And>a. a \<in> set ch \<or> new_node ch s a \<Longrightarrow> ns a = nodes s a"
    and "fifo_rest ops' [] = fifo_rest ops []" "puts ops' = puts ops" "fifo_calls (- 1) ops' [] = map snd r @ to_return s' c"
  shows "spsc_at p c ch ops' xs s'"
proof -
  have i: "spsc_inv p c ch (fifo_rest ops []) s" and h: "history_ok p c ops xs s" using assms(1) by (simp_all add: spsc_at_def)
  note f = spsc_ids [OF i] and d = spsc_invD [OF i]
  have s: "nodes s' = ns" "flq_fresh s' = flq_fresh s" "flq_head s' = flq_head s" "flq_tail s' = flq_tail s"
    "flq_returned s' = r" "flq_pcs s' = (flq_pcs s)(c := pc)" by (simp_all add: assms(3))
  have "flq_chain ns ch (fifo_rest ops [])" using assms(4) by (intro flq_chain_cong [OF d(1)]) simp
  moreover have "producer_ok ch s' (flq_pcs s p)" using assms(4) by (intro producer_ok_frame [OF d(5)]) (simp_all add: s)
  ultimately have "spsc_inv p c ch (fifo_rest ops' []) s'" using d assms(2,5) f(6) by (simp add: spsc_inv_def s)
  moreover have "to_link s' p = to_link s p" using f(6) assms(4) by (intro to_link_frame [OF d(5)]) (simp_all add: s)
  ultimately show ?thesis using h assms(6,7) by (simp add: spsc_at_def history_ok_def s)
qed

lemma consumer_unlinks:
  assumes a: "spsc_at p c ch ops xs s" and pc: "flq_pcs s c = D_cas (hd ch) (hd (tl ch))" "tl ch \<noteq> []"
  shows "spsc_at p c (tl ch) (ops @ [Get]) xs (flq_goto c (D_val (hd ch)) (s\<lparr>flq_head := hd (tl ch)\<rparr>))"
proof -
  let ?q = "fifo_rest ops []" and ?s = "flq_goto c (D_val (hd ch)) (s\<lparr>flq_head := hd (tl ch)\<rparr>)"
  have i: "spsc_inv p c ch ?q s" and h: "history_ok p c ops xs s" using a by (simp_all add: spsc_at_def)
  note f = spsc_ids [OF i] and d = spsc_invD [OF i]
  obtain v b n x where b: "nodes s (hd ch) = Some \<lparr>val = v, next_node = b\<rparr>" "b = hd (tl ch)"
    "nodes s b = Some \<lparr>val = x, next_node = n\<rparr>" "?q = x # tl ?q" "flq_chain (nodes s) (tl ch) (tl ?q)"
    using flq_chain_hd [OF d(1)] pc(2) by metis
  obtain e es where ch: "ch = e # es" "es \<noteq> []" using pc(2) by (cases ch) auto
  have "left_behind (tl ch) ?s (hd ch)" using b f(4) f(7) [OF f(2)] d(2) by (auto simp: left_behind_def ch)
  then have "consumer_ok (tl ch) ?s (D_val (hd ch))" by (simp add: consumer_ok_def)
  moreover have "producer_ok (tl ch) ?s (flq_pcs s p)" using ch by (intro producer_ok_frame [OF d(5)]) auto
  ultimately have "spsc_inv p c (tl ch) (tl ?q) ?s" using d b(5) f(6) ch by (auto simp: spsc_inv_def)
  moreover have "to_link ?s p = to_link s p" using f(6) by (intro to_link_frame [OF d(5)]) simp_all
  moreover have "to_return ?s c = [x]" "to_return s c = []" using b(1-3) pc(1) by (simp_all add: to_return_def next_of_def val_of_def)
  moreover have "fifo_calls (- 1) [Get] ?q = [x]" by (subst b(4)) simp
  ultimately show ?thesis using h by (simp add: spsc_at_def history_ok_def fifo_snoc)
qed

lemmas consumer_defs = flq_step_def de_queueing_def de_queue_step_def takes_effect_def

lemma spsc_atD:
  assumes "spsc_at p c ch ops xs s"
  shows "spsc_inv p c ch (fifo_rest ops []) s" "fifo_calls (- 1) ops [] = map snd (flq_returned s) @ to_return s c"
    "xs = puts ops @ to_link s p"
  using assms by (simp_all add: spsc_at_def history_ok_def)

definition step_ok :: "nat \<Rightarrow> nat \<Rightarrow> 32 word queue_op list \<Rightarrow> 32 word list \<Rightarrow> nat \<Rightarrow> FreeLockQueue \<Rightarrow> bool" where
  "step_ok p c ops xs t s \<longleftrightarrow> (\<exists>s' ch'. flq_step t s = Inr s' \<and> spsc_at p c ch' (ops @ takes_effect t s) xs s')"

lemma consumer_checks:
  assumes a: "spsc_at p c ch ops xs s" and pc: "flq_pcs s c = D_check (hd ch)"
  shows "step_ok p c ops xs c s"
proof -
  note f = spsc_ids [OF spsc_atD(1) [OF a]] and d = spsc_invD [OF spsc_atD(1) [OF a]] and calls = spsc_atD(2) [OF a]
  show ?thesis
  proof (cases "tl ch = []")
    case True
    then obtain v where v: "nodes s (hd ch) = Some \<lparr>val = v, next_node = 0\<rparr>" "fifo_rest ops [] = []"
      using flq_chain_hd [OF d(1)] by metis
    have "spsc_at p c ch (ops @ [Get]) xs (flq_goto c Flq_idle (s\<lparr>flq_returned := flq_returned s @ [(c, - 1)]\<rparr>))"
      by (rule consumer_moves [OF a, where ns = "nodes s" and r = "flq_returned s @ [(c, - 1)]"])
        (use pc v calls in \<open>auto simp: consumer_ok_def to_return_def fifo_snoc\<close>)
    then show ?thesis using pc v(1) f(4) by (auto simp: step_ok_def consumer_defs get_node_def next_of_def)
  next
    case False
    then obtain v b where b: "nodes s (hd ch) = Some \<lparr>val = v, next_node = b\<rparr>" "b \<in> set ch"
      using flq_chain_hd [OF d(1)] by metis
    have "spsc_at p c ch ops xs (flq_goto c (D_arg (hd ch)) s)"
      by (rule consumer_moves [OF a, where ns = "nodes s" and r = "flq_returned s"])
        (use pc False calls in \<open>auto simp: consumer_ok_def to_return_def\<close>)
    then show ?thesis using pc b(1) f(4) f(7) [OF b(2)] by (auto simp: step_ok_def consumer_defs get_node_def next_of_def)
  qed
qed

lemma consumer_takes:
  assumes a: "spsc_at p c ch ops xs s" and l: "left_behind ch s b"
    and pc: "flq_pcs s c = D_val b \<or> flq_pcs s c = D_read b (hd ch) \<or> (\<exists>v. flq_pcs s c = D_del b v)"
  shows "step_ok p c ops xs c s"
proof -
  note f = spsc_ids [OF spsc_atD(1) [OF a]] and d = spsc_invD [OF spsc_atD(1) [OF a]] and calls = spsc_atD(2) [OF a]
  obtain w where b: "nodes s b = Some \<lparr>val = w, next_node = hd ch\<rparr>" "0 < b" "b \<notin> set ch" using l by (auto simp: left_behind_def)
  obtain nx where nx: "nodes s (hd ch) = Some nx" using flq_chain_hd [OF d(1)] by metis
  from pc consider "flq_pcs s c = D_val b" | "flq_pcs s c = D_read b (hd ch)" | v where "flq_pcs s c = D_del b v" by blast
  then show ?thesis
  proof cases
    case 1
    have "left_behind ch (flq_goto c (D_read b (hd ch)) s) b" using l by (simp add: left_behind_def)
    then have "spsc_at p c ch ops xs (flq_goto c (D_read b (hd ch)) s)"
      by (intro consumer_moves [OF a, where ns = "nodes s" and r = "flq_returned s"])
        (use 1 b calls in \<open>auto simp: consumer_ok_def to_return_def next_of_def\<close>)
    then show ?thesis using 1 b by (auto simp: step_ok_def consumer_defs get_node_def)
  next
    case 2
    have "left_behind ch (flq_goto c (D_del b (val nx)) s) b" using l by (simp add: left_behind_def)
    then have "spsc_at p c ch ops xs (flq_goto c (D_del b (val nx)) s)"
      by (intro consumer_moves [OF a, where ns = "nodes s" and r = "flq_returned s"])
        (use 2 nx calls in \<open>auto simp: consumer_ok_def to_return_def val_of_def\<close>)
    then show ?thesis using 2 nx f(4) by (auto simp: step_ok_def consumer_defs get_node_def)
  next
    case (3 v)
    have "spsc_at p c ch ops xs (flq_goto c Flq_idle (s\<lparr>nodes := (nodes s)(b := None), flq_returned := flq_returned s @ [(c, v)]\<rparr>))"
      by (rule consumer_moves [OF a, where ns = "(nodes s)(b := None)" and r = "flq_returned s @ [(c, v)]"])
        (use 3 b calls f(4) in \<open>auto simp: consumer_ok_def to_return_def new_node_def\<close>)
    then show ?thesis using 3 b by (auto simp: step_ok_def consumer_defs get_node_def)
  qed
qed

lemma consumer_step:
  assumes a: "spsc_at p c ch ops xs s"
  shows "step_ok p c ops xs c s"
proof -
  note f = spsc_ids [OF spsc_atD(1) [OF a]] and d = spsc_invD [OF spsc_atD(1) [OF a]] and calls = spsc_atD(2) [OF a]
  consider "flq_pcs s c = Flq_idle" | "flq_pcs s c = D_loop" | "flq_pcs s c = D_check (hd ch)"
    | "flq_pcs s c = D_arg (hd ch)" "tl ch \<noteq> []" | "flq_pcs s c = D_cas (hd ch) (hd (tl ch))" "tl ch \<noteq> []"
    | b where "left_behind ch s b" "flq_pcs s c = D_val b \<or> flq_pcs s c = D_read b (hd ch) \<or> (\<exists>v. flq_pcs s c = D_del b v)"
    using d(6) by (auto simp: consumer_ok_def split: flq_pc.splits)
  then show ?thesis
  proof cases
    case 1
    then show ?thesis using a by (auto simp: step_ok_def consumer_defs en_queue_step_def)
  next
    case 2
    have "spsc_at p c ch ops xs (flq_goto c (D_check (flq_head s)) s)"
      by (rule consumer_moves [OF a, where ns = "nodes s" and r = "flq_returned s"])
        (use 2 d(4) calls in \<open>auto simp: consumer_ok_def to_return_def\<close>)
    then show ?thesis using 2 by (auto simp: step_ok_def consumer_defs)
  next
    case 4
    then obtain v b where b: "nodes s (hd ch) = Some \<lparr>val = v, next_node = b\<rparr>" "b = hd (tl ch)"
      using flq_chain_hd [OF d(1)] by metis
    have "spsc_at p c ch ops xs (flq_goto c (D_cas (hd ch) b) s)"
      by (rule consumer_moves [OF a, where ns = "nodes s" and r = "flq_returned s"])
        (use 4 b(2) calls in \<open>auto simp: consumer_ok_def to_return_def\<close>)
    then show ?thesis using 4 b(1) f(4) by (auto simp: step_ok_def consumer_defs get_node_def)
  next
    case 5
    show ?thesis using consumer_unlinks [OF a 5] 5 d(4) by (auto simp: step_ok_def consumer_defs)
  qed (fact consumer_checks [OF a] consumer_takes [OF a])+
qed

subsection \<open>Every interleaving is a run of a FIFO queue\<close>

lemma spsc_start:
  assumes "flq_rep p s []" "flq_pcs s c = Flq_idle" "flq_returned s = []" "p \<noteq> c"
  shows "\<exists>ch. spsc_at p c ch [] [] s"
  using assms by (auto simp: flq_rep_def spsc_at_def spsc_inv_def history_ok_def producer_ok_def consumer_ok_def to_link_def to_return_def)

lemma spsc_run_at: "spsc_run p c ops xs s \<Longrightarrow> p \<noteq> c \<Longrightarrow> \<exists>ch. spsc_at p c ch ops xs s"
proof (induction ops xs s rule: spsc_run.induct)
  case (Spsc_start s)
  then show ?case by (rule spsc_start)
next
  case (Spsc_enq ops xs s x)
  then obtain ch where "spsc_at p c ch ops xs s" by blast
  then show ?case using spsc_en_queue [OF _ Spsc_enq.hyps(2)] unfolding spsc_at_def by blast
next
  case (Spsc_deq ops xs s)
  then obtain ch where a: "spsc_at p c ch ops xs s" by blast
  have "spsc_at p c ch ops xs (flq_goto c D_loop s)"
    by (rule consumer_moves [OF a, where ns = "nodes s" and r = "flq_returned s"])
      (use Spsc_deq.hyps(2) spsc_atD(2) [OF a] in \<open>auto simp: consumer_ok_def to_return_def\<close>)
  then show ?case by (auto simp: de_queue_def)
next
  case (Spsc_step ops xs s t s')
  then obtain ch where a: "spsc_at p c ch ops xs s" by blast
  then show ?case using Spsc_step.hyps(2,3) producer_step [OF a] consumer_step [OF a] by (auto simp: step_ok_def)
qed

text \<open>How many steps a call has left, when no other producer interferes.\<close>

definition flq_steps_left :: "flq_pc \<Rightarrow> nat" where
  "flq_steps_left pc = (case pc of Flq_idle \<Rightarrow> 0 | E_swing n a \<Rightarrow> 1 | E_cas n a \<Rightarrow> 2 | E_loop n \<Rightarrow> 3
     | D_del a v \<Rightarrow> 1 | D_read a b \<Rightarrow> 2 | D_val a \<Rightarrow> 3 | D_cas a b \<Rightarrow> 4 | D_arg a \<Rightarrow> 5 | D_check a \<Rightarrow> 6 | D_loop \<Rightarrow> 7 | _ \<Rightarrow> 0)"

lemma producer_advances:
  assumes "spsc_at p c ch ops xs s" "flq_step p s = Inr s'"
  shows "flq_pcs s p = Flq_idle \<or> flq_steps_left (flq_pcs s' p) < flq_steps_left (flq_pcs s p)"
proof -
  note d = spsc_invD [OF spsc_atD(1) [OF assms(1)]]
  obtain v where v: "nodes s (last ch) = Some \<lparr>val = v, next_node = 0\<rparr>" using flq_chain_last [OF d(1)] by blast
  show ?thesis using d(5) assms(2) v
    by (auto simp: producer_ok_def flq_step_def de_queueing_def en_queue_step_def get_node_def flq_steps_left_def
        split: flq_pc.splits if_splits)
qed

lemma consumer_advances:
  assumes "spsc_at p c ch ops xs s" "flq_step c s = Inr s'"
  shows "flq_pcs s c = Flq_idle \<or> flq_steps_left (flq_pcs s' c) < flq_steps_left (flq_pcs s c)"
proof -
  note d = spsc_invD [OF spsc_atD(1) [OF assms(1)]]
  show ?thesis using d(6) assms(2)
    by (auto simp: consumer_ok_def flq_step_def de_queueing_def de_queue_step_def get_node_def flq_steps_left_def
        split: flq_pc.splits if_splits option.splits)
qed

subsection \<open>Properties\<close>

text \<open>
  C11: \<open>FreeLockQueue\<close> lacks a constructor and \<open>ListNode\<close> leaves \<open>next\<close> unset. As written, the first call
  on a queue fails: \<open>de_queue\<close> always, and \<open>en_queue\<close> unless \<open>tail\<close> happens to hold the address of the very node it makes.
  With a sentinel, but a \<open>next\<close> that is neither null nor the address of a node, the second insertion fails. If a sentinel has been put in and
  every new node has a null \<open>next\<close> (runs \<open>spsc_run\<close>), one producer and one consumer have a FIFO queue under every interleaving of
  their steps. The values inserted are those passed to \<open>en_queue\<close>, in that order, up to one not yet linked; the values returned are those
  that a FIFO queue gives, with -1 for the empty queue, up to one not yet returned; every operation takes effect in
  a step of its own call; no step accesses a freed node, and each one brings its call closer to the end, whatever the other thread does:
  \<open>en_queue\<close> returns after at most three steps, \<open>de_queue\<close> after at most seven.
\<close>

theorem spsc_queue_fifo:
  assumes "spsc_run p c ops xs s" and "p \<noteq> c"
  shows "(xs = puts ops @ to_link s p \<and> fifo_calls (- 1) ops [] = map snd (flq_returned s) @ to_return s c \<and>
      (\<exists>s'. flq_step p s = Inr s' \<and>
        (flq_pcs s p = Flq_idle \<or> flq_steps_left (flq_pcs s' p) < flq_steps_left (flq_pcs s p))) \<and>
      (\<exists>s'. flq_step c s = Inr s' \<and>
        (flq_pcs s c = Flq_idle \<or> flq_steps_left (flq_pcs s' c) < flq_steps_left (flq_pcs s c)))) \<and>
    (\<forall>t hp tp garbage x. isl (flq_run [t, t] (de_queue t (FreeLockQueue_new hp tp))) \<and>
      (tp = 1 \<or> isl (flq_run [t, t] (en_queue garbage t x (FreeLockQueue_new hp tp))))) \<and>
    (\<forall>t s0 garbage x y. flq_rep t s0 [] \<longrightarrow> garbage \<notin> {0, flq_fresh s0, Suc (flq_fresh s0)} \<union> dom (nodes s0) \<longrightarrow>
      bind_cxx (flq_enq garbage t x s0) (flq_enq garbage t y) = Inl Invalid_access)"
proof -
  obtain ch where a: "spsc_at p c ch ops xs s" using spsc_run_at [OF assms] by blast
  have "bind_cxx (flq_enq garbage t x s0) (flq_enq garbage t y) = Inl Invalid_access"
    if "flq_rep t s0 []" "garbage \<notin> {0, flq_fresh s0, Suc (flq_fresh s0)} \<union> dom (nodes s0)" for t s0 garbage x y
    using that by (intro garbage_goes_astray) auto
  then show ?thesis using spsc_atD(2,3) [OF a] producer_step [OF a] consumer_step [OF a] producer_advances [OF a] consumer_advances [OF a]
      first_call_fails by (auto simp: step_ok_def)
qed

lemma spsc_run_steps:
  "spsc_run p c ops xs s \<Longrightarrow> t = p \<or> t = c \<Longrightarrow> flq_step t s = Inr s' \<Longrightarrow> takes_effect t s = ops' \<Longrightarrow> ops @ ops' = ops'' \<Longrightarrow>
   spsc_run p c ops'' xs s'"
  using Spsc_step by blast

text \<open>The consumer frees the sentinel while the producer has not yet moved \<open>tail\<close> off it.\<close>

definition stale_tail :: FreeLockQueue where
  "stale_tail = \<lparr>nodes = [2 \<mapsto> \<lparr>val = 7, next_node = 0\<rparr>], flq_fresh = 3, flq_head = 2, flq_tail = 1,
     flq_pcs = (\<lambda>_. Flq_idle)(0 := E_swing 2 1), flq_returned = [(1, 7)]\<rparr>"

lemma stale_tail_run: "spsc_run 0 1 [Put 7, Get] [7] stale_tail"
proof -
  have "spsc_run 0 1 [] [] sentinel_queue" by (rule Spsc_start [OF sentinel_queue_rep]) (simp_all add: sentinel_queue_def)
  from Spsc_enq [OF this, of 7] have r: "spsc_run 0 1 [] [7] (en_queue 0 0 7 sentinel_queue)" by (simp add: sentinel_queue_def)
  note defs = flq_defs takes_effect_def next_of_def val_of_def en_queue_def de_queue_def sentinel_queue_def
  define q1 where "q1 = flq_goto 0 (E_cas 2 1) (en_queue 0 0 7 sentinel_queue)"
  have r: "spsc_run 0 1 [] [7] q1" by (rule spsc_run_steps [OF r, of 0 _ "[]"]) (simp_all add: q1_def defs)
  define q2 where "q2 = flq_goto 0 (E_swing 2 1) (q1\<lparr>nodes := (nodes q1)(1 \<mapsto> \<lparr>val = 0, next_node = 2\<rparr>)\<rparr>)"
  have r: "spsc_run 0 1 [Put 7] [7] q2" by (rule spsc_run_steps [OF r, of 0 _ "[Put 7]"]) (simp_all add: q2_def q1_def defs)
  from Spsc_deq [OF r] have r: "spsc_run 0 1 [Put 7] [7] (de_queue 1 q2)" by (simp add: q2_def q1_def defs)
  have r: "spsc_run 0 1 [Put 7] [7] (flq_goto 1 (D_check 1) q2)"
    by (rule spsc_run_steps [OF r, of 1 _ "[]"]) (simp_all add: q2_def q1_def defs)
  have r: "spsc_run 0 1 [Put 7] [7] (flq_goto 1 (D_arg 1) q2)"
    by (rule spsc_run_steps [OF r, of 1 _ "[]"]) (simp_all add: q2_def q1_def defs)
  have r: "spsc_run 0 1 [Put 7] [7] (flq_goto 1 (D_cas 1 2) q2)"
    by (rule spsc_run_steps [OF r, of 1 _ "[]"]) (simp_all add: q2_def q1_def defs)
  have r: "spsc_run 0 1 [Put 7, Get] [7] (flq_goto 1 (D_val 1) (q2\<lparr>flq_head := 2\<rparr>))"
    by (rule spsc_run_steps [OF r, of 1 _ "[Get]"]) (simp_all add: q2_def q1_def defs)
  have r: "spsc_run 0 1 [Put 7, Get] [7] (flq_goto 1 (D_read 1 2) (q2\<lparr>flq_head := 2\<rparr>))"
    by (rule spsc_run_steps [OF r, of 1 _ "[]"]) (simp_all add: q2_def q1_def defs)
  have r: "spsc_run 0 1 [Put 7, Get] [7] (flq_goto 1 (D_del 1 7) (q2\<lparr>flq_head := 2\<rparr>))"
    by (rule spsc_run_steps [OF r, of 1 _ "[]"]) (simp_all add: q2_def q1_def defs)
  show ?thesis
    by (rule spsc_run_steps [OF r, of 1 _ "[]"]) (simp_all add: stale_tail_def q2_def q1_def defs fun_eq_iff)
qed

theorem spsc_queue_fifo_witness:
  "[7] = puts [Put (7 :: 32 word), Get] \<and> fifo_calls (- 1) [Put 7, Get] [] = map snd (flq_returned stale_tail) \<and>
   (\<exists>s'. flq_step 0 stale_tail = Inr s' \<and> flq_pcs s' 0 = Flq_idle)"
  using conjunct1 [OF spsc_queue_fifo [OF stale_tail_run]]
  by (auto simp: stale_tail_def to_link_def to_return_def flq_steps_left_def flq_defs)

text \<open>
  Two producers and one consumer are too many, although \<open>en_queue\<close> is written for several
  producers. When a second producer reads \<open>tail\<close> after the consumer has freed the node that the first one linked its
  node to, and before that one moves \<open>tail\<close>, it accesses the freed node.
\<close>

theorem second_producer_frees:
  assumes "flq_rep p s []" and "flq_pcs s u = Flq_idle" and "flq_pcs s c = Flq_idle" and "distinct [p, u, c]"
  shows "bind_cxx (flq_run [p, p] (en_queue 0 p x s))
    (\<lambda>s1. bind_cxx (flq_run [c, c, c, c, c, c, c] (de_queue c s1)) (\<lambda>s2. flq_run [u, u] (en_queue 0 u y s2))) = Inl Invalid_access"
proof -
  obtain a v where a: "nodes s a = Some \<lparr>val = v, next_node = 0\<rparr>" "0 < a" "a < flq_fresh s"
    "flq_head s = a" "flq_tail s = a" "flq_pcs s p = Flq_idle"
    using assms(1) by (auto simp: flq_rep_def elim: flq_chain.elims)
  let ?n = "flq_fresh s"
  define s1 where "s1 = flq_goto p (E_swing ?n a) (s\<lparr>nodes := (nodes s)(?n \<mapsto> \<lparr>val = x, next_node = 0\<rparr>, a \<mapsto> \<lparr>val = v, next_node = ?n\<rparr>),
     flq_fresh := Suc ?n\<rparr>)"
  define s2 where "s2 = flq_goto c Flq_idle (s1\<lparr>nodes := (nodes s1)(a := None), flq_head := ?n,
     flq_returned := flq_returned s @ [(c, x)]\<rparr>)"
  have "flq_run [p, p] (en_queue 0 p x s) = Inr s1"
    using a by (simp add: flq_defs en_queue_def s1_def)
  moreover have "flq_run [c, c, c, c, c, c, c] (de_queue c s1) = Inr s2"
    using a assms(4) by (simp add: flq_defs de_queue_def s1_def s2_def)
  moreover have "flq_run [u, u] (en_queue 0 u y s2) = Inl Invalid_access"
    using a assms(4) by (simp add: flq_defs en_queue_def s1_def s2_def)
  ultimately show ?thesis by simp
qed

theorem second_producer_frees_witness:
  "bind_cxx (flq_run [0, 0] (en_queue 0 0 7 sentinel_queue))
    (\<lambda>s1. bind_cxx (flq_run [2, 2, 2, 2, 2, 2, 2] (de_queue 2 s1)) (\<lambda>s2. flq_run [1, 1] (en_queue 0 1 8 s2))) = Inl Invalid_access"
proof -
  show ?thesis by (rule second_producer_frees [OF sentinel_queue_rep]) (simp_all add: sentinel_queue_def)
qed

end
