(* ===== verification/Binary_Float.thy ===== *)
theory Binary_Float
  imports Prelude
begin

text \<open>
  Binary floating point as the sources use it: a finite value is a pair of an integer mantissa
  and a binary exponent, and every operation rounds its exact result to a fixed number of
  significant bits, ties to the even mantissa (24 bits for \<open>float\<close>, 53 for \<open>double\<close>).
  The values the program computes with stay far from the overflow and underflow thresholds,
  which this theory does not model.
\<close>

record bfloat =
  mant :: int
  expo :: int

fun bitlen :: "nat \<Rightarrow> nat" where
  "bitlen n = (if n = 0 then 0 else Suc (bitlen (n div 2)))"

definition round_half_even :: "nat \<Rightarrow> nat \<Rightarrow> nat" where
  "round_half_even n e =
     (let q = n div 2 ^ e; r = n mod 2 ^ e
      in if 2 * r < 2 ^ e \<or> (2 * r = 2 ^ e \<and> even q) then q else Suc q)"

definition fl_round :: "nat \<Rightarrow> bfloat \<Rightarrow> bfloat" where
  "fl_round p x =
     (let n = nat \<bar>mant x\<bar>; e = bitlen n - p
      in \<lparr>mant = sgn (mant x) * int (round_half_even n e), expo = expo x + int e\<rparr>)"

definition fl_mult :: "nat \<Rightarrow> bfloat \<Rightarrow> bfloat \<Rightarrow> bfloat" where
  "fl_mult p x y = fl_round p \<lparr>mant = mant x * mant y, expo = expo x + expo y\<rparr>"

definition fl_neg :: "bfloat \<Rightarrow> bfloat" where
  "fl_neg x = x\<lparr>mant := - mant x\<rparr>"

definition fl_exact_add :: "bfloat \<Rightarrow> bfloat \<Rightarrow> bfloat" where
  "fl_exact_add x y =
     (let e = min (expo x) (expo y)
      in \<lparr>mant = mant x * 2 ^ nat (expo x - e) + mant y * 2 ^ nat (expo y - e), expo = e\<rparr>)"

definition fl_add :: "nat \<Rightarrow> bfloat \<Rightarrow> bfloat \<Rightarrow> bfloat" where
  "fl_add p x y = fl_round p (fl_exact_add x y)"

text \<open>Division by a value that is not zero: enough bits of the exact quotient, and one more that says whether
  anything is left.\<close>

definition fl_div :: "nat \<Rightarrow> bfloat \<Rightarrow> bfloat \<Rightarrow> bfloat" where
  "fl_div p x y =
     (let m = nat \<bar>mant x\<bar>; n = nat \<bar>mant y\<bar>; k = p + 2 + bitlen n; q = m * 2 ^ k div n; r = m * 2 ^ k mod n
      in fl_round p \<lparr>mant = sgn (mant x) * sgn (mant y) * int (2 * q + (if r = 0 then 0 else 1)),
           expo = expo x - expo y - int k - 1\<rparr>)"

text \<open>Two representations of the same value.\<close>

definition fl_eq :: "bfloat \<Rightarrow> bfloat \<Rightarrow> bool" where
  "fl_eq x y \<longleftrightarrow> mant (fl_exact_add x (fl_neg y)) = 0"

definition fl_of_nat :: "nat \<Rightarrow> nat \<Rightarrow> bfloat" where
  "fl_of_nat p n = fl_round p \<lparr>mant = int n, expo = 0\<rparr>"

text \<open>Conversion to an integer truncates towards zero.\<close>

definition fl_trunc :: "bfloat \<Rightarrow> int" where
  "fl_trunc x = sgn (mant x) *
     (if 0 \<le> expo x then \<bar>mant x\<bar> * 2 ^ nat (expo x) else \<bar>mant x\<bar> div 2 ^ nat (- expo x))"

declare bitlen.simps [simp del]

lemma bitlen_0 [simp]: "bitlen 0 = 0"
  by (subst bitlen.simps) simp

lemma bitlen_bounds: "n < 2 ^ bitlen n \<and> (0 < n \<longrightarrow> 2 ^ (bitlen n - 1) \<le> n)"
proof (induction n rule: bitlen.induct)
  case (1 n)
  show ?case
  proof (cases "n = 0")
    case True
    then show ?thesis by simp
  next
    case False
    let ?b = "bitlen (n div 2)"
    have b: "bitlen n = Suc ?b" using False by (subst bitlen.simps) simp
    from 1 [OF False] have ub: "n div 2 < 2 ^ ?b" and lb: "0 < n div 2 \<Longrightarrow> 2 ^ (?b - 1) \<le> n div 2"
      by auto
    have "n < 2 ^ Suc ?b" using ub by simp
    moreover have "2 ^ ?b \<le> n"
    proof (cases "n div 2 = 0")
      case True
      then show ?thesis using False by simp
    next
      case nz: False
      then have "0 < ?b" by (metis bitlen.simps zero_less_Suc)
      then have "(2::nat) ^ ?b = 2 * 2 ^ (?b - 1)" by (metis Suc_diff_1 power_Suc)
      also have "\<dots> \<le> n" using lb nz by simp
      finally show ?thesis .
    qed
    ultimately show ?thesis by (simp add: b)
  qed
qed

lemma bitlen_pos: "0 < n \<Longrightarrow> 0 < bitlen n"
  by (subst bitlen.simps) simp

lemma bitlen_least:
  assumes "n \<le> 2 ^ j" and "2 ^ (bitlen n - 1) < n"
  shows "bitlen n \<le> j"
proof (rule ccontr)
  assume "\<not> bitlen n \<le> j"
  then have "j \<le> bitlen n - 1" by simp
  then have "(2::nat) ^ j \<le> 2 ^ (bitlen n - 1)" by (intro power_increasing) simp_all
  with assms show False by simp
qed

lemma mult_pow2_div: "(m::nat) * 2 ^ a div 2 ^ k = (if k \<le> a then m * 2 ^ (a - k) else m div 2 ^ (k - a))"
proof (cases "k \<le> a")
  case True
  then have "(2::nat) ^ a = 2 ^ (a - k) * 2 ^ k" by (simp flip: power_add)
  with True show ?thesis by simp
next
  case False
  then have "(2::nat) ^ k = 2 ^ (k - a) * 2 ^ a" by (simp flip: power_add)
  with False show ?thesis by simp
qed

lemma round_half_even_err:
  "2 * n \<le> 2 * (round_half_even n e * 2 ^ e) + 2 ^ e \<and> 2 * (round_half_even n e * 2 ^ e) \<le> 2 * n + 2 ^ e"
proof -
  define q r where "q = n div 2 ^ e" and "r = n mod 2 ^ e"
  have n: "n = q * 2 ^ e + r" by (simp only: q_def r_def div_mult_mod_eq)
  have "r < 2 ^ e" by (simp add: r_def)
  then show ?thesis
    unfolding round_half_even_def Let_def q_def [symmetric] r_def [symmetric]
    by (auto simp: n algebra_simps)
qed

lemma round_half_even_0 [simp]: "round_half_even n 0 = n"
  by (simp add: round_half_even_def)

text \<open>The relative error of one rounding to \<open>p\<close> bits is at most \<open>2 ^ (- p)\<close>.\<close>

lemma round_rel:
  assumes "0 < p" and "e = bitlen n - p"
  shows "(2 ^ p - 1) * n \<le> 2 ^ p * (round_half_even n e * 2 ^ e)"
    and "2 ^ p * (round_half_even n e * 2 ^ e) \<le> (2 ^ p + 1) * n"
proof -
  have "2 ^ p * 2 ^ e \<le> 2 * n \<or> e = 0"
  proof (cases "e = 0")
    case False
    then have "0 < n" using assms(2) by (cases "n = 0") simp_all
    moreover have pe: "bitlen n = Suc (p + e - 1)" using False assms by simp
    ultimately have "2 ^ (p + e - 1) \<le> n" using bitlen_bounds [of n] by simp
    moreover have "(2::nat) ^ p * 2 ^ e = 2 * 2 ^ (p + e - 1)"
      using assms(1) by (simp flip: power_add power_Suc)
    ultimately show ?thesis by simp
  qed simp
  moreover have "2 ^ p * (2 * n) \<le> 2 ^ p * (2 * (round_half_even n e * 2 ^ e) + 2 ^ e)"
    and "2 ^ p * (2 * (round_half_even n e * 2 ^ e)) \<le> 2 ^ p * (2 * n + 2 ^ e)"
    using round_half_even_err [of n e] by (auto intro: mult_le_mono2)
  ultimately show "(2 ^ p - 1) * n \<le> 2 ^ p * (round_half_even n e * 2 ^ e)"
    and "2 ^ p * (round_half_even n e * 2 ^ e) \<le> (2 ^ p + 1) * n"
    by (auto simp: algebra_simps diff_mult_distrib)
qed

lemma fl_of_nat_eq:
  "fl_of_nat p n = \<lparr>mant = int (round_half_even n (bitlen n - p)), expo = int (bitlen n - p)\<rparr>"
  by (cases "n = 0") (simp_all add: fl_of_nat_def fl_round_def Let_def round_half_even_def)

subsection \<open>Evaluation\<close>

lemma bitlen_unique: "2 ^ k \<le> n \<Longrightarrow> n < 2 ^ Suc k \<Longrightarrow> bitlen n = Suc k"
proof -
  assume n: "2 ^ k \<le> n" "n < 2 ^ Suc k"
  then have "0 < n" by (metis le_zero_eq not_gr_zero power_not_zero zero_neq_numeral)
  then have b: "n < 2 ^ bitlen n" "2 ^ (bitlen n - 1) \<le> n" "0 < bitlen n"
    using bitlen_bounds [of n] bitlen_pos [of n] by auto
  have "k < bitlen n" using le_less_trans [OF n(1) b(1)] by simp
  moreover have "bitlen n - 1 < Suc k" using le_less_trans [OF b(2) n(2)] by (simp del: power_Suc)
  ultimately show ?thesis using b(3) by linarith
qed

text \<open>A mantissa that fits is not rounded.\<close>

lemma bitlen_le: "n < 2 ^ k \<Longrightarrow> bitlen n \<le> k"
proof (cases "0 < n")
  case True
  assume "n < 2 ^ k"
  then have "(2 :: nat) ^ (bitlen n - 1) < 2 ^ k" using True bitlen_bounds [of n] by (metis le_less_trans)
  then have "bitlen n - 1 < k" by (rule power_less_imp_less_exp [rotated]) simp
  then show ?thesis by simp
qed simp

lemma fl_round_small: "nat \<bar>m\<bar> < 2 ^ p \<Longrightarrow> fl_round p \<lparr>mant = m, expo = e\<rparr> = \<lparr>mant = m, expo = e\<rparr>"
  using bitlen_le [of "nat \<bar>m\<bar>" p] by (simp add: fl_round_def Let_def sgn_if)

text \<open>A product of positive values whose exact mantissa has \<open>Suc k\<close> bits.\<close>

lemma fl_mult_eval:
  assumes "2 ^ k \<le> m * m'" "m * m' < 2 ^ Suc k"
  shows "fl_mult p \<lparr>mant = int m, expo = e\<rparr> \<lparr>mant = int m', expo = e'\<rparr> =
    \<lparr>mant = int (round_half_even (m * m') (Suc k - p)), expo = e + e' + int (Suc k - p)\<rparr>"
proof -
  have "0 < m * m'" using assms(1) by (metis le_zero_eq not_gr_zero power_not_zero zero_neq_numeral)
  then have s: "sgn (int m * int m') = 1" and n: "nat \<bar>int m * int m'\<bar> = m * m'"
    by (simp_all add: nat_mult_distrib)
  show ?thesis unfolding fl_mult_def fl_round_def Let_def
    using s n bitlen_unique [OF assms] by simp
qed

lemma fl_mult_zero [simp]: "mant y = 0 \<Longrightarrow> mant (fl_mult p x y) = 0"
  by (simp add: fl_mult_def fl_round_def Let_def)

end
