(* ===== verification/Memory_Block.thy ===== *)
theory Memory_Block
  imports Binary_Float
begin

text \<open>
  The memory the pool manages (\<open>example/brpc/memory_pool.h\<close> and \<open>memory_pool.hpp\<close>):
  blocks with a 16-byte header (\<open>capacity\<close>, \<open>next\<close>) followed by their data, obtained
  from \<open>operator new\<close> and returned to \<open>operator delete\<close>. \<open>operator new\<close> is a
  parameter of the model: a function from the memory and the requested size to an address, or
  \<open>None\<close> when it throws \<open>bad_alloc\<close>. What the pool relies on is the locale
  \<open>operator_new\<close>. Destructors registered with the pool are function pointers; calling one
  is recorded in \<open>dtor_log\<close>.
\<close>

subsection \<open>Data\<close>

record mblock =
  capacity :: size_t
  next_block :: addr

record mem =
  heap :: "(addr \<times> mblock) list"
  bytes :: "addr \<Rightarrow> byte"
  dtor_log :: "(addr \<times> addr) list"

type_synonym new_fun = "mem \<Rightarrow> size_t \<Rightarrow> addr option"

definition sizeof_MemoryBlock :: size_t where
  "sizeof_MemoryBlock = 16"

definition data_of :: "addr \<Rightarrow> addr" where
  "data_of b = b + sizeof_MemoryBlock"

definition lookup_block :: "mem \<Rightarrow> addr \<Rightarrow> mblock cxx" where
  "lookup_block m b =
     (if b = nullptr then Inl Null_deref
      else case map_of (heap m) b of None \<Rightarrow> Inl Invalid_access | Some blk \<Rightarrow> Inr blk)"

definition set_next :: "addr \<Rightarrow> addr \<Rightarrow> mem \<Rightarrow> mem cxx" where
  "set_next b n m = bind_cxx (lookup_block m b)
     (\<lambda>blk. Inr (m\<lparr>heap := AList.update b (blk\<lparr>next_block := n\<rparr>) (heap m)\<rparr>))"

subsection \<open>MemoryBlock\<close>

function block_size_loop :: "size_t \<Rightarrow> size_t \<Rightarrow> size_t" where
  "block_size_loop block_size remain =
     (if 1 < remain then block_size_loop (push_bit 1 block_size) (drop_bit 1 remain) else block_size)"
  by pat_completeness auto
termination
proof (relation "measure (\<lambda>(b, r). unat r)")
  fix b r :: size_t
  assume "1 < r"
  then have "1 < unat r" by (simp add: word_less_nat_alt)
  then show "((push_bit 1 b, drop_bit 1 r), b, r) \<in> measure (\<lambda>(b, r). unat r)"
    using unat_drop_bit_1 [of r] by simp
qed simp

definition get_block_size :: "size_t \<Rightarrow> size_t" where
  "get_block_size expected_size =
     (let min_block_size = sizeof_MemoryBlock + expected_size;
          block_size =
            (if 4096 < min_block_size then (min_block_size + 4096 - 1) AND (- 4096)
             else let b = block_size_loop 1 min_block_size
                  in if b < min_block_size then push_bit 1 b else b)
      in block_size - sizeof_MemoryBlock)"

definition MemoryBlock_create :: "new_fun \<Rightarrow> size_t \<Rightarrow> mem \<Rightarrow> (addr \<times> mem) cxx" where
  "MemoryBlock_create nw cap m =
     (case nw m (sizeof_MemoryBlock + cap) of
        None \<Rightarrow> Inl Bad_alloc
      | Some b \<Rightarrow> Inr (b, m\<lparr>heap := AList.update b \<lparr>capacity = cap, next_block = nullptr\<rparr> (heap m)\<rparr>))"

definition MemoryBlock_destroy :: "addr \<Rightarrow> mem \<Rightarrow> mem cxx" where
  "MemoryBlock_destroy b m =
     bind_cxx (lookup_block m b) (\<lambda>_. Inr (m\<lparr>heap := AList.delete b (heap m)\<rparr>))"

text \<open>\<open>buffer_size * 1.1f\<close> passed to a \<open>size_t\<close> parameter: the size is converted to
  \<open>float\<close>, multiplied by the \<open>float\<close> nearest to 1.1 (\<open>9227469 / 2 ^ 23\<close>), rounded and
  truncated; a result that does not fit is undefined.\<close>

definition float_1_1 :: bfloat where
  "float_1_1 = \<lparr>mant = 9227469, expo = - 23\<rparr>"

definition times_1_1f :: "size_t \<Rightarrow> size_t cxx" where
  "times_1_1f n =
     (let r = fl_trunc (fl_mult 24 (fl_of_nat 24 (unat n)) float_1_1)
      in if r < 2 ^ 64 then Inr (word_of_int r) else Inl Undefined_conversion)"

subsection \<open>Extents and the contract of operator new\<close>

definition extent :: "addr \<Rightarrow> nat \<Rightarrow> nat set" where
  "extent a n = {unat a ..< unat a + n}"

definition block_extent :: "addr \<Rightarrow> mblock \<Rightarrow> nat set" where
  "block_extent b blk = extent b (16 + unat (capacity blk))"

locale operator_new =
  fixes nw :: new_fun
  assumes new_nonnull: "nw m n = Some b \<Longrightarrow> b \<noteq> nullptr"
    and new_aligned: "nw m n = Some b \<Longrightarrow> 16 dvd unat b"
    and new_bound: "nw m n = Some b \<Longrightarrow> unat b + unat n < 2 ^ 64"
    and new_disjoint: "nw m n = Some b \<Longrightarrow> map_of (heap m) a = Some blk \<Longrightarrow>
           extent b (unat n) \<inter> block_extent a blk = {}"

text \<open>An allocator with that contract: it hands out the first 16-byte boundary above every
  live block.\<close>

definition brk_of :: "mem \<Rightarrow> nat" where
  "brk_of m = foldr (\<lambda>(b, blk) acc. max (unat b + 16 + unat (capacity blk)) acc) (heap m) 16"

definition bump_new :: new_fun where
  "bump_new m n =
     (let b = (brk_of m + 15) div 16 * 16
      in if b + unat n < 2 ^ 64 then Some (word_of_nat b) else None)"

subsection \<open>Lemmas\<close>

declare block_size_loop.simps [simp del]

lemma unat_sizeof [simp]: "unat sizeof_MemoryBlock = 16"
  by (simp add: sizeof_MemoryBlock_def)

lemma lookup_block_Inr [simp]:
  "lookup_block m b = Inr blk \<longleftrightarrow> b \<noteq> nullptr \<and> map_of (heap m) b = Some blk"
  by (auto simp: lookup_block_def split: option.splits)

lemma brk_of_ge: "map_of (heap m) a = Some blk \<Longrightarrow> unat a + 16 + unat (capacity blk) \<le> brk_of m"
proof -
  have "map_of h a = Some blk \<Longrightarrow> unat a + 16 + unat (capacity blk)
      \<le> foldr (\<lambda>(b, blk) acc. max (unat b + 16 + unat (capacity blk)) acc) h 16" for h
    by (induction h) (auto split: if_splits)
  then show "map_of (heap m) a = Some blk \<Longrightarrow> ?thesis" by (simp add: brk_of_def)
qed

lemma brk_of_ge16: "16 \<le> brk_of m"
proof -
  have "16 \<le> foldr (\<lambda>(b, blk) acc. max (unat b + 16 + unat (capacity blk)) acc) h 16"
    for h :: "(addr \<times> mblock) list"
    by (induction h) auto
  then show ?thesis by (simp add: brk_of_def)
qed

interpretation bump: operator_new bump_new
proof unfold_locales
  fix m n b
  assume *: "bump_new m n = Some b"
  let ?b = "(brk_of m + 15) div 16 * 16"
  have lt: "?b + unat n < 2 ^ 64" and b: "b = word_of_nat ?b"
    using * by (auto simp: bump_new_def Let_def split: if_splits)
  have ub: "unat b = ?b" using lt unfolding b by (intro unat_word_of_nat_64) simp
  have ge: "brk_of m \<le> ?b" by simp
  show "b \<noteq> nullptr" using ub ge brk_of_ge16 [of m] by (auto simp: unat_eq_0 [symmetric])
  show "16 dvd unat b" by (simp add: ub)
  show "unat b + unat n < 2 ^ 64" using lt by (simp add: ub)
  fix a blk
  assume "map_of (heap m) a = Some blk"
  from brk_of_ge [OF this] ge show "extent b (unat n) \<inter> block_extent a blk = {}"
    by (auto simp: extent_def block_extent_def ub)
qed

lemma block_size_loop_eq:
  "0 < unat r \<Longrightarrow> unat b * 2 ^ (bitlen (unat r) - 1) < 2 ^ 64 \<Longrightarrow>
   unat (block_size_loop b r) = unat b * 2 ^ (bitlen (unat r) - 1)"
proof (induction b r rule: block_size_loop.induct)
  case (1 b r)
  show ?case
  proof (cases "1 < r")
    case False
    then have "unat r = 1" using 1(2) by (simp add: word_less_nat_alt)
    moreover have "bitlen 1 = 1" by (subst bitlen.simps) simp
    ultimately show ?thesis using False by (simp add: block_size_loop.simps [of b r])
  next
    case True
    define n r2 b2 where "n = unat r" and "r2 = drop_bit 1 r" and "b2 = push_bit 1 b"
    note IH = 1(1) [OF True, folded r2_def b2_def]
    have n: "1 < n" using True by (simp add: word_less_nat_alt n_def)
    have r: "unat r2 = n div 2" unfolding r2_def n_def by (rule unat_drop_bit_1)
    have bl: "bitlen n = Suc (bitlen (n div 2))" using n by (subst bitlen.simps) simp
    have "0 < bitlen (n div 2)" using n by (subst bitlen.simps) simp
    then obtain k where k: "bitlen (n div 2) = Suc k" by (metis gr0_conv_Suc)
    have lt: "unat b * 2 ^ Suc k < 2 ^ 64" using 1(3) by (simp add: bl k n_def [symmetric])
    then have "2 * unat b < 2 ^ 64"
      by (rule le_less_trans [rotated]) simp
    then have b: "unat b2 = 2 * unat b" unfolding b2_def by (rule unat_push_bit_1)
    have "unat (block_size_loop b2 r2) = unat b2 * 2 ^ (bitlen (unat r2) - 1)"
      using n lt by (intro IH) (simp_all add: r b k mult.commute mult.left_commute)
    moreover have "block_size_loop b r = block_size_loop b2 r2"
      using True by (simp only: block_size_loop.simps [of b r] if_True r2_def b2_def)
    ultimately show ?thesis
      by (simp add: r b bl k n_def [symmetric])
  qed
qed

lemma get_block_size_unat:
  assumes "unat e + 16 + 4096 < 2 ^ 64"
  defines "n \<equiv> unat e + 16"
  shows "unat (get_block_size e) + 16 =
    (if 4096 < n then (n + 4095) div 4096 * 4096
     else if 2 ^ (bitlen n - 1) < n then 2 ^ bitlen n else n)"
proof -
  define mn where "mn = sizeof_MemoryBlock + e"
  have mn: "unat mn = n" using assms by (simp add: mn_def unat_add_ok n_def)
  have "16 \<le> n" by (simp add: n_def)
  show ?thesis
  proof (cases "4096 < n")
    case True
    then have gt: "4096 < mn" by (simp add: word_less_nat_alt mn)
    have "unat (align_up mn 4096) = ((unat mn + 2 ^ 12 - 1) div 2 ^ 12) * 2 ^ 12"
      using assms by (intro unat_align_up) (simp_all add: mn)
    then have al: "unat (align_up mn 4096) = (n + 4095) div 4096 * 4096" by (simp add: mn)
    have "get_block_size e = align_up mn 4096 - sizeof_MemoryBlock"
      using gt by (simp add: get_block_size_def Let_def mn_def [symmetric] align_up_def)
    moreover have "16 \<le> (n + 4095) div 4096 * 4096" using True by simp
    ultimately show ?thesis using True by (simp add: unat_sub_ok al)
  next
    case False
    then have le: "\<not> 4096 < mn" by (simp add: word_less_nat_alt mn)
    define b where "b = block_size_loop 1 mn"
    define k where "k = bitlen n - 1"
    have "bitlen n = Suc k" using \<open>16 \<le> n\<close> bitlen_pos [of n] by (simp add: k_def)
    with bitlen_bounds [of n] \<open>16 \<le> n\<close> have k: "2 ^ k \<le> n" "n < 2 * 2 ^ k" by auto
    have kn: "(2::nat) ^ k \<le> 4096" using k False by simp
    have b: "unat b = 2 ^ k" unfolding b_def k_def mn [symmetric]
      using kn \<open>16 \<le> n\<close> by (subst block_size_loop_eq) (simp_all add: mn k_def)
    have eq: "get_block_size e = (if b < mn then push_bit 1 b else b) - sizeof_MemoryBlock"
      using le by (simp only: get_block_size_def Let_def mn_def [symmetric] b_def [symmetric] if_False)
    have pb: "unat (push_bit 1 b) = 2 * 2 ^ k" using kn by (subst unat_push_bit_1) (simp_all add: b)
    show ?thesis
    proof (cases "2 ^ k < n")
      case lt: True
      then have "b < mn" by (simp add: word_less_nat_alt mn b)
      moreover have "unat (push_bit 1 b - sizeof_MemoryBlock) = 2 * 2 ^ k - 16"
        using k \<open>16 \<le> n\<close> unat_sub_ok [of sizeof_MemoryBlock "push_bit 1 b", unfolded unat_sizeof pb]
        by linarith
      ultimately have "unat (get_block_size e) = 2 * 2 ^ k - 16" by (simp only: eq if_True)
      then show ?thesis
        using False lt k \<open>16 \<le> n\<close> \<open>bitlen n = Suc k\<close> by simp
    next
      case ge: False
      then have nn: "n = 2 ^ k" and "\<not> b < mn" using k by (simp_all add: word_less_nat_alt mn b)
      then have "unat (get_block_size e) = 2 ^ k - 16"
        using \<open>16 \<le> n\<close> by (simp add: eq unat_sub_ok b)
      then show ?thesis using False ge nn \<open>16 \<le> n\<close> \<open>bitlen n = Suc k\<close> by simp
    qed
  qed
qed

lemma fl_round_pos:
  "0 \<le> mant x \<Longrightarrow> fl_round p x =
   \<lparr>mant = int (round_half_even (nat (mant x)) (bitlen (nat (mant x)) - p)),
    expo = expo x + int (bitlen (nat (mant x)) - p)\<rparr>"
  by (cases "mant x = 0") (simp_all add: fl_round_def Let_def round_half_even_def)

lemma times_1_1f_trunc:
  defines "q \<equiv> \<lambda>n. round_half_even n (bitlen n - 24) * 2 ^ (bitlen n - 24)"
  shows "fl_trunc (fl_mult 24 (fl_of_nat 24 n) float_1_1) =
    int (q (round_half_even n (bitlen n - 24) * 9227469) * 2 ^ (bitlen n - 24) div 2 ^ 23)"
proof -
  define e1 r1 where "e1 = bitlen n - 24" and "r1 = round_half_even n e1"
  define n2 e2 r2 where "n2 = r1 * 9227469" and "e2 = bitlen n2 - 24" and "r2 = round_half_even n2 e2"
  have f: "fl_mult 24 (fl_of_nat 24 n) float_1_1 = \<lparr>mant = int r2, expo = int e1 - 23 + int e2\<rparr>"
    by (simp add: fl_mult_def fl_of_nat_eq float_1_1_def fl_round_pos nat_mult_distrib
        e1_def r1_def n2_def e2_def r2_def)
  have "int (r2 * 2 ^ (e1 + e2) div 2 ^ 23) = fl_trunc \<lparr>mant = int r2, expo = int e1 - 23 + int e2\<rparr>"
  proof (cases "r2 = 0")
    case False
    have "nat (int e1 - 23 + int e2) = e1 + e2 - 23" "nat (- (int e1 - 23 + int e2)) = 23 - (e1 + e2)"
      by linarith+
    then show ?thesis using False
      unfolding mult_pow2_div fl_trunc_def by (auto simp: zdiv_int)
  qed (simp add: fl_trunc_def)
  then show ?thesis
    unfolding f q_def e1_def [symmetric] r1_def [symmetric] n2_def [symmetric] e2_def [symmetric] r2_def [symmetric]
    by (simp add: power_add mult.assoc mult.commute [of "2 ^ e1"])
qed

lemma times_1_1f_bounds:
  fixes n :: nat
  defines "r \<equiv> fl_trunc (fl_mult 24 (fl_of_nat 24 n) float_1_1)"
  shows "int n \<le> r" and "r \<le> 2 * int n"
proof -
  define e1 r1 where "e1 = bitlen n - 24" and "r1 = round_half_even n e1"
  define n2 e2 where "n2 = r1 * 9227469" and "e2 = bitlen n2 - 24"
  define q1 q2 where "q1 = r1 * 2 ^ e1" and "q2 = round_half_even n2 e2 * 2 ^ e2"
  have r: "r = int (q2 * 2 ^ e1 div 2 ^ 23)"
    unfolding r_def times_1_1f_trunc by (simp add: e1_def r1_def n2_def e2_def q2_def)
  have p24: "(0::nat) < 24" by simp
  note a = round_rel [OF p24 e1_def, folded r1_def, folded q1_def]
  note b = round_rel [OF p24 e2_def, folded q2_def]
  have n2q: "n2 * 2 ^ e1 = q1 * 9227469" by (simp add: n2_def q1_def)
  have lo: "(2 ^ 24 - 1) * (q1 * 9227469) \<le> 2 ^ 24 * (q2 * 2 ^ e1)"
    using mult_le_mono1 [OF b(1), of "2 ^ e1"] by (simp add: n2q [symmetric] mult.assoc)
  have hi: "2 ^ 24 * (q2 * 2 ^ e1) \<le> (2 ^ 24 + 1) * (q1 * 9227469)"
    using mult_le_mono1 [OF b(2), of "2 ^ e1"] by (simp add: n2q [symmetric] mult.assoc)
  have "n * 2 ^ 23 \<le> q2 * 2 ^ e1" and "q2 * 2 ^ e1 \<le> (2 * n) * 2 ^ 23"
    using a lo hi by simp_all
  then show "int n \<le> r" and "r \<le> 2 * int n"
    unfolding r by (simp_all add: less_eq_div_iff_mult_less_eq div_le_mono flip: of_nat_mult)
qed

end
