(* ===== verification/Memory_Pool.thy ===== *)
theory Memory_Pool
  imports Memory_Block
begin

text \<open>
  \<open>StaticMemoryPool\<close> (\<open>example/brpc/memory_pool.hpp\<close>): the pool's fields are the record
  \<open>pool\<close>, every member function is a definition over a pool and the memory. The blocks of a
  pool are a linked list in the heap; each loop over it carries a bound on its iterations, the
  number of live blocks, which only a cyclic list can exceed (the value is then
  \<open>Diverges\<close>). Member functions declared \<open>noexcept\<close> turn an escaping \<open>bad_alloc\<close>
  into \<open>Terminate\<close>.
\<close>

subsection \<open>Cleaner\<close>

record cleaner =
  c_destructor :: addr
  c_pointer :: addr

definition cleaner_move :: "cleaner \<Rightarrow> cleaner \<times> cleaner" where
  "cleaner_move other =
     (\<lparr>c_destructor = c_destructor other, c_pointer = c_pointer other\<rparr>,
      other\<lparr>c_destructor := nullptr, c_pointer := nullptr\<rparr>)"

definition cleaner_dtor :: "cleaner \<Rightarrow> mem \<Rightarrow> mem" where
  "cleaner_dtor c m =
     (if c_destructor c \<noteq> nullptr
      then m\<lparr>dtor_log := dtor_log m @ [(c_destructor c, c_pointer c)]\<rparr> else m)"

definition cleaners_clear :: "cleaner list \<Rightarrow> mem \<Rightarrow> mem" where
  "cleaners_clear cs m = fold cleaner_dtor cs m"

text \<open>When the vector of cleaners grows it moves each element to the new storage and destroys
  the moved-from one.\<close>

fun cleaners_relocate :: "cleaner list \<Rightarrow> mem \<Rightarrow> cleaner list \<times> mem" where
  "cleaners_relocate [] m = ([], m)"
| "cleaners_relocate (c # cs) m =
     (let (c', old) = cleaner_move c; (cs', m') = cleaners_relocate cs (cleaner_dtor old m)
      in (c' # cs', m'))"

subsection \<open>The pool and its private helpers\<close>

record pool =
  p_block_size :: size_t
  p_pos :: size_t
  p_head :: addr
  p_current :: addr
  p_cleaners :: "cleaner list"

fun destroy_blocks :: "nat \<Rightarrow> addr \<Rightarrow> mem \<Rightarrow> mem cxx" where
  "destroy_blocks 0 b m = (if b = nullptr then Inr m else Inl Diverges)"
| "destroy_blocks (Suc k) b m =
     (if b = nullptr then Inr m
      else bind_cxx (lookup_block m b) (\<lambda>blk.
           bind_cxx (MemoryBlock_destroy b m) (\<lambda>m'. destroy_blocks k (next_block blk) m')))"

definition destroy_blocks_start_from :: "addr \<Rightarrow> mem \<Rightarrow> mem cxx" where
  "destroy_blocks_start_from b m = destroy_blocks (length (heap m)) b m"

fun compact_loop :: "nat \<Rightarrow> size_t \<Rightarrow> size_t \<Rightarrow> addr \<Rightarrow> mem \<Rightarrow> (addr \<times> mem) cxx" where
  "compact_loop k block_size cap nb m =
     (if nb \<noteq> nullptr \<and> cap < block_size
      then case k of
             0 \<Rightarrow> Inl Diverges
           | Suc k' \<Rightarrow> bind_cxx (lookup_block m nb) (\<lambda>blk.
               bind_cxx (MemoryBlock_destroy nb m) (\<lambda>m'.
                 compact_loop k' block_size (cap + capacity blk) (next_block blk) m'))
      else Inr (nb, m))"

text \<open>\<open>compact_block\<close> takes a reference to the pointer it may replace; the model returns
  the new pointer.\<close>

definition compact_block :: "new_fun \<Rightarrow> size_t \<Rightarrow> addr \<Rightarrow> mem \<Rightarrow> (addr \<times> mem) cxx" where
  "compact_block nw block_size b m = noexcept_cxx (
     bind_cxx (lookup_block m b) (\<lambda>blk.
       if block_size \<le> capacity blk then Inr (b, m)
       else bind_cxx (compact_loop (length (heap m)) block_size (capacity blk) (next_block blk) m) (\<lambda>(nb, m1).
            bind_cxx (MemoryBlock_destroy b m1) (\<lambda>m2.
            bind_cxx (MemoryBlock_create nw block_size m2) (\<lambda>(b', m3).
            bind_cxx (set_next b' nb m3) (\<lambda>m4. Inr (b', m4)))))))"

definition align_pos :: "size_t \<Rightarrow> size_t \<Rightarrow> size_t" where
  "align_pos align_val pos = (if align_val = 1 then pos else (pos + align_val - 1) AND (- align_val))"

text \<open>\<open>create_buffer_internal\<close> in its three stages: make sure there is a current block; serve
  the request from it if it fits; otherwise from the next block or from a block of its own.\<close>

definition ensure_current :: "new_fun \<Rightarrow> pool \<Rightarrow> mem \<Rightarrow> (pool \<times> mem) cxx" where
  "ensure_current nw P m =
     (if p_current P = nullptr
      then bind_cxx (MemoryBlock_create nw (p_block_size P) m)
             (\<lambda>(b, m'). Inr (P\<lparr>p_current := b, p_head := b\<rparr>, m'))
      else Inr (P, m))"

definition serve_elsewhere ::
  "new_fun \<Rightarrow> size_t \<Rightarrow> mblock \<Rightarrow> pool \<Rightarrow> mem \<Rightarrow> (addr \<times> pool \<times> mem) cxx" where
  "serve_elsewhere nw buffer_size cur P m =
     (if buffer_size \<le> p_block_size P
      then bind_cxx
             (if next_block cur \<noteq> nullptr
              then compact_block nw (p_block_size P) (next_block cur) m
              else MemoryBlock_create nw (p_block_size P) m)
             (\<lambda>(nb, m'). bind_cxx (set_next (p_current P) nb m') (\<lambda>m''.
                Inr (data_of nb, P\<lparr>p_current := nb, p_pos := buffer_size\<rparr>, m'')))
      else bind_cxx (MemoryBlock_create nw buffer_size m) (\<lambda>(b, m').
           bind_cxx (set_next b (p_head P) m') (\<lambda>m''.
           bind_cxx (times_1_1f buffer_size) (\<lambda>g.
             Inr (data_of b, P\<lparr>p_head := b, p_block_size := get_block_size g\<rparr>, m'')))))"

definition create_buffer_internal ::
  "new_fun \<Rightarrow> size_t \<Rightarrow> size_t \<Rightarrow> pool \<Rightarrow> mem \<Rightarrow> (addr \<times> pool \<times> mem) cxx" where
  "create_buffer_internal nw align_val buffer_size P0 m0 =
     bind_cxx (ensure_current nw P0 m0) (\<lambda>(P1, m).
       let P = P1\<lparr>p_pos := align_pos align_val (p_pos P1)\<rparr>
       in bind_cxx (lookup_block m (p_current P)) (\<lambda>cur.
            if buffer_size + p_pos P \<le> capacity cur
            then Inr (data_of (p_current P) + p_pos P, P\<lparr>p_pos := p_pos P + buffer_size\<rparr>, m)
            else serve_elsewhere nw buffer_size cur P m))"

fun sum_until :: "nat \<Rightarrow> mem \<Rightarrow> addr \<Rightarrow> addr \<Rightarrow> size_t \<Rightarrow> size_t cxx" where
  "sum_until k m stop b acc =
     (if b = stop then Inr acc
      else case k of
             0 \<Rightarrow> Inl Diverges
           | Suc k' \<Rightarrow> bind_cxx (lookup_block m b)
               (\<lambda>blk. sum_until k' m stop (next_block blk) (acc + capacity blk)))"

fun keep_until :: "nat \<Rightarrow> mem \<Rightarrow> size_t \<Rightarrow> addr \<Rightarrow> size_t \<Rightarrow> (addr \<times> size_t) cxx" where
  "keep_until k m min_capacity b cap =
     bind_cxx (lookup_block m b) (\<lambda>blk.
       if cap < min_capacity \<and> next_block blk \<noteq> nullptr
       then case k of
              0 \<Rightarrow> Inl Diverges
            | Suc k' \<Rightarrow> bind_cxx (lookup_block m (next_block blk))
                (\<lambda>nb. keep_until k' m min_capacity (next_block blk) (cap + capacity nb))
       else Inr (b, cap))"

fun contain_before :: "nat \<Rightarrow> mem \<Rightarrow> addr \<Rightarrow> addr \<Rightarrow> addr \<Rightarrow> bool cxx" where
  "contain_before k m stop b address =
     (if b = stop then Inr False
      else case k of
             0 \<Rightarrow> Inl Diverges
           | Suc k' \<Rightarrow> bind_cxx (lookup_block m b) (\<lambda>blk.
               if data_of b \<le> address \<and> address < data_of b + capacity blk then Inr True
               else contain_before k' m stop (next_block blk) address))"

subsection \<open>Construction, move, destruction\<close>

definition set_block_size :: "size_t \<Rightarrow> pool \<Rightarrow> pool" where
  "set_block_size block_size P = P\<lparr>p_block_size := get_block_size
     (if block_size < sizeof_MemoryBlock then sizeof_MemoryBlock else block_size - sizeof_MemoryBlock)\<rparr>"

definition StaticMemoryPool :: "size_t \<Rightarrow> pool" where
  "StaticMemoryPool block_size = set_block_size block_size
     \<lparr>p_block_size = 0, p_pos = 0, p_head = nullptr, p_current = nullptr, p_cleaners = []\<rparr>"

definition pool_reset_moved :: "pool \<Rightarrow> pool" where
  "pool_reset_moved other =
     other\<lparr>p_cleaners := [], p_pos := 0, p_head := nullptr, p_current := nullptr\<rparr>"

definition pool_move :: "pool \<Rightarrow> pool \<times> pool" where
  "pool_move other =
     (\<lparr>p_block_size = p_block_size other, p_pos = p_pos other, p_head = p_head other,
       p_current = p_current other, p_cleaners = p_cleaners other\<rparr>,
      pool_reset_moved other)"

definition pool_clear :: "new_fun \<Rightarrow> pool \<Rightarrow> mem \<Rightarrow> (pool \<times> mem) cxx" where
  "pool_clear nw P m =
     (let m1 = cleaners_clear (p_cleaners P) m; P1 = P\<lparr>p_cleaners := []\<rparr>
      in if p_head P1 \<noteq> nullptr
         then bind_cxx (compact_block nw (p_block_size P1) (p_head P1) m1)
                (\<lambda>(h, m2). Inr (P1\<lparr>p_head := h, p_current := h, p_pos := 0\<rparr>, m2))
         else Inr (P1\<lparr>p_pos := 0\<rparr>, m1))"

definition pool_move_assign :: "new_fun \<Rightarrow> pool \<Rightarrow> pool \<Rightarrow> mem \<Rightarrow> (pool \<times> pool \<times> mem) cxx" where
  "pool_move_assign nw this other m =
     bind_cxx (pool_clear nw this m) (\<lambda>(P1, m1).
     bind_cxx (destroy_blocks_start_from (p_head P1) m1) (\<lambda>m2.
       Inr (P1\<lparr>p_block_size := p_block_size other, p_pos := p_pos other, p_head := p_head other,
              p_current := p_current other, p_cleaners := p_cleaners other\<rparr>,
            pool_reset_moved other, m2)))"

definition pool_dtor :: "pool \<Rightarrow> mem \<Rightarrow> mem cxx" where
  "pool_dtor P m = destroy_blocks_start_from (p_head P) (cleaners_clear (p_cleaners P) m)"

subsection \<open>Buffers, strings, objects\<close>

definition create_buffer :: "new_fun \<Rightarrow> size_t \<Rightarrow> pool \<Rightarrow> mem \<Rightarrow> (addr \<times> pool \<times> mem) cxx" where
  "create_buffer nw buffer_size P m = create_buffer_internal nw 1 buffer_size P m"

definition create_aligned_buffer_dyn ::
  "new_fun \<Rightarrow> size_t \<Rightarrow> 16 word \<Rightarrow> pool \<Rightarrow> mem \<Rightarrow> (addr \<times> pool \<times> mem) cxx" where
  "create_aligned_buffer_dyn nw buffer_size align_val P m =
     (let a = ucast align_val :: size_t
      in bind_cxx (create_buffer_internal nw 1 (buffer_size + a) P m) (\<lambda>(buffer, P', m').
           let aligned_buffer = (buffer + a - 1) AND (- a)
           in if data_of (p_current P') + p_pos P' = buffer + (buffer_size + a)
              then Inr (aligned_buffer, P'\<lparr>p_pos := p_pos P' - (a - (aligned_buffer - buffer))\<rparr>, m')
              else Inr (aligned_buffer, P', m')))"

definition create_aligned_buffer ::
  "new_fun \<Rightarrow> 16 word \<Rightarrow> size_t \<Rightarrow> pool \<Rightarrow> mem \<Rightarrow> (addr \<times> pool \<times> mem) cxx" where
  "create_aligned_buffer nw align_val buffer_size P m =
     (if align_val = 1 then create_buffer_internal nw 1 buffer_size P m
      else if align_val = 2 then create_buffer_internal nw 2 buffer_size P m
      else if align_val = 4 then create_buffer_internal nw 4 buffer_size P m
      else if align_val = 8 then create_buffer_internal nw 8 buffer_size P m
      else create_aligned_buffer_dyn nw buffer_size align_val P m)"

text \<open>\<open>memcpy\<close> into the pool: writing outside the data of a live block is an invalid
  access.\<close>

definition valid_range :: "mem \<Rightarrow> addr \<Rightarrow> nat \<Rightarrow> bool" where
  "valid_range m a n \<longleftrightarrow> n = 0 \<or>
     list_ex (\<lambda>(b, blk). unat b + 16 \<le> unat a \<and> unat a + n \<le> unat b + 16 + unat (capacity blk)) (heap m)"

definition memcpy :: "addr \<Rightarrow> byte list \<Rightarrow> mem \<Rightarrow> mem cxx" where
  "memcpy dst src m =
     (if valid_range m dst (length src)
      then Inr (m\<lparr>bytes := \<lambda>x. if unat dst \<le> unat x \<and> unat x < unat dst + length src
                                then src ! (unat x - unat dst) else bytes m x\<rparr>)
      else Inl Invalid_access)"

definition create_buffer_copy ::
  "new_fun \<Rightarrow> byte list \<Rightarrow> pool \<Rightarrow> mem \<Rightarrow> (addr \<times> pool \<times> mem) cxx" where
  "create_buffer_copy nw buffer P m =
     bind_cxx (create_buffer nw (word_of_nat (length buffer)) P m) (\<lambda>(buffer_start, P', m').
     bind_cxx (memcpy buffer_start buffer m') (\<lambda>m''. Inr (buffer_start, P', m'')))"

definition create_cstring_buffer ::
  "new_fun \<Rightarrow> addr \<Rightarrow> byte list \<Rightarrow> pool \<Rightarrow> mem \<Rightarrow> (addr \<times> pool \<times> mem) cxx" where
  "create_cstring_buffer nw empty_cstring c_str P m =
     (if length c_str = 0 then Inr (empty_cstring, P, m)
      else bind_cxx (create_buffer nw (word_of_nat (length c_str) + 1) P m) (\<lambda>(buffer_start, P', m').
           bind_cxx (memcpy buffer_start c_str m') (\<lambda>m''.
           bind_cxx (memcpy (buffer_start + word_of_nat (length c_str)) [0] m'') (\<lambda>m'''.
             Inr (buffer_start, P', m''')))))"

definition create_cstring_view ::
  "new_fun \<Rightarrow> byte list \<Rightarrow> pool \<Rightarrow> mem \<Rightarrow> ((addr \<times> size_t) \<times> pool \<times> mem) cxx" where
  "create_cstring_view nw c_str P m =
     (if length c_str = 0 then Inr ((nullptr, 0), P, m)
      else bind_cxx (create_buffer nw (word_of_nat (length c_str) + 1) P m) (\<lambda>(buffer_start, P', m').
           bind_cxx (memcpy buffer_start c_str m') (\<lambda>m''.
           bind_cxx (memcpy (buffer_start + word_of_nat (length c_str)) [0] m'') (\<lambda>m'''.
             Inr ((buffer_start, word_of_nat (length c_str)), P', m''')))))"

definition create_string_piece ::
  "new_fun \<Rightarrow> addr \<Rightarrow> byte list \<Rightarrow> pool \<Rightarrow> mem \<Rightarrow> ((addr \<times> size_t) \<times> pool \<times> mem) cxx" where
  "create_string_piece nw empty_cstring c_str P m =
     bind_cxx (create_cstring_buffer nw empty_cstring c_str P m)
       (\<lambda>(b, P', m'). Inr ((b, word_of_nat (length c_str)), P', m'))"

text \<open>What \<open>create_object\<close> asks of a C++ type: its size and alignment, whether its
  destructor is trivial, the address of \<open>destruct_object<T>\<close>, whether it is constructible
  with the pool as first argument and with \<open>NeverUsed&\<close> as first argument, and its
  constructor (told whether it receives the pool).\<close>

record cxx_type =
  sizeof_T :: size_t
  alignof_T :: "16 word"
  trivially_destructible :: bool
  destruct_object :: addr
  constructible_with_pool :: bool
  constructible_with_NeverUsed :: bool
  ctor_T :: "bool \<Rightarrow> addr \<Rightarrow> pool \<Rightarrow> mem \<Rightarrow> (pool \<times> mem) cxx"

definition passes_pool :: "cxx_type \<Rightarrow> bool" where
  "passes_pool T \<longleftrightarrow> constructible_with_pool T \<and> \<not> constructible_with_NeverUsed T"

definition register_destructor :: "addr \<Rightarrow> addr \<Rightarrow> pool \<Rightarrow> pool" where
  "register_destructor ptr destructor P =
     P\<lparr>p_cleaners := p_cleaners P @ [\<lparr>c_destructor = destructor, c_pointer = ptr\<rparr>]\<rparr>"

definition register_destructor_T :: "cxx_type \<Rightarrow> addr \<Rightarrow> pool \<Rightarrow> pool" where
  "register_destructor_T T ptr P =
     (if \<not> trivially_destructible T then register_destructor ptr (destruct_object T) P else P)"

definition create_object :: "new_fun \<Rightarrow> cxx_type \<Rightarrow> pool \<Rightarrow> mem \<Rightarrow> (addr \<times> pool \<times> mem) cxx" where
  "create_object nw T P m =
     bind_cxx (create_aligned_buffer nw (alignof_T T) (sizeof_T T) P m) (\<lambda>(buffer, P1, m1).
       let P2 = (if \<not> trivially_destructible T
                 then P1\<lparr>p_cleaners := p_cleaners P1 @ [\<lparr>c_destructor = destruct_object T, c_pointer = buffer\<rparr>]\<rparr>
                 else P1)
       in bind_cxx (ctor_T T (passes_pool T) buffer P2 m1) (\<lambda>(P3, m3). Inr (buffer, P3, m3)))"

subsection \<open>Shrinking and inspection\<close>

definition shrink_to_fit :: "pool \<Rightarrow> mem \<Rightarrow> (pool \<times> mem) cxx" where
  "shrink_to_fit P m =
     (if p_current P \<noteq> nullptr
      then if p_current P = p_head P \<and> p_pos P = 0
           then bind_cxx (destroy_blocks_start_from (p_head P) m)
                  (\<lambda>m'. Inr (P\<lparr>p_head := nullptr, p_current := nullptr\<rparr>, m'))
           else bind_cxx (lookup_block m (p_current P)) (\<lambda>cur.
                bind_cxx (destroy_blocks_start_from (next_block cur) m) (\<lambda>m'.
                bind_cxx (set_next (p_current P) nullptr m') (\<lambda>m''. Inr (P, m''))))
      else Inr (P, m))"

definition shrink_to_fit_min ::
  "new_fun \<Rightarrow> size_t \<Rightarrow> pool \<Rightarrow> mem \<Rightarrow> (size_t \<times> pool \<times> mem) cxx" where
  "shrink_to_fit_min nw min_capacity P m =
     (if p_current P \<noteq> nullptr
      then if min_capacity = 0
           then bind_cxx (pool_clear nw P m) (\<lambda>(P1, m1).
                bind_cxx (destroy_blocks_start_from (p_head P1) m1) (\<lambda>m2.
                  Inr (0, P1\<lparr>p_head := nullptr, p_current := nullptr\<rparr>, m2)))
           else bind_cxx (lookup_block m (p_current P)) (\<lambda>cur.
                bind_cxx (sum_until (length (heap m)) m (p_current P) (p_head P) (capacity cur)) (\<lambda>cap0.
                bind_cxx (keep_until (length (heap m)) m min_capacity (p_current P) cap0) (\<lambda>(b, cap).
                bind_cxx (lookup_block m b) (\<lambda>blk.
                bind_cxx (destroy_blocks_start_from (next_block blk) m) (\<lambda>m'.
                bind_cxx (set_next b nullptr m') (\<lambda>m''. Inr (cap, P, m'')))))))
      else Inr (0, P, m))"

definition block_size :: "pool \<Rightarrow> size_t" where
  "block_size P = p_block_size P"

definition contain :: "pool \<Rightarrow> mem \<Rightarrow> addr \<Rightarrow> bool cxx" where
  "contain P m address =
     bind_cxx (contain_before (length (heap m)) m (p_current P) (p_head P) address) (\<lambda>r.
       if r then Inr True
       else Inr (p_current P \<noteq> nullptr \<and> data_of (p_current P) \<le> address \<and>
                 address < data_of (p_current P) + p_pos P))"

definition pool_size :: "pool \<Rightarrow> mem \<Rightarrow> size_t cxx" where
  "pool_size P m = sum_until (length (heap m)) m (p_current P) (p_head P) (p_pos P)"

definition pool_capacity :: "pool \<Rightarrow> mem \<Rightarrow> size_t cxx" where
  "pool_capacity P m = sum_until (length (heap m)) m nullptr (p_head P) 0"

declare compact_loop.simps [simp del] sum_until.simps [simp del]
  keep_until.simps [simp del] contain_before.simps [simp del]

end
