(* ===== verification/Pool_Heap.thy ===== *)
theory Pool_Heap
  imports Memory_Pool
begin

text \<open>
  Block lists in the heap: the path from a block along its \<open>next\<close> pointers, when the heap is
  well formed, and what the pool's loops (\<open>destroy_blocks_start_from\<close>, \<open>compact_block\<close>,
  the sums) do to a list of blocks.
\<close>

subsection \<open>Definitions\<close>

primrec path :: "(addr \<times> mblock) list \<Rightarrow> addr \<Rightarrow> addr list \<Rightarrow> addr \<Rightarrow> bool" where
  "path h b [] c \<longleftrightarrow> b = c"
| "path h b (x # xs) c \<longleftrightarrow> b = x \<and> x \<noteq> nullptr \<and>
     (case map_of h x of None \<Rightarrow> False | Some blk \<Rightarrow> path h (next_block blk) xs c)"

fun chain_list :: "nat \<Rightarrow> (addr \<times> mblock) list \<Rightarrow> addr \<Rightarrow> addr list" where
  "chain_list 0 h b = []"
| "chain_list (Suc k) h b =
     (if b = nullptr then []
      else case map_of h b of None \<Rightarrow> [] | Some blk \<Rightarrow> b # chain_list k h (next_block blk))"

definition chain_of :: "mem \<Rightarrow> addr \<Rightarrow> addr list" where
  "chain_of m b = chain_list (length (heap m)) (heap m) b"

definition cap_of :: "(addr \<times> mblock) list \<Rightarrow> addr \<Rightarrow> nat" where
  "cap_of h b = (case map_of h b of None \<Rightarrow> 0 | Some blk \<Rightarrow> unat (capacity blk))"

definition block_ok :: "addr \<Rightarrow> mblock \<Rightarrow> bool" where
  "block_ok b blk \<longleftrightarrow> b \<noteq> nullptr \<and> 16 dvd unat b \<and>
     unat b + 16 + unat (capacity blk) < 2 ^ 64 \<and> unat (capacity blk) < 2 ^ 62"

definition heap_ok :: "(addr \<times> mblock) list \<Rightarrow> bool" where
  "heap_ok h \<longleftrightarrow> distinct (map fst h) \<and>
     (\<forall>b blk. map_of h b = Some blk \<longrightarrow> block_ok b blk) \<and>
     (\<forall>b blk c blk'. map_of h b = Some blk \<longrightarrow> map_of h c = Some blk' \<longrightarrow> b \<noteq> c \<longrightarrow>
        block_extent b blk \<inter> block_extent c blk' = {})"

definition first_or_null :: "addr list \<Rightarrow> addr" where
  "first_or_null xs = (case xs of [] \<Rightarrow> nullptr | x # _ \<Rightarrow> x)"

definition without :: "addr set \<Rightarrow> (addr \<times> mblock) list \<Rightarrow> (addr \<times> mblock) list" where
  "without S h = filter (\<lambda>(k, _). k \<notin> S) h"

subsection \<open>Paths\<close>

lemma first_or_null_simps [simp]:
  "first_or_null [] = nullptr" "first_or_null (x # xs) = x"
  by (simp_all add: first_or_null_def)

lemma path_start: "path h b xs nullptr \<Longrightarrow> b = first_or_null xs"
  by (cases xs) auto

lemma path_append: "path h b (xs @ ys) c \<longleftrightarrow> (\<exists>d. path h b xs d \<and> path h d ys c)"
  by (induction xs arbitrary: b) (auto split: option.splits)

lemma path_unique: "path h b xs nullptr \<Longrightarrow> path h b ys nullptr \<Longrightarrow> xs = ys"
proof (induction xs arbitrary: b ys)
  case Nil
  then show ?case by (cases ys) auto
next
  case (Cons x xs)
  then show ?case by (cases ys) (auto split: option.splits)
qed

lemma path_distinct: "path h b xs nullptr \<Longrightarrow> distinct xs"
proof (induction xs arbitrary: b)
  case (Cons x xs)
  then obtain blk where blk: "map_of h x = Some blk" and p: "path h (next_block blk) xs nullptr" and b: "b = x"
    by (auto split: option.splits)
  have "x \<notin> set xs"
  proof
    assume "x \<in> set xs"
    then obtain us vs where xs: "xs = us @ x # vs" by (auto simp: in_set_conv_decomp)
    from p have "path h x (x # vs) nullptr" unfolding xs path_append by auto
    moreover have "path h x (x # xs) nullptr" using Cons.prems b by simp
    ultimately have "x # vs = x # xs" by (rule path_unique)
    then show False using xs by simp
  qed
  then show ?case using Cons.IH [OF p] by simp
qed simp

lemma path_dom: "path h b xs c \<Longrightarrow> x \<in> set xs \<Longrightarrow> map_of h x \<noteq> None \<and> x \<noteq> nullptr"
  by (induction xs arbitrary: b) (auto split: option.splits)

lemma path_cong: "(\<And>x. x \<in> set xs \<Longrightarrow> map_of h' x = map_of h x) \<Longrightarrow> path h' b xs c = path h b xs c"
  by (induction xs arbitrary: b) (auto split: option.splits)

lemma path_length:
  assumes "path h b xs nullptr"
  shows "length xs \<le> length h"
proof -
  have "set xs \<subseteq> fst ` set h"
    using path_dom [OF assms] by (auto simp: map_of_eq_None_iff)
  then have "card (set xs) \<le> card (fst ` set h)" by (intro card_mono) simp_all
  also have "\<dots> \<le> length h" by (metis card_length length_map set_map)
  finally show ?thesis using path_distinct [OF assms] by (simp add: distinct_card)
qed

lemma path_chain_list: "path h b xs nullptr \<Longrightarrow> length xs \<le> k \<Longrightarrow> chain_list k h b = xs"
proof (induction k arbitrary: b xs)
  case (Suc k)
  then show ?case by (cases xs) (auto split: option.splits)
qed simp

lemma path_chain_of: "path (heap m) b xs nullptr \<Longrightarrow> chain_of m b = xs"
  unfolding chain_of_def by (rule path_chain_list [OF _ path_length])

subsection \<open>Heaps\<close>

lemma map_of_without: "map_of (without S h) k = (if k \<in> S then None else map_of h k)"
  by (induction h) (auto simp: without_def)

lemma without_empty [simp]: "without {} h = h"
  by (simp add: without_def)

lemma without_delete: "without S (AList.delete b h) = without (insert b S) h"
  by (induction h) (auto simp: without_def)

lemma delete_without: "AList.delete b (without S h) = without (insert b S) h"
  by (induction h) (auto simp: without_def)

lemma without_without: "without S (without T h) = without (S \<union> T) h"
  by (induction h) (auto simp: without_def)

lemma length_without: "length (without S h) \<le> length h"
  by (simp add: without_def)

lemma heap_ok_block: "heap_ok h \<Longrightarrow> map_of h b = Some blk \<Longrightarrow> block_ok b blk"
  by (simp add: heap_ok_def)

lemma heap_ok_disjoint:
  "heap_ok h \<Longrightarrow> map_of h b = Some blk \<Longrightarrow> map_of h c = Some blk' \<Longrightarrow> b \<noteq> c \<Longrightarrow>
   block_extent b blk \<inter> block_extent c blk' = {}"
  by (simp add: heap_ok_def)

lemma heap_ok_without: "heap_ok h \<Longrightarrow> heap_ok (without S h)"
  by (auto simp: heap_ok_def map_of_without without_def distinct_map_filter split: if_splits)

lemma heap_ok_update_next:
  assumes "heap_ok h" and "map_of h b = Some blk"
  shows "heap_ok (AList.update b (blk\<lparr>next_block := n\<rparr>) h)"
  using assms by (auto simp: heap_ok_def update_conv' distinct_update block_ok_def block_extent_def)

lemma heap_ok_new:
  assumes "heap_ok h" and "block_ok b blk"
    and "\<And>c blk'. map_of h c = Some blk' \<Longrightarrow> block_extent b blk \<inter> block_extent c blk' = {}"
  shows "heap_ok (AList.update b blk h)"
  using assms by (auto simp: heap_ok_def update_conv' distinct_update)

lemma cap_of_Some [simp]: "map_of h b = Some blk \<Longrightarrow> cap_of h b = unat (capacity blk)"
  by (simp add: cap_of_def)

subsection \<open>The loops of the pool\<close>

lemma MemoryBlock_destroy_eq:
  "b \<noteq> nullptr \<Longrightarrow> map_of (heap m) b \<noteq> None \<Longrightarrow>
   MemoryBlock_destroy b m = Inr (m\<lparr>heap := without {b} (heap m)\<rparr>)"
  using delete_without [of b "{}" "heap m"]
  by (auto simp: MemoryBlock_destroy_def lookup_block_def)

lemma set_next_eq:
  "b \<noteq> nullptr \<Longrightarrow> map_of (heap m) b = Some blk \<Longrightarrow>
   set_next b n m = Inr (m\<lparr>heap := AList.update b (blk\<lparr>next_block := n\<rparr>) (heap m)\<rparr>)"
  by (simp add: set_next_def lookup_block_def)

lemma path_ConsD:
  assumes "path h b (x # xs) c"
  obtains blk where "b = x" "x \<noteq> nullptr" "map_of h x = Some blk" "path h (next_block blk) xs c"
  using assms by (auto split: option.splits)

lemma path_without: "set xs \<inter> S = {} \<Longrightarrow> path (without S h) b xs c = path h b xs c"
  by (rule path_cong) (auto simp: map_of_without)

lemma destroy_blocks_eq:
  "path (heap m) b xs nullptr \<Longrightarrow> length xs \<le> k \<Longrightarrow>
   destroy_blocks k b m = Inr (m\<lparr>heap := without (set xs) (heap m)\<rparr>)"
proof (induction xs arbitrary: k b m)
  case Nil
  then show ?case by (cases k) simp_all
next
  case (Cons x xs)
  from Cons.prems(1) obtain blk where b: "b = x" "x \<noteq> nullptr" "map_of (heap m) x = Some blk"
    and p: "path (heap m) (next_block blk) xs nullptr" by (rule path_ConsD)
  obtain k' where k: "k = Suc k'" "length xs \<le> k'" using Cons.prems(2) by (cases k) auto
  have "x \<notin> set xs" using path_distinct [OF Cons.prems(1)] by simp
  then have "path (heap (m\<lparr>heap := without {x} (heap m)\<rparr>)) (next_block blk) xs nullptr"
    using p by (simp add: path_without)
  from Cons.IH [OF this k(2)] show ?case
    using b by (simp add: k MemoryBlock_destroy_eq lookup_block_def without_without)
qed

lemma destroy_blocks_start_from_eq:
  "path (heap m) b xs nullptr \<Longrightarrow>
   destroy_blocks_start_from b m = Inr (m\<lparr>heap := without (set xs) (heap m)\<rparr>)"
  by (simp add: destroy_blocks_start_from_def destroy_blocks_eq path_length)

lemma compact_loop_eq:
  "path (heap m) nb xs nullptr \<Longrightarrow> length xs \<le> k \<Longrightarrow>
   \<exists>ds ys. xs = ds @ ys \<and> compact_loop k bs cap nb m =
     Inr (first_or_null ys, m\<lparr>heap := without (set ds) (heap m)\<rparr>)"
proof (induction xs arbitrary: k nb m cap)
  case Nil
  then show ?case by (subst compact_loop.simps) simp
next
  case (Cons x xs)
  from Cons.prems(1) obtain blk where b: "nb = x" "x \<noteq> nullptr" "map_of (heap m) x = Some blk"
    and p: "path (heap m) (next_block blk) xs nullptr" by (rule path_ConsD)
  obtain k' where k: "k = Suc k'" "length xs \<le> k'" using Cons.prems(2) by (cases k) auto
  show ?case
  proof (cases "cap < bs")
    case False
    then have "compact_loop k bs cap nb m = Inr (first_or_null (x # xs), m\<lparr>heap := without {} (heap m)\<rparr>)"
      using b by (subst compact_loop.simps) simp
    then show ?thesis by (intro exI [of _ "[]"] exI [of _ "x # xs"]) simp
  next
    case True
    let ?m = "m\<lparr>heap := without {x} (heap m)\<rparr>"
    have "x \<notin> set xs" using path_distinct [OF Cons.prems(1)] by simp
    then have "path (heap ?m) (next_block blk) xs nullptr"
      using p by (simp add: path_without)
    from Cons.IH [OF this k(2), of "cap + capacity blk"] obtain ds ys where "xs = ds @ ys"
      and eq: "compact_loop k' bs (cap + capacity blk) (next_block blk) ?m =
        Inr (first_or_null ys, ?m\<lparr>heap := without (set ds) (heap ?m)\<rparr>)" by blast
    have "compact_loop k bs cap nb m = compact_loop k' bs (cap + capacity blk) (next_block blk) ?m"
      using b True by (subst compact_loop.simps) (simp add: k MemoryBlock_destroy_eq lookup_block_def)
    also note eq
    finally show ?thesis using \<open>xs = ds @ ys\<close>
      by (intro exI [of _ "x # ds"] exI [of _ ys]) (simp add: without_without)
  qed
qed

lemma sum_until_eq:
  "path (heap m) b us c \<Longrightarrow> c \<notin> set us \<Longrightarrow> length us \<le> k \<Longrightarrow>
   sum_until k m c b acc = Inr (acc + word_of_nat (\<Sum>u\<leftarrow>us. cap_of (heap m) u))"
proof (induction us arbitrary: k b acc)
  case Nil
  then show ?case by (subst sum_until.simps) simp
next
  case (Cons x xs)
  from Cons.prems(1) obtain blk where b: "b = x" "x \<noteq> nullptr" "map_of (heap m) x = Some blk"
    and p: "path (heap m) (next_block blk) xs c" by (rule path_ConsD)
  obtain k' where k: "k = Suc k'" "length xs \<le> k'" using Cons.prems(3) by (cases k) auto
  from Cons.IH [OF p _ k(2)] Cons.prems(2) b show ?case
    by (subst sum_until.simps) (auto simp: k lookup_block_def add.assoc)
qed

lemma contain_before_eq:
  "path (heap m) b us c \<Longrightarrow> c \<notin> set us \<Longrightarrow> length us \<le> k \<Longrightarrow>
   contain_before k m c b a = Inr (\<exists>u \<in> set us. data_of u \<le> a \<and>
     a < data_of u + word_of_nat (cap_of (heap m) u))"
proof (induction us arbitrary: k b)
  case Nil
  then show ?case by (subst contain_before.simps) simp
next
  case (Cons x xs)
  from Cons.prems(1) obtain blk where b: "b = x" "x \<noteq> nullptr" "map_of (heap m) x = Some blk"
    and p: "path (heap m) (next_block blk) xs c" by (rule path_ConsD)
  obtain k' where k: "k = Suc k'" "length xs \<le> k'" using Cons.prems(3) by (cases k) auto
  from Cons.IH [OF p _ k(2)] Cons.prems(2) b show ?case
    by (subst contain_before.simps) (auto simp: k lookup_block_def)
qed

lemma keep_until_eq:
  "path (heap m) b (b # xs) nullptr \<Longrightarrow> length xs \<le> k \<Longrightarrow>
   \<exists>ks ys. xs = ks @ ys \<and>
     keep_until k m mn b cap = Inr (last (b # ks), cap + word_of_nat (\<Sum>u\<leftarrow>ks. cap_of (heap m) u)) \<and>
     (mn \<le> cap + word_of_nat (\<Sum>u\<leftarrow>ks. cap_of (heap m) u) \<or> ys = [])"
proof (induction xs arbitrary: k b cap)
  case Nil
  then obtain blk where "b \<noteq> nullptr" "map_of (heap m) b = Some blk" "next_block blk = nullptr"
    by (auto split: option.splits)
  then have "keep_until k m mn b cap = Inr (b, cap)"
    by (subst keep_until.simps) (simp add: lookup_block_def)
  then show ?case by simp
next
  case (Cons x xs)
  from Cons.prems(1) obtain blk where b: "b \<noteq> nullptr" "map_of (heap m) b = Some blk"
    and p: "path (heap m) (next_block blk) (x # xs) nullptr" by (rule path_ConsD)
  from p obtain nblk where nb: "next_block blk = x" "x \<noteq> nullptr" "map_of (heap m) x = Some nblk"
    by (rule path_ConsD)
  obtain k' where k: "k = Suc k'" "length xs \<le> k'" using Cons.prems(2) by (cases k) auto
  show ?case
  proof (cases "cap < mn")
    case False
    then have "keep_until k m mn b cap = Inr (b, cap)"
      using b nb by (subst keep_until.simps) (simp add: lookup_block_def)
    then show ?thesis using False by (intro exI [of _ "[]"] exI [of _ "x # xs"]) (simp add: not_less)
  next
    case True
    from Cons.IH [OF p [unfolded nb(1)] k(2), of "cap + capacity nblk"] obtain ks ys where
      xs: "xs = ks @ ys" and
      eq: "keep_until k' m mn x (cap + capacity nblk) =
        Inr (last (x # ks), cap + capacity nblk + word_of_nat (\<Sum>u\<leftarrow>ks. cap_of (heap m) u))" and
      stop: "mn \<le> cap + capacity nblk + word_of_nat (\<Sum>u\<leftarrow>ks. cap_of (heap m) u) \<or> ys = []"
      by blast
    have "keep_until k m mn b cap = keep_until k' m mn x (cap + capacity nblk)"
      using True b nb by (subst keep_until.simps) (simp add: lookup_block_def k)
    with eq stop xs nb show ?thesis
      by (intro exI [of _ "x # ks"] exI [of _ ys]) (simp add: add.assoc)
  qed
qed

end
