(* ===== verification/Pool_Invariant.thy ===== *)
theory Pool_Invariant
  imports Pool_Heap
begin

text \<open>
  The representation invariant of \<open>StaticMemoryPool\<close> and its preservation. A pool owns the
  list of blocks that starts at \<open>_head\<close>; the blocks before \<open>_current_block\<close> are full,
  the current one is used up to \<open>_pos\<close>, the later ones are free. Everything that needs
  fresh memory is proved inside the locale \<open>operator_new\<close>, once for every allocator that
  meets the contract of \<open>operator new\<close>.
\<close>

subsection \<open>Definitions\<close>

text \<open>\<open>_pos\<close> can pass the end of a block whose capacity is no multiple of 8 when it is
  aligned just before a request that goes elsewhere, but never the next multiple of 8.\<close>

definition round_up8 :: "nat \<Rightarrow> nat" where
  "round_up8 n = (n + 7) div 8 * 8"

definition pool_rep :: "pool \<Rightarrow> mem \<Rightarrow> addr list \<Rightarrow> addr list \<Rightarrow> bool" where
  "pool_rep P m us vs \<longleftrightarrow> heap_ok (heap m) \<and> path (heap m) (p_head P) (us @ vs) nullptr \<and>
     unat (p_block_size P) < 2 ^ 62 \<and>
     (case vs of
        [] \<Rightarrow> us = [] \<and> p_current P = nullptr \<and> p_pos P = 0
      | c # _ \<Rightarrow> p_current P = c \<and> unat (p_pos P) \<le> round_up8 (cap_of (heap m) c))"

definition pool_inv :: "pool \<Rightarrow> mem \<Rightarrow> bool" where
  "pool_inv P m \<longleftrightarrow> (\<exists>us vs. pool_rep P m us vs)"

definition data_extent :: "(addr \<times> mblock) list \<Rightarrow> addr \<Rightarrow> nat set" where
  "data_extent h b = {unat b + 16 ..< unat b + 16 + cap_of h b}"

definition region :: "(addr \<times> mblock) list \<Rightarrow> addr list \<Rightarrow> addr \<Rightarrow> nat \<Rightarrow> nat set" where
  "region h us c pos = (\<Union>u \<in> set us. data_extent h u) \<union> {unat c + 16 ..< unat c + 16 + min pos (cap_of h c)}"

definition used_region :: "pool \<Rightarrow> mem \<Rightarrow> nat set" where
  "used_region P m =
     region (heap m) (takeWhile (\<lambda>b. b \<noteq> p_current P) (chain_of m (p_head P))) (p_current P) (unat (p_pos P))"

text \<open>The live blocks a pool does not own.\<close>

definition foreign :: "pool \<Rightarrow> mem \<Rightarrow> addr \<Rightarrow> mblock option" where
  "foreign P m = map_of (heap m) |` (- set (chain_of m (p_head P)))"

text \<open>What a caller gets from an allocation: a range of live pool memory that was not in use
  before, while everything in use stays in use and no block of anyone else is touched.\<close>

definition fresh_buffer :: "pool \<Rightarrow> mem \<Rightarrow> addr \<Rightarrow> nat \<Rightarrow> pool \<Rightarrow> mem \<Rightarrow> bool" where
  "fresh_buffer P m p n P' m' \<longleftrightarrow>
     unat p + n < 2 ^ 64 \<and> valid_range m' p n \<and> extent p n \<subseteq> used_region P' m' \<and>
     extent p n \<inter> used_region P m = {} \<and> used_region P m \<subseteq> used_region P' m' \<and>
     bytes m' = bytes m \<and> dtor_log m' = dtor_log m \<and> p_cleaners P' = p_cleaners P \<and>
     foreign P' m' = foreign P m"

subsection \<open>Arithmetic of positions\<close>

lemma round_up8_ge: "n \<le> round_up8 n"
  by (simp add: round_up8_def)

lemma round_up8_le: "round_up8 n \<le> n + 7"
  by (simp add: round_up8_def)

lemma ceil_le_round_up8:
  assumes "a \<in> {1, 2, 4, 8 :: nat}" and "p \<le> round_up8 c"
  shows "(p + a - 1) div a * a \<le> round_up8 c"
proof -
  have "(p + a - 1) div a * a \<le> (p + 7) div 8 * 8"
    using assms(1) by (auto simp: mult.commute)
  also have "\<dots> \<le> round_up8 c" using assms(2) by (simp add: round_up8_def)
  finally show ?thesis .
qed

lemma align_pos_props:
  assumes a: "a \<in> {1, 2, 4, 8}" and p: "unat p \<le> round_up8 c" and c: "c < 2 ^ 62"
  shows "unat p \<le> unat (align_pos a p)" and "unat (align_pos a p) \<le> round_up8 c"
    and "unat a dvd unat (align_pos a p)"
proof -
  have "unat p < 2 ^ 63" using p c round_up8_le [of c] by simp
  have "unat (align_pos a p) = (unat p + unat a - 1) div unat a * unat a"
    if "a = 2 ^ k" "k \<in> {1, 2, 3}" for k
    using that \<open>unat p < 2 ^ 63\<close> unat_align_up [of a k p] by (auto simp: align_pos_def align_up_def)
  from this [of 1] this [of 2] this [of 3] a
  have eq: "unat (align_pos a p) = (unat p + unat a - 1) div unat a * unat a"
    by (auto simp: align_pos_def)
  have ua: "unat a \<in> {1, 2, 4, 8}" using a by auto
  show "unat (align_pos a p) \<le> round_up8 c" unfolding eq by (rule ceil_le_round_up8 [OF ua p])
  show "unat p \<le> unat (align_pos a p)" unfolding eq using ua by auto
  show "unat a dvd unat (align_pos a p)" by (simp add: eq)
qed

subsection \<open>Representation\<close>

lemma pool_rep_path: "pool_rep P m us vs \<Longrightarrow> path (heap m) (p_head P) (us @ vs) nullptr"
  by (simp add: pool_rep_def)

lemma pool_rep_heap: "pool_rep P m us vs \<Longrightarrow> heap_ok (heap m)"
  by (simp add: pool_rep_def)

lemma pool_rep_chain: "pool_rep P m us vs \<Longrightarrow> chain_of m (p_head P) = us @ vs"
  by (rule path_chain_of) (rule pool_rep_path)

lemma pool_rep_foreign: "pool_rep P m us vs \<Longrightarrow> foreign P m = map_of (heap m) |` (- set (us @ vs))"
  by (simp add: foreign_def pool_rep_chain)

lemma pool_rep_before: "pool_rep P m us vs \<Longrightarrow> takeWhile (\<lambda>b. b \<noteq> p_current P) (us @ vs) = us"
proof (cases vs)
  case Nil
  then show "pool_rep P m us vs \<Longrightarrow> ?thesis" by (simp add: pool_rep_def)
next
  case (Cons c ws)
  assume rep: "pool_rep P m us vs"
  then have "p_current P = c" by (simp add: Cons pool_rep_def)
  moreover have "c \<notin> set us" using path_distinct [OF pool_rep_path [OF rep]] by (auto simp: Cons)
  ultimately show ?thesis by (simp add: Cons takeWhile_before)
qed

lemma pool_rep_used:
  "pool_rep P m us vs \<Longrightarrow> used_region P m = region (heap m) us (p_current P) (unat (p_pos P))"
  by (simp add: used_region_def pool_rep_chain pool_rep_before)

lemma pool_rep_current:
  assumes "pool_rep P m us vs" and "p_current P \<noteq> nullptr"
  obtains ws blk where "vs = p_current P # ws" "map_of (heap m) (p_current P) = Some blk"
    "path (heap m) (next_block blk) ws nullptr" "unat (p_pos P) \<le> round_up8 (unat (capacity blk))"
proof -
  obtain c ws where vs: "vs = c # ws" using assms by (cases vs) (auto simp: pool_rep_def)
  have c: "p_current P = c" using assms by (simp add: pool_rep_def vs)
  obtain d where "path (heap m) d (c # ws) nullptr"
    using pool_rep_path [OF assms(1)] by (auto simp: vs path_append)
  then obtain blk where "map_of (heap m) c = Some blk" "path (heap m) (next_block blk) ws nullptr"
    by (rule path_ConsD)
  moreover have "unat (p_pos P) \<le> round_up8 (cap_of (heap m) c)"
    using assms(1) by (simp add: pool_rep_def vs)
  ultimately show ?thesis using that [of ws blk] by (simp add: vs c)
qed

lemma pool_rep_null:
  assumes rep: "pool_rep P m us vs" and cur: "p_current P = nullptr"
  shows "us = []" and "vs = []" and "p_head P = nullptr" and "p_pos P = 0"
proof -
  have "vs = []"
  proof (cases vs)
    case (Cons c ws)
    then have "c \<noteq> nullptr" using path_dom [OF pool_rep_path [OF rep], of c] by simp
    then show ?thesis using rep cur by (simp add: pool_rep_def Cons)
  qed
  then show "vs = []" "us = []" "p_head P = nullptr" "p_pos P = 0"
    using rep by (auto simp: pool_rep_def)
qed

lemma data_extent_disjoint:
  assumes "heap_ok h" "map_of h b = Some blk" "map_of h c = Some blk'" "b \<noteq> c"
  shows "data_extent h b \<inter> data_extent h c = {}"
  using heap_ok_disjoint [OF assms] assms(2,3)
  by (auto simp: data_extent_def block_extent_def extent_def)

lemma data_extent_cong: "map_of h' u = map_of h u \<Longrightarrow> data_extent h' u = data_extent h u"
  by (simp add: data_extent_def cap_of_def)

lemma data_extent_next:
  "map_of h b = Some blk \<Longrightarrow>
   data_extent (AList.update b (blk\<lparr>next_block := n\<rparr>) h) u = data_extent h u"
  by (auto simp: data_extent_def cap_of_def update_conv')

lemma region_part_subset: "{unat c + 16 ..< unat c + 16 + min p (cap_of h c)} \<subseteq> data_extent h c"
  by (auto simp: data_extent_def)

lemma valid_range_block:
  "map_of (heap m) b = Some blk \<Longrightarrow> unat b + 16 \<le> unat a \<Longrightarrow>
   unat a + n \<le> unat b + 16 + unat (capacity blk) \<Longrightarrow> valid_range m a n"
  by (auto simp: valid_range_def list_ex_iff dest: map_of_SomeD)

lemma unat_data_of: "block_ok b blk \<Longrightarrow> unat (data_of b) = unat b + 16"
  by (simp add: data_of_def block_ok_def unat_add_ok)

subsection \<open>Allocation\<close>

context operator_new
begin

lemma MemoryBlock_create_post:
  assumes ok: "heap_ok (heap m)" and cap: "unat cap < 2 ^ 62"
  shows "post_cxx {Bad_alloc} (\<lambda>(b, m'). map_of (heap m) b = None \<and> b \<noteq> nullptr \<and>
      m' = m\<lparr>heap := AList.update b \<lparr>capacity = cap, next_block = nullptr\<rparr> (heap m)\<rparr> \<and>
      heap_ok (heap m')) (MemoryBlock_create nw cap m)"
proof (cases "nw m (sizeof_MemoryBlock + cap)")
  case None
  then show ?thesis by (simp add: MemoryBlock_create_def)
next
  case (Some b)
  let ?blk = "\<lparr>capacity = cap, next_block = nullptr\<rparr>"
  have n: "unat (sizeof_MemoryBlock + cap) = 16 + unat cap"
    using cap by (subst unat_add_ok) simp_all
  have blk: "block_ok b ?blk"
    using new_nonnull [OF Some] new_aligned [OF Some] new_bound [OF Some] cap
    by (simp add: block_ok_def n)
  have dis: "block_extent b ?blk \<inter> block_extent c blk' = {}" if "map_of (heap m) c = Some blk'" for c blk'
    using new_disjoint [OF Some that] by (simp add: n block_extent_def)
  have "map_of (heap m) b = None"
    using dis [of b] by (cases "map_of (heap m) b") (auto simp: block_extent_def extent_def)
  then show ?thesis
    using Some new_nonnull [OF Some] heap_ok_new [OF ok blk dis]
    by (simp add: MemoryBlock_create_def)
qed

lemma compact_block_post:
  assumes ok: "heap_ok (heap m)" and p: "path (heap m) b (b # xs) nullptr" and bs: "unat bs < 2 ^ 62"
  shows "post_cxx {Terminate} (\<lambda>(b', m'). \<exists>ds ys h'. xs = ds @ ys \<and> m' = m\<lparr>heap := h'\<rparr> \<and> heap_ok h' \<and>
      path h' b' (b' # ys) nullptr \<and> unat bs \<le> cap_of h' b' \<and>
      map_of h' |` (- set (b' # ys)) = map_of (heap m) |` (- set (b # xs)))
    (compact_block nw bs b m)" (is "post_cxx _ ?Q _")
proof -
  from p obtain blk where b: "b \<noteq> nullptr" "map_of (heap m) b = Some blk"
    and px: "path (heap m) (next_block blk) xs nullptr" by (rule path_ConsD)
  have dist: "distinct (b # xs)" by (rule path_distinct [OF p])
  show ?thesis
  proof (cases "bs \<le> capacity blk")
    case True
    then have "compact_block nw bs b m = Inr (b, m)" using b by (simp add: compact_block_def lookup_block_def)
    then show ?thesis using ok p b True
      by (simp only: post_Inr prod.case)
        (rule exI [of _ "[]"], rule exI [of _ xs], rule exI [of _ "heap m"], auto simp: word_le_nat_alt)
  next
    case False
    obtain ds ys where xs: "xs = ds @ ys" and loop: "compact_loop (length (heap m)) bs (capacity blk) (next_block blk) m =
        Inr (first_or_null ys, m\<lparr>heap := without (set ds) (heap m)\<rparr>)"
      using compact_loop_eq [OF px path_length [OF px]] by blast
    define m2 where "m2 = m\<lparr>heap := without (insert b (set ds)) (heap m)\<rparr>"
    have ok2: "heap_ok (heap m2)" by (simp add: m2_def heap_ok_without ok)
    have bds: "b \<notin> set ds" using dist xs by auto
    have "path (heap m) (first_or_null ys) ys nullptr"
      using px path_start unfolding xs path_append by metis
    then have py: "path (heap m2) (first_or_null ys) ys nullptr"
      using dist xs unfolding m2_def by (simp, subst path_without) auto
    let ?f = "\<lambda>(b', m3). bind_cxx (set_next b' (first_or_null ys) m3) (\<lambda>m4. Inr (b', m4))"
    have "compact_block nw bs b m = noexcept_cxx (bind_cxx (MemoryBlock_create nw bs m2) ?f)"
      using b False bds loop
      by (simp add: compact_block_def lookup_block_def MemoryBlock_destroy_eq map_of_without
          without_without m2_def)
    moreover have "post_cxx {Bad_alloc} ?Q (bind_cxx (MemoryBlock_create nw bs m2) ?f)"
    proof (rule post_bind [OF MemoryBlock_create_post [OF ok2 bs]])
      fix x
      let ?blk = "\<lparr>capacity = bs, next_block = nullptr\<rparr>"
      let ?h = "\<lambda>b'. AList.update b' ?blk (heap m2)"
      let ?h' = "\<lambda>b'. AList.update b' (?blk\<lparr>next_block := first_or_null ys\<rparr>) (?h b')"
      assume "case x of (b', m') \<Rightarrow> map_of (heap m2) b' = None \<and> b' \<noteq> nullptr \<and>
        m' = m2\<lparr>heap := ?h b'\<rparr> \<and> heap_ok (heap m')"
      then obtain b' where b': "map_of (heap m2) b' = None" "b' \<noteq> nullptr"
        and x: "x = (b', m2\<lparr>heap := ?h b'\<rparr>)" and okh: "heap_ok (?h b')" by (cases x) auto
      have sn: "set_next b' (first_or_null ys) (m2\<lparr>heap := ?h b'\<rparr>) = Inr (m2\<lparr>heap := ?h' b'\<rparr>)"
        using b' by (subst set_next_eq [where blk = ?blk]) (simp_all add: update_conv')
      have "heap_ok (?h' b')" by (rule heap_ok_update_next [OF okh]) (simp add: update_conv')
      moreover have "b' \<notin> set ys" using path_dom [OF py, of b'] b'(1) by auto
      then have "path (?h' b') (first_or_null ys) ys nullptr"
        using py by (subst path_cong [where h = "heap m2"]) (auto simp: update_conv')
      then have "path (?h' b') b' (b' # ys) nullptr" using b' by (simp add: update_conv')
      moreover have "unat bs \<le> cap_of (?h' b') b'" by (simp add: cap_of_def update_conv')
      moreover have "map_of (?h' b') |` (- set (b' # ys)) = map_of (heap m) |` (- set (b # xs))"
        using b'(1) xs by (auto simp: m2_def map_of_without update_conv' restrict_map_def fun_eq_iff split: if_splits)
      moreover have "m2\<lparr>heap := ?h' b'\<rparr> = m\<lparr>heap := ?h' b'\<rparr>" by (simp add: m2_def)
      ultimately show "post_cxx {Bad_alloc} ?Q (?f x)"
        unfolding x prod.case sn bind_cxx_Inr post_Inr
        by (intro exI [of _ ds] exI [of _ ys] exI [of _ "?h' b'"] conjI xs) blast+
    qed
    ultimately show ?thesis by (simp only:) (rule post_noexcept)
  qed
qed

end

end
