(* ===== verification/Pool_Alloc.thy ===== *)
theory Pool_Alloc
  imports Pool_Invariant
begin

text \<open>
  Allocation keeps the representation invariant and hands out fresh memory: the three ways
  \<open>create_buffer_internal\<close> can serve a request (from the current block, from the next block,
  from a block of its own) and the aligned variants built on it.
\<close>

lemma foreign_pos [simp]: "foreign (P\<lparr>p_pos := q\<rparr>) m = foreign P m"
  by (simp add: foreign_def)

lemma region_cong:
  "(\<And>u. u \<in> set us \<Longrightarrow> cap_of h' u = cap_of h u) \<Longrightarrow> cap_of h' c = cap_of h c \<Longrightarrow>
   region h' us c pos = region h us c pos"
  by (auto simp: region_def data_extent_def)

lemma region_mono_pos: "p \<le> q \<Longrightarrow> region h us c p \<subseteq> region h us c q"
  by (auto simp: region_def)

lemma region_part_eq:
  "map_of h c = Some blk \<Longrightarrow> p \<le> unat (capacity blk) \<Longrightarrow>
   region h us c p = (\<Union>u \<in> set us. data_extent h u) \<union> {unat c + 16 ..< unat c + 16 + p}"
  by (simp add: region_def min_def)

lemma cap_of_update_next:
  "map_of h b = Some blk \<Longrightarrow> cap_of (AList.update b (blk\<lparr>next_block := n\<rparr>) h) u = cap_of h u"
  by (auto simp: cap_of_def update_conv')

lemma before_disjoint_current:
  assumes rep: "pool_rep P m us (c # ws)" and u: "u \<in> set us"
  shows "data_extent (heap m) u \<inter> data_extent (heap m) c = {}"
proof -
  have dist: "distinct (us @ c # ws)" by (rule path_distinct [OF pool_rep_path [OF rep]])
  obtain bu where "map_of (heap m) u = Some bu"
    using path_dom [OF pool_rep_path [OF rep], of u] u by auto
  moreover obtain bc where "map_of (heap m) c = Some bc"
    using path_dom [OF pool_rep_path [OF rep], of c] by auto
  moreover have "u \<noteq> c" using dist u by auto
  ultimately show ?thesis by (rule data_extent_disjoint [OF pool_rep_heap [OF rep]])
qed

lemma bump_current:
  assumes rep: "pool_rep P m us vs" and c: "p_current P \<noteq> nullptr"
    and blk: "map_of (heap m) (p_current P) = Some blk"
    and pos: "unat (p_pos P) \<le> unat q" and fits: "unat q + unat n \<le> unat (capacity blk)"
  shows "pool_rep (P\<lparr>p_pos := q + n\<rparr>) m us vs"
    and "unat (data_of (p_current P) + q) = unat (p_current P) + 16 + unat q"
    and "fresh_buffer P m (data_of (p_current P) + q) (unat n) (P\<lparr>p_pos := q + n\<rparr>) m"
proof -
  let ?P = "P\<lparr>p_pos := q + n\<rparr>"
  obtain ws where vs: "vs = p_current P # ws" by (rule pool_rep_current [OF rep c])
  have bok: "block_ok (p_current P) blk" by (rule heap_ok_block [OF pool_rep_heap [OF rep] blk])
  then have cap: "unat (p_current P) + 16 + unat (capacity blk) < 2 ^ 64" by (simp add: block_ok_def)
  have qn: "unat (q + n) = unat q + unat n" using fits cap by (intro unat_add_ok) simp
  show rep': "pool_rep ?P m us vs"
    using rep fits round_up8_ge [of "unat (capacity blk)"] blk by (simp add: pool_rep_def vs qn)
  show a: "unat (data_of (p_current P) + q) = unat (p_current P) + 16 + unat q"
    using fits cap unat_data_of [OF bok] by (subst unat_add_ok) simp_all
  have used: "used_region ?P m = region (heap m) us (p_current P) (unat q + unat n)"
    using pool_rep_used [OF rep'] qn by simp
  have dis: "data_extent (heap m) u \<inter> {unat (p_current P) + 16 + unat q ..< unat (p_current P) + 16 + unat q + unat n} = {}"
    if "u \<in> set us" for u
    using before_disjoint_current [OF rep [unfolded vs] that] fits blk by (auto simp: data_extent_def)
  show "fresh_buffer P m (data_of (p_current P) + q) (unat n) ?P m"
    unfolding fresh_buffer_def a extent_def used pool_rep_used [OF rep]
    using fits cap pos blk dis a
    by (auto simp: region_def intro!: valid_range_block)
qed

text \<open>Moving on to another block: \<open>h'\<close> differs from the heap only after the current block.\<close>

lemma advance_current:
  assumes rep: "pool_rep P m us (c # ws)" and m': "m' = m\<lparr>heap := h'\<rparr>" and ok: "heap_ok h'"
    and nb: "path h' nb (nb # ys) nullptr" "unat n \<le> cap_of h' nb"
    and rest: "map_of h' |` (- set (nb # ys)) = map_of (heap m) |` (- set ws)"
  shows "post_cxx {} (\<lambda>m''. let P' = P\<lparr>p_current := nb, p_pos := n\<rparr> in
      pool_rep P' m'' (us @ [c]) (nb # ys) \<and> 8 dvd unat (data_of nb) \<and>
      fresh_buffer P m (data_of nb) (unat n) P' m'') (set_next c nb m')"
proof -
  let ?P = "P\<lparr>p_current := nb, p_pos := n\<rparr>"
  have pm: "path (heap m) (p_head P) (us @ c # ws) nullptr" by (rule pool_rep_path [OF rep])
  have keep: "k \<noteq> nb \<and> k \<notin> set ys \<and> map_of h' k = map_of (heap m) k" if k: "k \<in> set (us @ [c])" for k
    using fun_cong [OF rest, of k] path_dom [OF pm, of k] path_distinct [OF pm] k
    by (auto simp: restrict_map_def split: if_splits)
  from pm obtain cblk where c: "c \<noteq> nullptr" "map_of (heap m) c = Some cblk" using path_dom [OF pm, of c] by auto
  then have c': "map_of h' c = Some cblk" using keep by simp
  define h where "h = AList.update c (cblk\<lparr>next_block := nb\<rparr>) h'"
  define m'' where "m'' = m\<lparr>heap := h\<rparr>"
  have sn: "set_next c nb m' = Inr m''" using c c' by (simp add: set_next_eq m' m''_def h_def)
  have okh: "heap_ok h" unfolding h_def by (rule heap_ok_update_next [OF ok c'])
  have cnot: "c \<notin> set us" using path_distinct [OF pm] by simp
  have "path (heap m) (p_head P) us c" using pm by (auto simp: path_append)
  then have pus: "path h (p_head P) us c"
    using keep cnot unfolding h_def by (subst path_cong [where h = "heap m"]) (auto simp: update_conv')
  have pnb: "path h nb (nb # ys) nullptr"
    using nb(1) keep [of c] unfolding h_def by (subst path_cong [where h = h']) (auto simp: update_conv')
  have pall: "path h (p_head P) ((us @ [c]) @ (nb # ys)) nullptr"
    using pus pnb c by (simp add: path_append h_def update_conv' del: path.simps(2)) (simp add: h_def update_conv')
  have caps: "cap_of h u = cap_of h' u" for u unfolding h_def by (rule cap_of_update_next [OF c'])
  have capk: "cap_of h u = cap_of (heap m) u" if "u \<in> set (us @ [c])" for u
    using keep [OF that] by (simp add: caps) (simp add: cap_of_def)
  have rep': "pool_rep ?P m'' (us @ [c]) (nb # ys)"
    using rep okh pall nb(2) round_up8_ge [of "cap_of h' nb"]
    by (simp add: pool_rep_def m''_def caps)
  obtain nblk where nblk: "map_of h nb = Some nblk" using path_dom [OF pnb, of nb] by auto
  have nok: "block_ok nb nblk" by (rule heap_ok_block [OF okh nblk])
  have un: "unat (data_of nb) = unat nb + 16" by (rule unat_data_of [OF nok])
  have ncap: "unat n \<le> unat (capacity nblk)" using nb(2) nblk by (simp add: caps [symmetric])
  have dis: "data_extent h u \<inter> {unat nb + 16 ..< unat nb + 16 + unat n} = {}" if "u \<in> set (us @ [c])" for u
    using before_disjoint_current [OF rep' that] ncap nblk by (auto simp: m''_def data_extent_def)
  have sub: "region (heap m) us c (unat (p_pos P)) \<subseteq> (\<Union>u \<in> set (us @ [c]). data_extent h u)"
    using capk by (auto simp: region_def data_extent_def)
  have cur: "p_current P = c" using rep by (simp add: pool_rep_def)
  have dj: "{unat nb + 16 ..< unat nb + 16 + unat n} \<inter> used_region P m = {}"
    using sub dis unfolding pool_rep_used [OF rep] cur by blast
  have used': "used_region ?P m'' = (\<Union>u \<in> set (us @ [c]). data_extent h u) \<union> {unat nb + 16 ..< unat nb + 16 + unat n}"
    using nblk ncap by (simp only: pool_rep_used [OF rep'], subst region_part_eq) (simp_all add: m''_def)
  have "valid_range m'' (data_of nb) (unat n)"
    using ncap un nblk by (intro valid_range_block [where b = nb and blk = nblk]) (simp_all add: m''_def)
  moreover have "foreign ?P m'' = foreign P m"
  proof
    fix x
    show "foreign ?P m'' x = foreign P m x"
      using fun_cong [OF rest, of x] unfolding pool_rep_foreign [OF rep] pool_rep_foreign [OF rep']
      by (auto simp: restrict_map_def m''_def h_def update_conv' split: if_splits)
  qed
  ultimately have "fresh_buffer P m (data_of nb) (unat n) ?P m''"
    unfolding fresh_buffer_def un extent_def used'
    using nok ncap dj sub unfolding pool_rep_used [OF rep] cur
    by (simp add: block_ok_def m''_def le_supI1)
  moreover have "8 dvd unat (data_of nb)" using nok un by (auto simp: block_ok_def)
  ultimately show ?thesis using rep' by (simp add: sn)
qed

lemma push_front:
  assumes rep: "pool_rep P m us (c # ws)" and b: "map_of (heap m) b = None" "b \<noteq> nullptr"
    and ok: "heap_ok (AList.update b \<lparr>capacity = n, next_block = nullptr\<rparr> (heap m))" (is "heap_ok ?h")
    and bs: "unat bs < 2 ^ 62"
  shows "post_cxx {} (\<lambda>m''. let P' = P\<lparr>p_head := b, p_block_size := bs\<rparr> in
      pool_rep P' m'' (b # us) (c # ws) \<and> 8 dvd unat (data_of b) \<and>
      fresh_buffer P m (data_of b) (unat n) P' m'') (set_next b (p_head P) (m\<lparr>heap := ?h\<rparr>))"
proof -
  let ?P = "P\<lparr>p_head := b, p_block_size := bs\<rparr>" and ?blk = "\<lparr>capacity = n, next_block = nullptr\<rparr>"
  define h where "h = AList.update b (?blk\<lparr>next_block := p_head P\<rparr>) ?h"
  define m'' where "m'' = m\<lparr>heap := h\<rparr>"
  have bm: "map_of ?h b = Some ?blk" by (simp add: update_conv')
  have sn: "set_next b (p_head P) (m\<lparr>heap := ?h\<rparr>) = Inr m''"
    using b bm by (simp add: set_next_eq [where blk = ?blk] m''_def h_def)
  have okh: "heap_ok h" unfolding h_def by (rule heap_ok_update_next [OF ok bm])
  have hb: "map_of h b = Some (?blk\<lparr>next_block := p_head P\<rparr>)" by (simp add: h_def update_conv')
  note pm = pool_rep_path [OF rep]
  have bn: "b \<notin> set (us @ c # ws)" using path_dom [OF pm, of b] b(1) by auto
  have hk: "map_of h k = map_of (heap m) k" if "k \<in> set (us @ c # ws)" for k
    using that bn by (auto simp: h_def update_conv')
  then have "path h (p_head P) (us @ c # ws) nullptr"
    using pm hk by (subst path_cong [where h = "heap m"])
  then have pall: "path h b (b # us @ c # ws) nullptr" using b hb by simp
  have cap: "cap_of h u = cap_of (heap m) u" if "u \<in> set (us @ c # ws)" for u
    using hk [OF that] by (simp add: cap_of_def)
  have rep': "pool_rep ?P m'' (b # us) (c # ws)"
    using rep okh pall bs cap [of c] by (simp add: pool_rep_def m''_def)
  have nok: "block_ok b (?blk\<lparr>next_block := p_head P\<rparr>)" by (rule heap_ok_block [OF okh hb])
  have un: "unat (data_of b) = unat b + 16" by (rule unat_data_of [OF nok])
  have capb: "cap_of h b = unat n" using hb by simp
  have cur: "p_current P = c" using rep by (simp add: pool_rep_def)
  have used': "used_region ?P m'' = {unat b + 16 ..< unat b + 16 + unat n} \<union> used_region P m"
    using cap capb unfolding pool_rep_used [OF rep] pool_rep_used [OF rep']
    by (auto simp: region_def m''_def data_extent_def cur)
  have dis: "data_extent h u \<inter> data_extent h b = {}" if u: "u \<in> set (us @ c # ws)" for u
  proof -
    obtain bu where "map_of (heap m) u = Some bu" using path_dom [OF pm u] by auto
    with hk [OF u] have "map_of h u = Some bu" by simp
    then show ?thesis using bn u by (intro data_extent_disjoint [OF okh _ hb]) auto
  qed
  have "used_region P m \<subseteq> (\<Union>u \<in> set (us @ [c]). data_extent h u)"
    using cap unfolding pool_rep_used [OF rep] by (auto simp: region_def data_extent_def cur)
  with dis have "{unat b + 16 ..< unat b + 16 + unat n} \<inter> used_region P m = {}"
    unfolding data_extent_def [of h b] capb by fastforce
  moreover have "foreign ?P m'' = foreign P m"
    using b(1) unfolding pool_rep_foreign [OF rep] pool_rep_foreign [OF rep']
    by (auto simp: restrict_map_def fun_eq_iff m''_def h_def update_conv')
  ultimately have "fresh_buffer P m (data_of b) (unat n) ?P m''"
    unfolding fresh_buffer_def un extent_def used'
    using nok un hb by (auto simp: block_ok_def m''_def intro!: valid_range_block [where b = b])
  moreover have "8 dvd unat (data_of b)" using nok un by (auto simp: block_ok_def)
  ultimately show ?thesis using rep' by (simp add: sn)
qed

lemma grow_block_size:
  assumes "unat n \<le> 2 ^ 60"
  obtains g where "times_1_1f n = Inr g" and "unat n \<le> unat (get_block_size g)"
    and "unat (get_block_size g) < 2 ^ 62"
proof -
  define N r where "N = unat n" and "r = fl_trunc (fl_mult 24 (fl_of_nat 24 N) float_1_1)"
  have b: "int N \<le> r" "r \<le> 2 * int N" unfolding r_def by (rule times_1_1f_bounds)+
  have N: "N \<le> 2 ^ 60" using assms by (simp add: N_def)
  have lt: "r < 2 ^ 64" using b(2) N by simp
  define g where "g = (word_of_int r :: size_t)"
  define k where "k = nat r + 16"
  have g: "unat g = nat r"
    using unat_word_of_nat_64 [of "nat r"] lt b(1) by (simp add: g_def)
  have le: "N \<le> nat r" "nat r \<le> 2 ^ 61" using b N by simp_all
  have "unat g + 16 + 4096 < 2 ^ 64" using le by (simp add: g)
  note u = get_block_size_unat [OF this, unfolded g, folded k_def]
  have "0 < k" by (simp add: k_def)
  then obtain j where j: "bitlen k = Suc j" "2 ^ j \<le> k" "k < 2 * 2 ^ j"
    using bitlen_bounds [of k] bitlen_pos [of k] by (cases "bitlen k") auto
  have "k \<le> unat (get_block_size g) + 16" and "unat (get_block_size g) + 16 \<le> k + 4096"
    unfolding u using j by auto
  moreover have "times_1_1f n = Inr g" using lt by (simp add: times_1_1f_def Let_def g_def r_def N_def)
  ultimately show ?thesis
    using that [of g] le by (simp add: N_def k_def)
qed

context operator_new
begin

lemma ensure_current_post:
  assumes rep: "pool_rep P m us vs"
  shows "post_cxx {Bad_alloc} (\<lambda>(P1, m1). \<exists>vs1. pool_rep P1 m1 us vs1 \<and> p_current P1 \<noteq> nullptr \<and>
      used_region P1 m1 = used_region P m \<and> bytes m1 = bytes m \<and> dtor_log m1 = dtor_log m \<and>
      p_cleaners P1 = p_cleaners P \<and> foreign P1 m1 = foreign P m)
    (ensure_current nw P m)" (is "post_cxx _ ?Q _")
proof (cases "p_current P = nullptr")
  case False
  then show ?thesis using rep by (auto simp: ensure_current_def)
next
  case True
  note null = pool_rep_null [OF rep True]
  have bs: "unat (p_block_size P) < 2 ^ 62" using rep by (simp add: pool_rep_def)
  have emp: "used_region P m = {}" using pool_rep_used [OF rep] null by (simp add: region_def)
  show ?thesis unfolding ensure_current_def if_P [OF True]
  proof (rule post_bind [OF MemoryBlock_create_post [OF pool_rep_heap [OF rep] bs]])
    fix x
    let ?blk = "\<lparr>capacity = p_block_size P, next_block = nullptr\<rparr>"
    assume "case x of (b, m') \<Rightarrow> map_of (heap m) b = None \<and> b \<noteq> nullptr \<and>
        m' = m\<lparr>heap := AList.update b ?blk (heap m)\<rparr> \<and> heap_ok (heap m')"
    then obtain b where b: "b \<noteq> nullptr" "map_of (heap m) b = None"
      and x: "x = (b, m\<lparr>heap := AList.update b ?blk (heap m)\<rparr>)"
      and ok: "heap_ok (AList.update b ?blk (heap m))" by (cases x) auto
    let ?P = "P\<lparr>p_current := b, p_head := b\<rparr>" and ?m = "m\<lparr>heap := AList.update b ?blk (heap m)\<rparr>"
    have rep1: "pool_rep ?P ?m [] [b]"
      using b ok bs null by (simp add: pool_rep_def update_conv')
    then have "used_region ?P ?m = {}" using null by (simp add: pool_rep_used region_def)
    moreover have "foreign ?P ?m = foreign P m"
      using b null unfolding pool_rep_foreign [OF rep1] pool_rep_foreign [OF rep]
      by (auto simp: restrict_map_def fun_eq_iff update_conv')
    ultimately show "post_cxx {Bad_alloc} ?Q ((\<lambda>(b, m'). Inr (P\<lparr>p_current := b, p_head := b\<rparr>, m')) x)"
      using rep1 b null emp by (auto simp: x)
  qed
qed

text \<open>The block after the current one: the next block of the list, compacted until it is large
  enough, or a new block.\<close>

lemma get_next_post:
  assumes rep: "pool_rep P m us (c # ws)" and blk: "map_of (heap m) c = Some blk"
    and n: "n \<le> p_block_size P"
  shows "post_cxx {Bad_alloc, Terminate} (\<lambda>(nb, m'). \<exists>ys h'. m' = m\<lparr>heap := h'\<rparr> \<and> heap_ok h' \<and>
      path h' nb (nb # ys) nullptr \<and> unat n \<le> cap_of h' nb \<and>
      map_of h' |` (- set (nb # ys)) = map_of (heap m) |` (- set ws))
    (if next_block blk \<noteq> nullptr
     then compact_block nw (p_block_size P) (next_block blk) m
     else MemoryBlock_create nw (p_block_size P) m)" (is "post_cxx _ ?R _")
proof -
  note path = pool_rep_path [OF rep] and ok = pool_rep_heap [OF rep]
  have bs: "unat (p_block_size P) < 2 ^ 62" using rep by (simp add: pool_rep_def)
  have nws: "path (heap m) (next_block blk) ws nullptr" using path blk by (auto simp: path_append)
  have nbs: "unat n \<le> unat (p_block_size P)" using n by (simp add: word_le_nat_alt)
  show ?thesis
  proof (cases "next_block blk = nullptr")
    case True
    have "post_cxx {Bad_alloc, Terminate} ?R (MemoryBlock_create nw (p_block_size P) m)"
    proof (rule post_mono [OF MemoryBlock_create_post [OF ok bs]])
      fix x
      let ?h = "\<lambda>b. AList.update b \<lparr>capacity = p_block_size P, next_block = nullptr\<rparr> (heap m)"
      assume "case x of (b, m') \<Rightarrow> map_of (heap m) b = None \<and> b \<noteq> nullptr \<and> m' = m\<lparr>heap := ?h b\<rparr> \<and> heap_ok (heap m')"
      then obtain b where x: "x = (b, m\<lparr>heap := ?h b\<rparr>)" and b: "map_of (heap m) b = None" "b \<noteq> nullptr" "heap_ok (?h b)"
        by (cases x) auto
      have "ws = []" using nws True path_dom [OF nws] by (cases ws) auto
      then show "?R x" using b nbs unfolding x prod.case
        by (intro exI [of _ "[]"] exI [of _ "?h b"])
          (auto simp: update_conv' cap_of_def restrict_map_def fun_eq_iff)
    qed simp
    then show ?thesis using True by simp
  next
    case False
    then obtain d ds where ws: "ws = d # ds" "next_block blk = d" using nws by (cases ws) auto
    have p: "path (heap m) d (d # ds) nullptr" using nws ws by simp
    have "post_cxx {Bad_alloc, Terminate} ?R (compact_block nw (p_block_size P) d m)"
    proof (rule post_mono [OF compact_block_post [OF ok p bs]])
      fix x
      assume "case x of (b', m') \<Rightarrow> \<exists>es ys h'. ds = es @ ys \<and> m' = m\<lparr>heap := h'\<rparr> \<and> heap_ok h' \<and>
        path h' b' (b' # ys) nullptr \<and> unat (p_block_size P) \<le> cap_of h' b' \<and>
        map_of h' |` (- set (b' # ys)) = map_of (heap m) |` (- set (d # ds))"
      then obtain b' es ys h' where x: "x = (b', m\<lparr>heap := h'\<rparr>)" and es: "ds = es @ ys" "heap_ok h'"
        "path h' b' (b' # ys) nullptr" "unat (p_block_size P) \<le> cap_of h' b'"
        and keep: "map_of h' |` (- set (b' # ys)) = map_of (heap m) |` (- set (d # ds))"
        by (cases x) auto
      then show "?R x" using nbs ws(1) unfolding x prod.case by (intro exI [of _ ys] exI [of _ h']) simp
    qed simp
    then show ?thesis using False ws(2) by simp
  qed
qed

lemma serve_post:
  assumes rep: "pool_rep P m us (c # ws)" and blk: "map_of (heap m) c = Some blk" and n: "unat n \<le> 2 ^ 60"
  shows "post_cxx {Bad_alloc, Terminate}
    (\<lambda>(p, P', m'). pool_inv P' m' \<and> 8 dvd unat p \<and> fresh_buffer P m p (unat n) P' m')
    (serve_elsewhere nw n blk P m)" (is "post_cxx ?E ?Q _")
proof (cases "n \<le> p_block_size P")
  case True
  have cur: "p_current P = c" using rep by (simp add: pool_rep_def)
  show ?thesis unfolding serve_elsewhere_def if_P [OF True] cur
  proof (rule post_bind [OF get_next_post [OF rep blk True]])
    fix x
    assume "case x of (nb, m') \<Rightarrow> \<exists>ys h'. m' = m\<lparr>heap := h'\<rparr> \<and> heap_ok h' \<and>
      path h' nb (nb # ys) nullptr \<and> unat n \<le> cap_of h' nb \<and>
      map_of h' |` (- set (nb # ys)) = map_of (heap m) |` (- set ws)"
    then obtain nb ys h' where x: "x = (nb, m\<lparr>heap := h'\<rparr>)" and h': "heap_ok h'" "path h' nb (nb # ys) nullptr"
      "unat n \<le> cap_of h' nb" and keep: "map_of h' |` (- set (nb # ys)) = map_of (heap m) |` (- set ws)"
      by (cases x) auto
    show "post_cxx ?E ?Q ((\<lambda>(nb, m'). bind_cxx (set_next c nb m') (\<lambda>m''.
        Inr (data_of nb, P\<lparr>p_current := nb, p_pos := n\<rparr>, m''))) x)" unfolding x prod.case
      by (rule post_bind [OF post_mono [OF advance_current [OF rep refl h' keep] empty_subsetI]])
        (auto simp: pool_inv_def Let_def)
  qed
next
  case False
  from n obtain g where g: "times_1_1f n = Inr g" "unat (get_block_size g) < 2 ^ 62"
    by (rule grow_block_size)
  have n62: "unat n < 2 ^ 62" using n by simp
  show ?thesis unfolding serve_elsewhere_def if_not_P [OF False]
  proof (rule post_bind [OF post_mono [OF MemoryBlock_create_post [OF pool_rep_heap [OF rep] n62]]])
    fix x
    let ?h = "\<lambda>b. AList.update b \<lparr>capacity = n, next_block = nullptr\<rparr> (heap m)"
    assume "case x of (b, m') \<Rightarrow> map_of (heap m) b = None \<and> b \<noteq> nullptr \<and> m' = m\<lparr>heap := ?h b\<rparr> \<and> heap_ok (heap m')"
    then obtain b where x: "x = (b, m\<lparr>heap := ?h b\<rparr>)" and b: "map_of (heap m) b = None" "b \<noteq> nullptr" "heap_ok (?h b)"
      by (cases x) auto
    show "post_cxx ?E ?Q ((\<lambda>(b, m'). bind_cxx (set_next b (p_head P) m') (\<lambda>m''.
        bind_cxx (times_1_1f n) (\<lambda>g.
          Inr (data_of b, P\<lparr>p_head := b, p_block_size := get_block_size g\<rparr>, m'')))) x)" unfolding x prod.case
      by (rule post_bind [OF post_mono [OF push_front [OF rep b g(2)] empty_subsetI]])
        (auto simp: pool_inv_def Let_def g(1))
  qed auto
qed

lemma fresh_buffer_start:
  "fresh_buffer P1 m1 p n P' m' \<Longrightarrow> used_region P m \<subseteq> used_region P1 m1 \<Longrightarrow> bytes m1 = bytes m \<Longrightarrow>
   dtor_log m1 = dtor_log m \<Longrightarrow> p_cleaners P1 = p_cleaners P \<Longrightarrow> foreign P1 m1 = foreign P m \<Longrightarrow>
   fresh_buffer P m p n P' m'"
  by (auto simp: fresh_buffer_def)

lemma aligned_pos_rep:
  assumes rep: "pool_rep P m us (c # ws)" and blk: "map_of (heap m) c = Some blk" and a: "a \<in> {1, 2, 4, 8}"
  defines "q \<equiv> align_pos a (p_pos P)"
  shows "pool_rep (P\<lparr>p_pos := q\<rparr>) m us (c # ws)" and "used_region P m \<subseteq> used_region (P\<lparr>p_pos := q\<rparr>) m"
    and "unat (p_pos P) \<le> unat q" and "unat a dvd unat q" and "unat q < 2 ^ 63"
proof -
  have pos: "unat (p_pos P) \<le> round_up8 (unat (capacity blk))" and cur: "p_current P = c"
    using rep blk by (simp_all add: pool_rep_def)
  have cap: "unat (capacity blk) < 2 ^ 62"
    using heap_ok_block [OF pool_rep_heap [OF rep] blk] by (simp add: block_ok_def)
  note al = align_pos_props [OF a pos cap, folded q_def]
  show rep': "pool_rep (P\<lparr>p_pos := q\<rparr>) m us (c # ws)"
    using rep blk al by (simp add: pool_rep_def)
  show "used_region P m \<subseteq> used_region (P\<lparr>p_pos := q\<rparr>) m"
    unfolding pool_rep_used [OF rep] pool_rep_used [OF rep'] using al(1) by (simp add: region_mono_pos)
  show "unat (p_pos P) \<le> unat q" "unat a dvd unat q" by (rule al)+
  show "unat q < 2 ^ 63" using al(2) cap round_up8_le [of "unat (capacity blk)"] by simp
qed

lemma create_buffer_internal_post:
  assumes inv: "pool_inv P m" and a: "a \<in> {1, 2, 4, 8}" and n: "unat n \<le> 2 ^ 60"
  shows "post_cxx {Bad_alloc, Terminate}
    (\<lambda>(p, P', m'). pool_inv P' m' \<and> unat a dvd unat p \<and> fresh_buffer P m p (unat n) P' m')
    (create_buffer_internal nw a n P m)" (is "post_cxx ?E ?Q _")
proof -
  obtain us vs where rep: "pool_rep P m us vs" using inv by (auto simp: pool_inv_def)
  have dvd8: "unat a dvd x" if "8 dvd x" for x using a that by (auto elim: dvd_trans [rotated])
  show ?thesis unfolding create_buffer_internal_def
  proof (rule post_bind [OF post_mono [OF ensure_current_post [OF rep]]], simp, assumption)
    fix x
    assume "case x of (P1, m1) \<Rightarrow> \<exists>vs1. pool_rep P1 m1 us vs1 \<and> p_current P1 \<noteq> nullptr \<and>
      used_region P1 m1 = used_region P m \<and> bytes m1 = bytes m \<and> dtor_log m1 = dtor_log m \<and>
      p_cleaners P1 = p_cleaners P \<and> foreign P1 m1 = foreign P m"
    then obtain P1 m1 vs1 where x: "x = (P1, m1)" and rep1: "pool_rep P1 m1 us vs1"
      and c: "p_current P1 \<noteq> nullptr" and same: "used_region P1 m1 = used_region P m" "bytes m1 = bytes m"
      "dtor_log m1 = dtor_log m" "p_cleaners P1 = p_cleaners P" "foreign P1 m1 = foreign P m" by (cases x) auto
    from rep1 c obtain ws blk where vs1: "vs1 = p_current P1 # ws" and blk: "map_of (heap m1) (p_current P1) = Some blk"
      by (rule pool_rep_current)
    define q where "q = align_pos a (p_pos P1)"
    note al = aligned_pos_rep [OF rep1 [unfolded vs1] blk a, folded q_def]
    have sum: "unat (n + q) = unat n + unat q" using al(5) n by (intro unat_add_ok) simp
    have start: "fresh_buffer P m p k P' m'" if "fresh_buffer P1 m1 p k P' m'" for p k P' m'
      by (rule fresh_buffer_start [OF that]) (simp_all add: same)
    show "post_cxx ?E ?Q ((\<lambda>(P1, m). let P = P1\<lparr>p_pos := align_pos a (p_pos P1)\<rparr>
         in bind_cxx (lookup_block m (p_current P)) (\<lambda>cur.
              if n + p_pos P \<le> capacity cur
              then Inr (data_of (p_current P) + p_pos P, P\<lparr>p_pos := p_pos P + n\<rparr>, m)
              else serve_elsewhere nw n cur P m)) x)"
    proof (cases "n + q \<le> capacity blk")
      case True
      then have fits: "unat q + unat n \<le> unat (capacity blk)" by (simp add: word_le_nat_alt sum)
      note b = bump_current [OF rep1 c blk al(3) fits]
      have "16 dvd unat (p_current P1)"
        using heap_ok_block [OF pool_rep_heap [OF rep1] blk] by (simp add: block_ok_def)
      then have "8 dvd unat (p_current P1) + 16" by presburger
      then have "unat a dvd unat (p_current P1) + 16 + unat q" 
        using al(4) dvd8 by (blast intro: dvd_add)
      then have "?Q (data_of (p_current P1) + q, P1\<lparr>p_pos := q + n\<rparr>, m1)"
        using b start by (auto simp: pool_inv_def)
      then show ?thesis using True c blk by (simp add: x q_def lookup_block_def Let_def)
    next
      case False
      have "post_cxx ?E ?Q (serve_elsewhere nw n blk (P1\<lparr>p_pos := q\<rparr>) m1)"
        using serve_post [OF al(1) blk n] al(2) dvd8 start
        by (elim post_mono) (auto intro!: start intro: fresh_buffer_start [where ?P1.0 = "P1\<lparr>p_pos := q\<rparr>" and ?m1.0 = m1])
      then show ?thesis using False c blk by (simp add: x q_def lookup_block_def Let_def)
    qed
  qed
qed

end

end
