(* ===== verification/Pool_Aligned.thy ===== *)
theory Pool_Aligned
  imports Pool_Alloc
begin

text \<open>
  \<open>create_aligned_buffer\<close>: alignments above 8 are served by over-allocating, rounding the
  address up and giving back what was allocated past the aligned buffer when it still ends at the
  pool's position.
\<close>

lemma last_byte_in_current:
  assumes rep: "pool_rep P m us (c # ws)" and blk: "map_of (heap m) c = Some blk"
    and k: "0 < k" and sub: "{s ..< s + k} \<subseteq> used_region P m"
    and E: "s + k = unat c + 16 + unat (p_pos P)"
  shows "unat c + 16 \<le> s" and "unat (p_pos P) \<le> unat (capacity blk)"
proof -
  have cur: "p_current P = c" and pos: "unat (p_pos P) \<le> unat (capacity blk) + 7"
    using rep blk round_up8_le [of "unat (capacity blk)"] by (simp_all add: pool_rep_def)
  have used: "used_region P m = (\<Union>u \<in> set us. data_extent (heap m) u) \<union>
      {unat c + 16 ..< unat c + 16 + min (unat (p_pos P)) (unat (capacity blk))}"
    using pool_rep_used [OF rep] blk by (simp add: region_def cur)
  have apart: "unat u + 16 + cap_of (heap m) u \<le> unat c \<or> unat c + 16 + unat (capacity blk) \<le> unat u"
    if u: "u \<in> set us" for u
  proof -
    obtain ublk where ub: "map_of (heap m) u = Some ublk"
      using path_dom [OF pool_rep_path [OF rep], of u] u by auto
    have "u \<noteq> c" using path_distinct [OF pool_rep_path [OF rep]] u by auto
    then have "block_extent u ublk \<inter> block_extent c blk = {}"
      by (rule heap_ok_disjoint [OF pool_rep_heap [OF rep] ub blk])
    moreover have "unat u \<in> block_extent u ublk" "unat c \<in> block_extent c blk"
      by (simp_all add: block_extent_def extent_def)
    ultimately have "unat c \<notin> block_extent u ublk" "unat u \<notin> block_extent c blk" by auto
    then show ?thesis using ub by (auto simp: block_extent_def extent_def)
  qed
  have "s + k - 1 \<in> used_region P m" using sub k by auto
  then show "unat (p_pos P) \<le> unat (capacity blk)"
    unfolding used using E k pos apart by (fastforce simp: data_extent_def)
  show "unat c + 16 \<le> s"
  proof (rule ccontr)
    assume "\<not> unat c + 16 \<le> s"
    then have "unat c + 15 \<in> {s ..< s + k}" using E k by auto
    with sub have "unat c + 15 \<in> used_region P m" by blast
    then show False unfolding used using apart by (fastforce simp: data_extent_def)
  qed
qed

lemma valid_range_part:
  assumes "valid_range m s k" "unat s \<le> unat p" "unat p + n \<le> unat s + k"
  shows "valid_range m p n"
proof (cases "n = 0")
  case False
  then obtain b blk where "(b, blk) \<in> set (heap m)" "unat b + 16 \<le> unat s" "unat s + k \<le> unat b + 16 + unat (capacity blk)"
    using assms by (auto simp: valid_range_def list_ex_iff)
  then show ?thesis using assms(2,3) unfolding valid_range_def list_ex_iff
    by (intro disjI2 bexI [of _ "(b, blk)"]) simp_all
qed (simp add: valid_range_def)

lemma fresh_buffer_part:
  assumes "fresh_buffer P m s k P' m'" "unat s \<le> unat p" "unat p + n \<le> unat s + k"
  shows "fresh_buffer P m p n P' m'"
proof -
  have "extent p n \<subseteq> extent s k" using assms(2,3) by (simp add: extent_def)
  then show ?thesis using assms valid_range_part [OF _ assms(2,3)]
    unfolding fresh_buffer_def by (intro conjI; blast?) simp
qed

lemma give_back:
  assumes inv: "pool_rep P' m' us' (c # ws')" and blk: "map_of (heap m') c = Some blk"
    and fresh: "fresh_buffer P m s k P' m'" and k: "0 < k"
    and E: "unat s + k = unat c + 16 + unat (p_pos P')"
    and p: "unat s \<le> unat p" "unat p + n \<le> unat s + k"
    and q: "unat q = unat p + n - (unat c + 16)"
  shows "pool_rep (P'\<lparr>p_pos := q\<rparr>) m' us' (c # ws')" and "fresh_buffer P m p n (P'\<lparr>p_pos := q\<rparr>) m'"
proof -
  have sub: "{unat s ..< unat s + k} \<subseteq> used_region P' m'"
    using fresh by (simp add: fresh_buffer_def extent_def)
  note cur = last_byte_in_current [OF inv blk k sub E]
  have c: "p_current P' = c" using inv by (simp add: pool_rep_def)
  have le: "unat q \<le> unat (p_pos P')" using q p E cur by simp
  show rep: "pool_rep (P'\<lparr>p_pos := q\<rparr>) m' us' (c # ws')" using inv le by (simp add: pool_rep_def)
  have used: "used_region P' m' = (\<Union>u \<in> set us'. data_extent (heap m') u) \<union> {unat c + 16 ..< unat s + k}"
    using pool_rep_used [OF inv] blk cur E by (simp add: c region_part_eq)
  have used': "used_region (P'\<lparr>p_pos := q\<rparr>) m' = (\<Union>u \<in> set us'. data_extent (heap m') u) \<union> {unat c + 16 ..< unat p + n}"
    using pool_rep_used [OF rep] blk cur le q p by (simp add: c region_part_eq)
  have old: "t < unat p + n" if "t \<in> used_region P m" "t < unat s + k" for t
  proof -
    have "t \<notin> {unat s ..< unat s + k}" using fresh that(1) by (auto simp: fresh_buffer_def extent_def)
    then show ?thesis using that(2) p by simp
  qed
  show "fresh_buffer P m p n (P'\<lparr>p_pos := q\<rparr>) m'"
    using old fresh_buffer_part [OF fresh p] fresh cur p
    unfolding fresh_buffer_def used used' extent_def by (auto simp: subset_iff)
qed

lemma pool_inv_current:
  assumes inv: "pool_inv P m" and used: "x \<in> used_region P m"
  obtains us ws blk where "pool_rep P m us (p_current P # ws)" "map_of (heap m) (p_current P) = Some blk"
proof -
  obtain us vs where rep: "pool_rep P m us vs" using inv by (auto simp: pool_inv_def)
  have "p_current P \<noteq> nullptr"
    using used pool_rep_used [OF rep] pool_rep_null [OF rep] by (auto simp: region_def)
  with rep obtain ws blk where "vs = p_current P # ws" "map_of (heap m) (p_current P) = Some blk"
    by (rule pool_rep_current)
  then show ?thesis using that rep by blast
qed

lemma end_of_current:
  assumes rep: "pool_rep P m us (c # ws)" and blk: "map_of (heap m) c = Some blk"
    and eq: "data_of c + p_pos P = s" and s: "16 \<le> unat s"
  shows "unat s = unat c + 16 + unat (p_pos P)"
proof -
  have bok: "block_ok c blk" by (rule heap_ok_block [OF pool_rep_heap [OF rep] blk])
  have pos: "unat (p_pos P) \<le> unat (capacity blk) + 7"
    using rep blk round_up8_le [of "unat (capacity blk)"] by (simp add: pool_rep_def)
  have "unat s = (unat c + 16 + unat (p_pos P)) mod 2 ^ 64"
    using eq unat_data_of [OF bok] by (auto simp: unat_word_ariths)
  moreover have "unat c + 16 + unat (p_pos P) < 2 ^ 64 + 7" using pos bok by (simp add: block_ok_def)
  ultimately show ?thesis using s
    by (cases "unat c + 16 + unat (p_pos P) < 2 ^ 64") (simp_all add: le_mod_geq)
qed

lemma aligned_pointer:
  fixes s a :: "64 word"
  assumes a: "a = 2 ^ k" "k < 16" and s: "unat s + 2 ^ k < 2 ^ 64"
  defines "p \<equiv> (s + a - 1) AND (- a)"
  shows "unat s \<le> unat p" and "unat p < unat s + 2 ^ k" and "2 ^ k dvd unat p"
proof -
  have p: "unat p = ((unat s + 2 ^ k - 1) div 2 ^ k) * 2 ^ k"
    using unat_align_up [OF a(1), of s] a(2) s by (simp add: p_def align_up_def)
  show "2 ^ k dvd unat p" by (simp add: p)
  have "(unat s + 2 ^ k - 1) div 2 ^ k * 2 ^ k + (unat s + 2 ^ k - 1) mod 2 ^ k = unat s + 2 ^ k - 1"
    by (rule div_mult_mod_eq)
  moreover have "(unat s + 2 ^ k - 1) mod 2 ^ k < 2 ^ k" "(0::nat) < 2 ^ k" by simp_all
  ultimately show "unat s \<le> unat p" "unat p < unat s + 2 ^ k" unfolding p by linarith+
qed

context operator_new
begin

lemma create_aligned_buffer_dyn_post:
  assumes inv: "pool_inv P m" and a: "a = 2 ^ k" "k < 16" and n: "unat n \<le> 2 ^ 59"
  shows "post_cxx {Bad_alloc, Terminate}
    (\<lambda>(p, P', m'). pool_inv P' m' \<and> unat a dvd unat p \<and> fresh_buffer P m p (unat n) P' m')
    (create_aligned_buffer_dyn nw n a P m)" (is "post_cxx ?E ?Q _")
proof -
  define A :: size_t where "A = ucast a"
  have ua: "unat a = 2 ^ k" using a by (simp add: unat_pow2)
  then have uA: "unat A = 2 ^ k"
    using a(2) unfolding A_def by (simp only: unsigned_ucast_eq) (simp add: take_bit_nat_eq_self)
  have A: "A = 2 ^ k" using uA a(2) by (intro word_unat_eq_iff [THEN iffD2]) (simp add: unat_pow2)
  have "(2::nat) ^ k \<le> 2 ^ 16" using a(2) by (intro power_increasing) simp_all
  then have nA: "unat (n + A) = unat n + 2 ^ k" and le: "unat (n + A) \<le> 2 ^ 60"
    using n by (simp_all add: unat_add_ok uA)
  show ?thesis unfolding create_aligned_buffer_dyn_def Let_def A_def [symmetric]
  proof (rule post_bind [OF create_buffer_internal_post [OF inv _ le]], simp)
    fix x
    assume "case x of (s, P', m') \<Rightarrow> pool_inv P' m' \<and> unat 1 dvd unat s \<and> fresh_buffer P m s (unat (n + A)) P' m'"
    then obtain s P' m' where x: "x = (s, P', m')" and inv': "pool_inv P' m'"
      and fresh: "fresh_buffer P m s (unat n + 2 ^ k) P' m'" by (cases x) (auto simp: nA)
    define p where "p = (s + A - 1) AND (- A)"
    have sb: "unat s + (unat n + 2 ^ k) < 2 ^ 64" and valid: "valid_range m' s (unat n + 2 ^ k)"
      and sub: "extent s (unat n + 2 ^ k) \<subseteq> used_region P' m'" using fresh by (simp_all add: fresh_buffer_def)
    note al = aligned_pointer [OF A a(2), of s, folded p_def]
    have p: "unat s \<le> unat p" "unat p < unat s + 2 ^ k" "2 ^ k dvd unat p" using al sb by simp_all
    have "unat s \<in> used_region P' m'" using sub by (auto simp: extent_def)
    with inv' obtain us ws blk where rep: "pool_rep P' m' us (p_current P' # ws)"
      and blk: "map_of (heap m') (p_current P') = Some blk" by (rule pool_inv_current)
    have s16: "16 \<le> unat s" using valid by (auto simp: valid_range_def list_ex_iff)
    have u: "unat (s + (n + A)) = unat s + (unat n + 2 ^ k)" using sb by (simp add: unat_add_ok nA)
    have "?Q (p, P'\<lparr>p_pos := p_pos P' - (A - (p - s))\<rparr>, m')" if E: "data_of (p_current P') + p_pos P' = s + (n + A)"
    proof -
      have e: "unat s + (unat n + 2 ^ k) = unat (p_current P') + 16 + unat (p_pos P')"
        using end_of_current [OF rep blk E] s16 u by simp
      have "unat (p_current P') + 16 \<le> unat s"
        by (rule last_byte_in_current [OF rep blk _ sub [unfolded extent_def] e]) simp
      moreover have "unat (A - (p - s)) = 2 ^ k - (unat p - unat s)"
        using p by (simp add: unat_sub_ok uA)
      ultimately have q: "unat (p_pos P' - (A - (p - s))) = unat p + unat n - (unat (p_current P') + 16)"
        using p e by (subst unat_sub_ok) simp_all
      show ?thesis
        using give_back [OF rep blk fresh _ e p(1) _ q] p by (auto simp: pool_inv_def ua)
    qed
    moreover have "?Q (p, P', m')"
      using inv' p fresh_buffer_part [OF fresh p(1), of "unat n"] by (simp add: ua)
    ultimately show "post_cxx ?E ?Q ((\<lambda>(buffer, P', m').
           if data_of (p_current P') + p_pos P' = buffer + (n + A)
           then Inr ((buffer + A - 1) AND (- A), P'\<lparr>p_pos := p_pos P' - (A - (((buffer + A - 1) AND (- A)) - buffer))\<rparr>, m')
           else Inr ((buffer + A - 1) AND (- A), P', m')) x)"
      by (simp add: x p_def [symmetric])
  qed
qed

lemma create_aligned_buffer_post:
  assumes inv: "pool_inv P m" and a: "a = 2 ^ k" "k < 16" and n: "unat n \<le> 2 ^ 59"
  shows "post_cxx {Bad_alloc, Terminate}
    (\<lambda>(p, P', m'). pool_inv P' m' \<and> unat a dvd unat p \<and> fresh_buffer P m p (unat n) P' m')
    (create_aligned_buffer nw a n P m)"
proof -
  have n60: "unat n \<le> 2 ^ 60" using n by simp
  note int = create_buffer_internal_post [OF inv _ n60]
  show ?thesis
    using create_aligned_buffer_dyn_post [OF assms] int [of 1] int [of 2] int [of 4] int [of 8]
    by (simp add: create_aligned_buffer_def)
qed

end

end
