(* ===== verification/Pool_Ops.thy ===== *)
theory Pool_Ops
  imports Pool_Aligned
begin

text \<open>
  The remaining operations of the pool (\<open>clear\<close>, the destructor, moves, \<open>shrink_to_fit\<close>,
  copies of buffers and strings, objects, \<open>contain\<close>, \<open>size\<close>, \<open>capacity\<close>) under the
  representation invariant, and the behaviour of arbitrary sequences of operations.
\<close>

definition run_cleaners :: "cleaner list \<Rightarrow> (addr \<times> addr) list" where
  "run_cleaners cs = map (\<lambda>c. (c_destructor c, c_pointer c)) (filter (\<lambda>c. c_destructor c \<noteq> nullptr) cs)"

lemma cleaners_clear_eq: "cleaners_clear cs m = m\<lparr>dtor_log := dtor_log m @ run_cleaners cs\<rparr>"
  unfolding cleaners_clear_def
  by (induction cs arbitrary: m) (auto simp: run_cleaners_def cleaner_dtor_def)

lemma cleaners_relocate_eq: "cleaners_relocate cs m = (cs, m)"
  by (induction cs m rule: cleaners_relocate.induct)
    (simp_all add: cleaner_move_def cleaner_dtor_def)

lemma foreign_cong: "heap m' = heap m \<Longrightarrow> p_head P' = p_head P \<Longrightarrow> foreign P' m' = foreign P m"
  by (simp add: foreign_def chain_of_def)

lemma pool_rep_cong:
  "heap m' = heap m \<Longrightarrow> p_head P' = p_head P \<Longrightarrow> p_current P' = p_current P \<Longrightarrow> p_pos P' = p_pos P \<Longrightarrow>
   p_block_size P' = p_block_size P \<Longrightarrow> pool_rep P' m' us vs = pool_rep P m us vs"
  by (cases vs) (simp_all add: pool_rep_def)

lemma pool_inv_cong:
  "heap m' = heap m \<Longrightarrow> p_head P' = p_head P \<Longrightarrow> p_current P' = p_current P \<Longrightarrow> p_pos P' = p_pos P \<Longrightarrow>
   p_block_size P' = p_block_size P \<Longrightarrow> pool_inv P' m' = pool_inv P m"
  unfolding pool_inv_def using pool_rep_cong [of m' m P' P] by blast

lemma used_region_cong:
  "heap m' = heap m \<Longrightarrow> p_head P' = p_head P \<Longrightarrow> p_current P' = p_current P \<Longrightarrow> p_pos P' = p_pos P \<Longrightarrow>
   used_region P' m' = used_region P m"
  by (simp add: used_region_def chain_of_def)

lemma pool_inv_path:
  assumes "pool_inv P m"
  obtains xs where "path (heap m) (p_head P) xs nullptr" "chain_of m (p_head P) = xs" "heap_ok (heap m)"
  using assms pool_rep_path pool_rep_heap path_chain_of unfolding pool_inv_def by metis

lemma without_chain:
  "path (heap m) (p_head P) xs nullptr \<Longrightarrow> map_of (without (set xs) (heap m)) = foreign P m"
  by (auto simp: foreign_def path_chain_of map_of_without restrict_map_def)

lemma destroy_all_blocks:
  assumes "pool_inv P m"
  shows "\<exists>h. destroy_blocks_start_from (p_head P) m = Inr (m\<lparr>heap := h\<rparr>) \<and> map_of h = foreign P m \<and> heap_ok h"
proof -
  from assms obtain xs where p: "path (heap m) (p_head P) xs nullptr" and ok: "heap_ok (heap m)"
    by (rule pool_inv_path)
  show ?thesis
    using destroy_blocks_start_from_eq [OF p] without_chain [OF p] heap_ok_without [OF ok] by blast
qed

lemma pool_dtor_eq:
  assumes "pool_inv P m"
  shows "\<exists>h. pool_dtor P m = Inr (m\<lparr>dtor_log := dtor_log m @ run_cleaners (p_cleaners P), heap := h\<rparr>) \<and>
    map_of h = foreign P m \<and> heap_ok h"
proof -
  let ?m = "m\<lparr>dtor_log := dtor_log m @ run_cleaners (p_cleaners P)\<rparr>"
  have "pool_inv P ?m" using assms by (subst pool_inv_cong) simp_all
  from destroy_all_blocks [OF this] show ?thesis
    by (auto simp: pool_dtor_def cleaners_clear_eq foreign_cong [of ?m m P P])
qed

lemma pool_inv_empty:
  "heap_ok (heap m) \<Longrightarrow> unat (p_block_size P) < 2 ^ 62 \<Longrightarrow> p_head P = nullptr \<Longrightarrow> p_current P = nullptr \<Longrightarrow>
   p_pos P = 0 \<Longrightarrow> pool_rep P m [] []"
  by (simp add: pool_rep_def)

text \<open>Cutting the list after a block: the blocks behind it are released.\<close>

lemma cut_after:
  assumes rep: "pool_rep P m us (c # ws)" and split: "ws = ks @ ys"
    and b: "b = last (c # ks)" and blk: "map_of (heap m) b = Some blk"
  shows "\<exists>m' m''. destroy_blocks_start_from (next_block blk) m = Inr m' \<and> set_next b nullptr m' = Inr m'' \<and>
    pool_rep P m'' us (c # ks) \<and> used_region P m'' = used_region P m \<and> foreign P m'' = foreign P m \<and>
    bytes m'' = bytes m \<and> dtor_log m'' = dtor_log m \<and> (\<forall>u. u \<notin> set ys \<longrightarrow> cap_of (heap m'') u = cap_of (heap m) u)"
proof -
  define js where "js = butlast (c # ks)"
  have ck: "c # ks = js @ [b]" by (simp only: js_def b) (metis append_butlast_last_id list.distinct(1))
  note path = pool_rep_path [OF rep]
  have all: "us @ c # ws = (us @ js) @ b # ys" using ck split by (metis append.assoc append_Cons append_Nil)
  obtain d where pre: "path (heap m) (p_head P) (us @ js) d" and post: "path (heap m) d (b # ys) nullptr"
    using path unfolding all path_append by blast
  have db: "d = b" and bn: "b \<noteq> nullptr" and pys: "path (heap m) (next_block blk) ys nullptr"
    using post blk by auto
  have dist: "distinct ((us @ js) @ b # ys)" using path_distinct [OF path] by (simp only: all)
  define h1 where "h1 = without (set ys) (heap m)"
  define h2 where "h2 = AList.update b (blk\<lparr>next_block := nullptr\<rparr>) h1"
  have blk1: "map_of h1 b = Some blk" using blk dist by (auto simp: h1_def map_of_without)
  have d1: "destroy_blocks_start_from (next_block blk) m = Inr (m\<lparr>heap := h1\<rparr>)"
    unfolding h1_def by (rule destroy_blocks_start_from_eq [OF pys])
  have d2: "set_next b nullptr (m\<lparr>heap := h1\<rparr>) = Inr (m\<lparr>heap := h2\<rparr>)"
    using bn blk1 by (simp add: set_next_eq h2_def)
  have ok1: "heap_ok h1" using pool_rep_heap [OF rep] by (simp add: h1_def heap_ok_without)
  have ok2: "heap_ok h2" unfolding h2_def by (rule heap_ok_update_next [OF ok1 blk1])
  have pre2: "path h2 (p_head P) (us @ js) b"
    using pre db dist by (subst path_cong [where h = "heap m"]) (auto simp: h2_def h1_def map_of_without update_conv')
  have "path h2 (p_head P) ((us @ js) @ [b]) nullptr"
    using pre2 bn unfolding path_append by (auto simp: h2_def update_conv')
  then have path2: "path h2 (p_head P) (us @ c # ks) nullptr" by (simp add: ck)
  have cap: "cap_of h2 u = cap_of (heap m) u" if "u \<notin> set ys" for u
    unfolding h2_def cap_of_update_next [OF blk1] using that by (simp add: h1_def cap_of_def map_of_without)
  have cys: "u \<notin> set ys" if "u \<in> set (us @ c # ks)" for u using dist that ck by auto
  have rep2: "pool_rep P (m\<lparr>heap := h2\<rparr>) us (c # ks)"
    using rep ok2 path2 cap [OF cys, of c] by (simp add: pool_rep_def)
  have cur: "p_current P = c" using rep by (simp add: pool_rep_def)
  have "used_region P (m\<lparr>heap := h2\<rparr>) = used_region P m"
    unfolding pool_rep_used [OF rep] pool_rep_used [OF rep2] using cap cys cur by (intro region_cong) auto
  moreover have sets: "set (us @ c # ws) = set us \<union> set js \<union> {b} \<union> set ys" "set (us @ c # ks) = set us \<union> set js \<union> {b}"
    unfolding all ck by auto
  moreover have "foreign P (m\<lparr>heap := h2\<rparr>) = foreign P m"
    unfolding pool_rep_foreign [OF rep] pool_rep_foreign [OF rep2] sets
    by (auto simp: restrict_map_def fun_eq_iff h2_def h1_def update_conv' map_of_without)
  ultimately show ?thesis using d1 d2 rep2 cap by (intro exI [of _ "m\<lparr>heap := h1\<rparr>"] exI [of _ "m\<lparr>heap := h2\<rparr>"]) simp
qed

lemma shrink_to_fit_post:
  assumes inv: "pool_inv P m"
  shows "post_cxx {} (\<lambda>(P', m'). pool_inv P' m' \<and> used_region P' m' = used_region P m \<and> foreign P' m' = foreign P m \<and>
      bytes m' = bytes m \<and> dtor_log m' = dtor_log m \<and> p_cleaners P' = p_cleaners P \<and>
      (p_head P' = nullptr \<or> last (chain_of m' (p_head P')) = p_current P')) (shrink_to_fit P m)" (is "post_cxx _ ?Q _")
proof (cases "p_current P = nullptr")
  case True
  then have "?Q (P, m)" using inv pool_rep_null by (auto simp: pool_inv_def)
  then show ?thesis using True by (simp add: shrink_to_fit_def)
next
  case False
  obtain us vs where rep: "pool_rep P m us vs" using inv by (auto simp: pool_inv_def)
  from rep False obtain ws blk where vs: "vs = p_current P # ws" and blk: "map_of (heap m) (p_current P) = Some blk"
    by (rule pool_rep_current)
  show ?thesis
  proof (cases "p_current P = p_head P \<and> p_pos P = 0")
    case True
    obtain h where h: "destroy_blocks_start_from (p_head P) m = Inr (m\<lparr>heap := h\<rparr>)" "map_of h = foreign P m" "heap_ok h"
      using destroy_all_blocks [OF inv] by blast
    let ?P = "P\<lparr>p_head := nullptr, p_current := nullptr\<rparr>"
    have rep': "pool_rep ?P (m\<lparr>heap := h\<rparr>) [] []" using rep h True by (simp add: pool_rep_def)
    have "us = []"
      using True path_distinct [OF pool_rep_path [OF rep]] pool_rep_path [OF rep] vs by (cases us) auto
    then have "used_region P m = {}" using True pool_rep_used [OF rep] by (simp add: region_def)
    then have "?Q (?P, m\<lparr>heap := h\<rparr>)"
      using rep' pool_rep_used [OF rep'] pool_rep_foreign [OF rep'] h True
      by (auto simp: pool_inv_def region_def restrict_map_def)
    then show ?thesis using True False h by (simp add: shrink_to_fit_def)
  next
    case no: False
    obtain m' m'' where "destroy_blocks_start_from (next_block blk) m = Inr m'" "set_next (p_current P) nullptr m' = Inr m''"
      and rep': "pool_rep P m'' us [p_current P]" and "used_region P m'' = used_region P m" "foreign P m'' = foreign P m"
      "bytes m'' = bytes m" "dtor_log m'' = dtor_log m"
      using cut_after [OF rep [unfolded vs], of "[]" ws "p_current P" blk] blk by auto
    moreover have "last (chain_of m'' (p_head P)) = p_current P" using pool_rep_chain [OF rep'] by simp
    ultimately show ?thesis using no False blk
      by (auto simp: shrink_to_fit_def lookup_block_def pool_inv_def)
  qed
qed

subsection \<open>Inspection\<close>

lemma pool_capacity_eq:
  assumes "pool_rep P m us vs"
  shows "pool_capacity P m = Inr (word_of_nat (\<Sum>u\<leftarrow>us @ vs. cap_of (heap m) u))"
proof -
  note p = pool_rep_path [OF assms]
  have "nullptr \<notin> set (us @ vs)" using path_dom [OF p] by blast
  from sum_until_eq [OF p this path_length [OF p]] show ?thesis by (simp add: pool_capacity_def)
qed

lemma before_current:
  assumes "pool_rep P m us vs"
  shows "path (heap m) (p_head P) us (p_current P)" and "p_current P \<notin> set us" and "length us \<le> length (heap m)"
proof -
  have "path (heap m) (p_head P) us (p_current P) \<and> p_current P \<notin> set us"
  proof (cases vs)
    case Nil
    then show ?thesis using assms by (auto simp: pool_rep_def)
  next
    case (Cons c ws)
    then have "p_current P = c" using assms by (simp add: pool_rep_def)
    moreover have "path (heap m) (p_head P) us c"
      using pool_rep_path [OF assms] unfolding path_append Cons by auto
    moreover have "c \<notin> set us" using path_distinct [OF pool_rep_path [OF assms]] by (simp add: Cons)
    ultimately show ?thesis by simp
  qed
  then show "path (heap m) (p_head P) us (p_current P)" "p_current P \<notin> set us" by auto
  show "length us \<le> length (heap m)" using path_length [OF pool_rep_path [OF assms]] by simp
qed

lemma pool_size_eq:
  "pool_rep P m us vs \<Longrightarrow> pool_size P m = Inr (p_pos P + word_of_nat (\<Sum>u\<leftarrow>us. cap_of (heap m) u))"
  unfolding pool_size_def by (rule sum_until_eq) (rule before_current, assumption)+

lemma in_block_data:
  assumes ok: "heap_ok h" and u: "map_of h u = Some blk" and n: "n \<le> unat (capacity blk)"
  shows "data_of u \<le> a \<and> a < data_of u + word_of_nat n \<longleftrightarrow> unat a \<in> {unat u + 16 ..< unat u + 16 + n}"
proof -
  have b: "block_ok u blk" by (rule heap_ok_block [OF ok u])
  then have lt: "unat u + 16 + n < 2 ^ 64" using n by (simp add: block_ok_def)
  then have n': "unat (word_of_nat n :: size_t) = n" by (intro unat_word_of_nat_64) simp
  have "unat (data_of u + word_of_nat n) = unat u + 16 + n"
    using lt by (subst unat_add_ok) (simp_all only: n' unat_data_of [OF b], simp)
  then show ?thesis by (simp add: word_le_nat_alt word_less_nat_alt unat_data_of [OF b])
qed

lemma contain_eq:
  assumes rep: "pool_rep P m us vs" and pos: "unat (p_pos P) \<le> cap_of (heap m) (p_current P)"
  shows "contain P m a = Inr (unat a \<in> used_region P m)"
proof -
  note ok = pool_rep_heap [OF rep]
  have before: "(\<exists>u \<in> set us. data_of u \<le> a \<and> a < data_of u + word_of_nat (cap_of (heap m) u)) \<longleftrightarrow>
      unat a \<in> (\<Union>u \<in> set us. data_extent (heap m) u)"
  proof -
    have "data_of u \<le> a \<and> a < data_of u + word_of_nat (cap_of (heap m) u) \<longleftrightarrow> unat a \<in> data_extent (heap m) u"
      if u: "u \<in> set us" for u
    proof -
      obtain blk where blk: "map_of (heap m) u = Some blk"
        using path_dom [OF before_current(1) [OF rep] u] by auto
      show ?thesis using in_block_data [OF ok blk order_refl] blk by (simp add: data_extent_def)
    qed
    then show ?thesis by blast
  qed
  have "p_current P \<noteq> nullptr \<and> data_of (p_current P) \<le> a \<and> a < data_of (p_current P) + p_pos P \<longleftrightarrow>
      unat a \<in> {unat (p_current P) + 16 ..< unat (p_current P) + 16 + unat (p_pos P)}"
  proof (cases "p_current P = nullptr")
    case True
    then show ?thesis using pool_rep_null [OF rep] by simp
  next
    case False
    obtain blk where blk: "map_of (heap m) (p_current P) = Some blk" by (rule pool_rep_current [OF rep False])
    then have "unat (p_pos P) \<le> unat (capacity blk)" using pos by simp
    from in_block_data [OF ok blk this, of a] False show ?thesis by simp
  qed
  then show ?thesis using contain_before_eq [OF before_current [OF rep], of a] before pos
    by (auto simp: contain_def pool_rep_used [OF rep] region_def min_def)
qed

lemma shrink_to_fit_min_kept:
  assumes inv: "pool_inv P m" and cur: "p_current P \<noteq> nullptr" and mn: "mn \<noteq> 0"
  shows "post_cxx {} (\<lambda>(cap, P', m'). P' = P \<and> pool_inv P m' \<and> used_region P m' = used_region P m \<and>
      foreign P m' = foreign P m \<and> bytes m' = bytes m \<and> dtor_log m' = dtor_log m \<and>
      pool_capacity P m' = Inr cap \<and> (mn \<le> cap \<or> pool_capacity P m = Inr cap)) (shrink_to_fit_min nw mn P m)"
proof -
  obtain us vs where rep: "pool_rep P m us vs" using inv by (auto simp: pool_inv_def)
  from rep cur obtain ws blk where vs: "vs = p_current P # ws" and blk: "map_of (heap m) (p_current P) = Some blk"
    and nx: "path (heap m) (next_block blk) ws nullptr" by (rule pool_rep_current)
  let ?sum = "\<lambda>xs. word_of_nat (\<Sum>u\<leftarrow>xs. cap_of (heap m) u) :: size_t"
  have sum0: "sum_until (length (heap m)) m (p_current P) (p_head P) (capacity blk) = Inr (capacity blk + ?sum us)"
    by (rule sum_until_eq [OF before_current [OF rep]])
  have pc: "path (heap m) (p_current P) (p_current P # ws) nullptr" using nx blk cur by simp
  have len: "length ws \<le> length (heap m)" using path_length [OF pc] by simp
  from keep_until_eq [OF pc len, of mn "capacity blk + ?sum us"] obtain ks ys where ws: "ws = ks @ ys"
    and keep: "keep_until (length (heap m)) m mn (p_current P) (capacity blk + ?sum us) =
      Inr (last (p_current P # ks), capacity blk + ?sum us + ?sum ks)"
    and stop: "mn \<le> capacity blk + ?sum us + ?sum ks \<or> ys = []" by blast
  define b where "b = last (p_current P # ks)"
  have "b \<in> set (p_current P # ws)" using ws last_in_set [of "p_current P # ks"] by (auto simp: b_def)
  then obtain bblk where bb: "b \<noteq> nullptr" "map_of (heap m) b = Some bblk" using path_dom [OF pc, of b] by auto
  from cut_after [OF rep [unfolded vs] ws b_def bb(2)] obtain m' m'' where
    d: "destroy_blocks_start_from (next_block bblk) m = Inr m'" "set_next b nullptr m' = Inr m''"
    and rep': "pool_rep P m'' us (p_current P # ks)"
    and same: "used_region P m'' = used_region P m" "foreign P m'' = foreign P m" "bytes m'' = bytes m" "dtor_log m'' = dtor_log m"
    and caps: "\<And>u. u \<notin> set ys \<Longrightarrow> cap_of (heap m'') u = cap_of (heap m) u" by blast
  have dist: "distinct (us @ p_current P # ks @ ys)" using path_distinct [OF pool_rep_path [OF rep]] by (simp add: vs ws)
  have "map (cap_of (heap m'')) (us @ p_current P # ks) = map (cap_of (heap m)) (us @ p_current P # ks)"
    using caps dist by auto
  then have cap': "pool_capacity P m'' = Inr (capacity blk + ?sum us + ?sum ks)"
    unfolding pool_capacity_eq [OF rep'] using blk by (simp only: map_append) (simp add: add_ac)
  have "pool_capacity P m = Inr (capacity blk + ?sum us + ?sum ks)" if "ys = []"
    using pool_capacity_eq [OF rep] that blk by (simp add: vs ws add_ac)
  then have "mn \<le> capacity blk + ?sum us + ?sum ks \<or> pool_capacity P m = Inr (capacity blk + ?sum us + ?sum ks)"
    using stop by blast
  moreover have "shrink_to_fit_min nw mn P m = Inr (capacity blk + ?sum us + ?sum ks, P, m'')"
    using cur mn blk sum0 keep [folded b_def] bb d by (simp add: shrink_to_fit_min_def lookup_block_def)
  ultimately show ?thesis using rep' same cap' by (auto simp: pool_inv_def)
qed

context operator_new
begin

lemma pool_clear_post:
  assumes inv: "pool_inv P m"
  shows "post_cxx {Terminate} (\<lambda>(P', m'). pool_inv P' m' \<and> used_region P' m' = {} \<and> p_pos P' = 0 \<and>
      p_current P' = p_head P' \<and> p_cleaners P' = [] \<and> p_block_size P' = p_block_size P \<and>
      dtor_log m' = dtor_log m @ run_cleaners (p_cleaners P) \<and> bytes m' = bytes m \<and>
      foreign P' m' = foreign P m) (pool_clear nw P m)" (is "post_cxx _ ?Q _")
proof -
  obtain us vs where rep: "pool_rep P m us vs" using inv by (auto simp: pool_inv_def)
  have bs: "unat (p_block_size P) < 2 ^ 62" using rep by (simp add: pool_rep_def)
  let ?m = "m\<lparr>dtor_log := dtor_log m @ run_cleaners (p_cleaners P)\<rparr>"
  show ?thesis
  proof (cases "p_head P = nullptr")
    case True
    then have null: "p_current P = nullptr" using pool_rep_path [OF rep] rep
      by (cases "us @ vs") (auto simp: pool_rep_def)
    have "?Q (P\<lparr>p_cleaners := [], p_pos := 0\<rparr>, ?m)"
    proof -
      have "pool_rep (P\<lparr>p_cleaners := [], p_pos := 0\<rparr>) ?m [] []"
        using pool_rep_heap [OF rep] bs True null by (simp add: pool_rep_def)
      from this pool_rep_used [OF this] show ?thesis using True null
        by (auto simp: pool_inv_def region_def intro: foreign_cong)
    qed
    then show ?thesis using True by (simp add: pool_clear_def cleaners_clear_eq)
  next
    case False
    then obtain b xs where bx: "us @ vs = b # xs" "p_head P = b"
      using pool_rep_path [OF rep] by (cases "us @ vs") auto
    have path: "path (heap ?m) b (b # xs) nullptr" using pool_rep_path [OF rep] bx by simp
    have ok: "heap_ok (heap ?m)" using pool_rep_heap [OF rep] by simp
    have "post_cxx {Terminate} ?Q (bind_cxx (compact_block nw (p_block_size P) b ?m)
      (\<lambda>(h, m2). Inr (P\<lparr>p_cleaners := [], p_head := h, p_current := h, p_pos := 0\<rparr>, m2)))"
    proof (rule post_bind [OF compact_block_post [OF ok path bs]])
      fix x
      assume "case x of (b', m') \<Rightarrow> \<exists>ds ys h'. xs = ds @ ys \<and> m' = ?m\<lparr>heap := h'\<rparr> \<and> heap_ok h' \<and>
        path h' b' (b' # ys) nullptr \<and> unat (p_block_size P) \<le> cap_of h' b' \<and>
        map_of h' |` (- set (b' # ys)) = map_of (heap ?m) |` (- set (b # xs))"
      then obtain b' ys h' where x: "x = (b', ?m\<lparr>heap := h'\<rparr>)" and h': "heap_ok h'" "path h' b' (b' # ys) nullptr"
        "map_of h' |` (- set (b' # ys)) = map_of (heap m) |` (- set (b # xs))" by (cases x) auto
      let ?P = "P\<lparr>p_cleaners := [], p_head := b', p_current := b', p_pos := 0\<rparr>"
      have rep': "pool_rep ?P (?m\<lparr>heap := h'\<rparr>) [] (b' # ys)" using h' bs by (simp add: pool_rep_def)
      have "foreign ?P (?m\<lparr>heap := h'\<rparr>) = foreign P m"
        using h'(3) pool_rep_foreign [OF rep] pool_rep_foreign [OF rep'] by (simp add: bx)
      then show "post_cxx {Terminate} ?Q ((\<lambda>(h, m2). Inr (P\<lparr>p_cleaners := [], p_head := h, p_current := h, p_pos := 0\<rparr>, m2)) x)"
        using rep' pool_rep_used [OF rep'] by (auto simp: x pool_inv_def region_def)
    qed
    then show ?thesis using False bx by (simp add: pool_clear_def cleaners_clear_eq Let_def)
  qed
qed

end

end
