(* ===== verification/Pool_Sequences.thy ===== *)
theory Pool_Sequences
  imports Pool_Ops
begin

text \<open>
  Copies of buffers and strings into the pool, and what any sequence of operations on a pool
  keeps: the representation invariant, the memory of others, and that nothing but a failed
  allocation stops it.
\<close>

subsection \<open>Definitions\<close>

definition stored :: "pool \<Rightarrow> mem \<Rightarrow> addr \<Rightarrow> byte list \<Rightarrow> pool \<Rightarrow> mem \<Rightarrow> bool" where
  "stored P m p bs P' m' \<longleftrightarrow>
     map (\<lambda>i. bytes m' (p + word_of_nat i)) [0..<length bs] = bs \<and>
     (\<forall>x. unat x \<notin> extent p (length bs) \<longrightarrow> bytes m' x = bytes m x) \<and>
     extent p (length bs) \<subseteq> used_region P' m' \<and> extent p (length bs) \<inter> used_region P m = {} \<and>
     used_region P m \<subseteq> used_region P' m' \<and> foreign P' m' = foreign P m \<and>
     dtor_log m' = dtor_log m \<and> p_cleaners P' = p_cleaners P"

text \<open>The calls a user of one pool can make, in the order the class declares them.\<close>

datatype pool_op =
    Set_block_size size_t
  | Clear
  | Create_buffer size_t
  | Create_aligned_buffer "16 word" size_t
  | Create_buffer_copy "byte list"
  | Create_cstring_buffer "byte list"
  | Create_cstring_view "byte list"
  | Register_destructor addr addr
  | Shrink_to_fit
  | Shrink_to_fit_min size_t

primrec pool_step :: "new_fun \<Rightarrow> addr \<Rightarrow> pool_op \<Rightarrow> pool \<times> mem \<Rightarrow> (pool \<times> mem) cxx" where
  "pool_step nw e (Set_block_size n) s = Inr (set_block_size n (fst s), snd s)"
| "pool_step nw e Clear s = pool_clear nw (fst s) (snd s)"
| "pool_step nw e (Create_buffer n) s = bind_cxx (create_buffer nw n (fst s) (snd s)) (\<lambda>(_, s'). Inr s')"
| "pool_step nw e (Create_aligned_buffer a n) s =
     bind_cxx (create_aligned_buffer nw a n (fst s) (snd s)) (\<lambda>(_, s'). Inr s')"
| "pool_step nw e (Create_buffer_copy bs) s =
     bind_cxx (create_buffer_copy nw bs (fst s) (snd s)) (\<lambda>(_, s'). Inr s')"
| "pool_step nw e (Create_cstring_buffer bs) s =
     bind_cxx (create_cstring_buffer nw e bs (fst s) (snd s)) (\<lambda>(_, s'). Inr s')"
| "pool_step nw e (Create_cstring_view bs) s =
     bind_cxx (create_cstring_view nw bs (fst s) (snd s)) (\<lambda>(_, s'). Inr s')"
| "pool_step nw e (Register_destructor p d) s = Inr (register_destructor p d (fst s), snd s)"
| "pool_step nw e Shrink_to_fit s = shrink_to_fit (fst s) (snd s)"
| "pool_step nw e (Shrink_to_fit_min n) s =
     bind_cxx (shrink_to_fit_min nw n (fst s) (snd s)) (\<lambda>(_, s'). Inr s')"

fun pool_run :: "new_fun \<Rightarrow> addr \<Rightarrow> pool_op list \<Rightarrow> pool \<times> mem \<Rightarrow> (pool \<times> mem) cxx" where
  "pool_run nw e [] s = Inr s"
| "pool_run nw e (opn # ops) s = bind_cxx (pool_step nw e opn s) (pool_run nw e ops)"

text \<open>Requests a real address space can meet, with alignments that are powers of two.\<close>

primrec op_ok :: "pool_op \<Rightarrow> bool" where
  "op_ok (Set_block_size n) \<longleftrightarrow> unat n \<le> 2 ^ 60"
| "op_ok Clear \<longleftrightarrow> True"
| "op_ok (Create_buffer n) \<longleftrightarrow> unat n \<le> 2 ^ 59"
| "op_ok (Create_aligned_buffer a n) \<longleftrightarrow> a \<in> (\<lambda>k. 2 ^ k) ` {..<16} \<and> unat n \<le> 2 ^ 59"
| "op_ok (Create_buffer_copy bs) \<longleftrightarrow> length bs < 2 ^ 59"
| "op_ok (Create_cstring_buffer bs) \<longleftrightarrow> length bs < 2 ^ 59"
| "op_ok (Create_cstring_view bs) \<longleftrightarrow> length bs < 2 ^ 59"
| "op_ok (Register_destructor p d) \<longleftrightarrow> True"
| "op_ok Shrink_to_fit \<longleftrightarrow> True"
| "op_ok (Shrink_to_fit_min n) \<longleftrightarrow> True"

subsection \<open>Copies\<close>

lemma memcpy_stored:
  assumes inv: "pool_inv P' m'" and fresh: "fresh_buffer P m p (length bs) P' m'"
  shows "\<exists>m''. memcpy p bs m' = Inr m'' \<and> heap m'' = heap m' \<and> pool_inv P' m'' \<and> stored P m p bs P' m''"
proof -
  define f where "f = (\<lambda>x. if unat p \<le> unat x \<and> unat x < unat p + length bs
                           then bs ! (unat x - unat p) else bytes m' x)"
  let ?m = "m'\<lparr>bytes := f\<rparr>"
  have v: "valid_range m' p (length bs)" and b: "unat p + length bs < 2 ^ 64" using fresh by (auto simp: fresh_buffer_def)
  then have eq: "memcpy p bs m' = Inr ?m" by (simp add: memcpy_def f_def)
  have "bytes ?m (p + word_of_nat i) = bs ! i" if "i < length bs" for i
  proof -
    have "unat (word_of_nat i :: size_t) = i" using that b by (intro unat_word_of_nat_64) simp
    then have "unat (p + word_of_nat i) = unat p + i" using that b by (subst unat_add_ok) simp_all
    then show ?thesis using that by (simp add: f_def)
  qed
  then have "map (\<lambda>i. bytes ?m (p + word_of_nat i)) [0..<length bs] = bs" by (intro nth_equalityI) simp_all
  moreover have "pool_inv P' ?m" using inv by (subst pool_inv_cong) simp_all
  moreover have "used_region P' ?m = used_region P' m'" by (rule used_region_cong) simp_all
  moreover have "foreign P' ?m = foreign P' m'" by (rule foreign_cong) simp_all
  ultimately show ?thesis using fresh eq
    unfolding stored_def fresh_buffer_def by (intro exI [of _ ?m]) (simp add: extent_def f_def)
qed

lemma memcpy_append:
  assumes "memcpy p xs m = Inr m1" and b: "unat p + length xs + length ys < 2 ^ 64"
    and v: "valid_range m p (length (xs @ ys))"
  shows "memcpy (p + word_of_nat (length xs)) ys m1 = memcpy p (xs @ ys) m"
proof -
  have m1: "m1 = m\<lparr>bytes := \<lambda>x. if unat p \<le> unat x \<and> unat x < unat p + length xs
        then xs ! (unat x - unat p) else bytes m x\<rparr>"
    using assms(1) by (auto simp: memcpy_def split: if_splits)
  have u: "unat (p + word_of_nat (length xs)) = unat p + length xs"
  proof -
    have l: "unat (word_of_nat (length xs) :: size_t) = length xs" using b by (intro unat_word_of_nat_64) simp
    show ?thesis using b by (subst unat_add_ok) (simp_all add: l)
  qed
  have "valid_range m (p + word_of_nat (length xs)) (length ys)"
    by (rule valid_range_part [OF v]) (simp_all add: u)
  then have "valid_range m1 (p + word_of_nat (length xs)) (length ys)" by (simp add: m1 valid_range_def)
  moreover have "(\<lambda>x. if unat p + length xs \<le> unat x \<and> unat x < unat p + length xs + length ys
      then ys ! (unat x - (unat p + length xs)) else bytes m1 x) =
    (\<lambda>x. if unat p \<le> unat x \<and> unat x < unat p + length (xs @ ys) then (xs @ ys) ! (unat x - unat p) else bytes m x)"
    by (rule ext) (auto simp: m1 nth_append)
  moreover have "m1\<lparr>bytes := b\<rparr> = m\<lparr>bytes := b\<rparr>" for b by (simp add: m1)
  ultimately show ?thesis using v by (simp only: memcpy_def u if_True)
qed

lemma set_block_size_bound:
  assumes "unat n \<le> 2 ^ 60"
  shows "unat (p_block_size (set_block_size n P)) < 2 ^ 62"
proof -
  define e where "e = (if n < sizeof_MemoryBlock then sizeof_MemoryBlock else n - sizeof_MemoryBlock)"
  have "unat e \<le> 2 ^ 60" using assms by (auto simp: e_def word_less_nat_alt unat_sub_ok)
  define k where "k = unat e + 16"
  have "unat e + 16 + 4096 < 2 ^ 64" using \<open>unat e \<le> 2 ^ 60\<close> by simp
  note u = get_block_size_unat [OF this, folded k_def]
  obtain j where j: "bitlen k = Suc j" "2 ^ j \<le> k"
    using bitlen_bounds [of k] bitlen_pos [of k] by (cases "bitlen k") (auto simp: k_def)
  have "unat (get_block_size e) + 16 \<le> k + 4096" unfolding u using j by auto
  then show ?thesis using \<open>unat e \<le> 2 ^ 60\<close> by (simp add: set_block_size_def e_def [symmetric] k_def)
qed

lemma pool_rep_set_block_size:
  "pool_rep P m us vs \<Longrightarrow> unat n \<le> 2 ^ 60 \<Longrightarrow> pool_rep (set_block_size n P) m us vs"
  using set_block_size_bound [of n P]
  by (cases vs) (auto simp: pool_rep_def set_block_size_def)

lemma StaticMemoryPool_inv:
  assumes "heap_ok (heap m)" and "unat n \<le> 2 ^ 60"
  shows "pool_inv (StaticMemoryPool n) m" and "foreign (StaticMemoryPool n) m = map_of (heap m)"
    and "used_region (StaticMemoryPool n) m = {}"
proof -
  have rep: "pool_rep (StaticMemoryPool n) m [] []"
    unfolding StaticMemoryPool_def using assms
    by (intro pool_rep_set_block_size) (simp_all add: pool_rep_def)
  then show "pool_inv (StaticMemoryPool n) m" by (auto simp: pool_inv_def)
  show "foreign (StaticMemoryPool n) m = map_of (heap m)"
    using pool_rep_foreign [OF rep] by simp
  show "used_region (StaticMemoryPool n) m = {}"
    using pool_rep_used [OF rep] pool_rep_null [OF rep] by (simp add: region_def StaticMemoryPool_def set_block_size_def)
qed

context operator_new
begin

lemma create_buffer_post:
  assumes "pool_inv P m" "unat n \<le> 2 ^ 60"
  shows "post_cxx {Bad_alloc, Terminate} (\<lambda>(p, P', m'). pool_inv P' m' \<and> fresh_buffer P m p (unat n) P' m')
    (create_buffer nw n P m)"
  unfolding create_buffer_def
  by (rule post_mono [OF create_buffer_internal_post [OF assms(1) _ assms(2), of 1]]) auto

lemma create_buffer_copy_post:
  assumes inv: "pool_inv P m" and n: "length bs < 2 ^ 59"
  shows "post_cxx {Bad_alloc, Terminate} (\<lambda>(p, P', m'). pool_inv P' m' \<and> stored P m p bs P' m')
    (create_buffer_copy nw bs P m)"
proof -
  have u: "unat (word_of_nat (length bs) :: size_t) = length bs" using n by (intro unat_word_of_nat_64) simp
  have le: "unat (word_of_nat (length bs) :: size_t) \<le> 2 ^ 60" using n by (simp add: u)
  show ?thesis unfolding create_buffer_copy_def
  proof (rule post_bind [OF create_buffer_post [OF inv le]], clarify)
    fix p P' m'
    assume "pool_inv P' m'" "fresh_buffer P m p (unat (word_of_nat (length bs) :: size_t)) P' m'"
    then obtain m1 where "memcpy p bs m' = Inr m1" "pool_inv P' m1" "stored P m p bs P' m1"
      unfolding u using memcpy_stored by blast
    then show "post_cxx {Bad_alloc, Terminate} (\<lambda>(p, P', m'). pool_inv P' m' \<and> stored P m p bs P' m')
      (bind_cxx (memcpy p bs m') (\<lambda>m1. Inr (p, P', m1)))" by simp
  qed
qed

lemma cstring_write:
  assumes inv: "pool_inv P m" and n: "length bs < 2 ^ 59"
  shows "post_cxx {Bad_alloc, Terminate} (\<lambda>(p, P', m'). pool_inv P' m' \<and> stored P m p (bs @ [0]) P' m')
    (bind_cxx (create_buffer nw (word_of_nat (length bs) + 1) P m) (\<lambda>(p, P', m').
     bind_cxx (memcpy p bs m') (\<lambda>m1.
     bind_cxx (memcpy (p + word_of_nat (length bs)) [0] m1) (\<lambda>m2. Inr (p, P', m2)))))"
proof -
  have u: "unat (word_of_nat (length bs) + 1 :: size_t) = length (bs @ [0 :: byte])"
  proof -
    have "unat (word_of_nat (length bs) :: size_t) = length bs" using n by (intro unat_word_of_nat_64) simp
    then show ?thesis using n by (subst unat_add_ok) simp_all
  qed
  then have le: "unat (word_of_nat (length bs) + 1 :: size_t) \<le> 2 ^ 60" using n by simp
  show ?thesis
  proof (rule post_bind [OF create_buffer_post [OF inv le]], clarify)
    fix p P' m'
    assume inv': "pool_inv P' m'" and "fresh_buffer P m p (unat (word_of_nat (length bs) + 1 :: size_t)) P' m'"
    then have fresh: "fresh_buffer P m p (length (bs @ [0 :: byte])) P' m'" by (simp only: u)
    then have v: "valid_range m' p (length (bs @ [0 :: byte]))" and b: "unat p + length bs + length [0 :: byte] < 2 ^ 64"
      by (auto simp: fresh_buffer_def)
    obtain m3 where m3: "memcpy p (bs @ [0]) m' = Inr m3" "pool_inv P' m3" "stored P m p (bs @ [0]) P' m3"
      using memcpy_stored [OF inv' fresh] by blast
    have "valid_range m' p (length bs)" by (rule valid_range_part [OF v]) simp_all
    then obtain m2 where m2: "memcpy p bs m' = Inr m2" by (simp add: memcpy_def)
    have v': "valid_range m' p (length (bs @ [0]))" using v by simp
    from memcpy_append [OF m2 _ v'] b m2 m3 show "post_cxx {Bad_alloc, Terminate}
        (\<lambda>(p, P', m'). pool_inv P' m' \<and> stored P m p (bs @ [0]) P' m')
        (bind_cxx (memcpy p bs m') (\<lambda>m1.
         bind_cxx (memcpy (p + word_of_nat (length bs)) [0] m1) (\<lambda>m2. Inr (p, P', m2))))" by simp
  qed
qed

lemma create_cstring_buffer_post:
  assumes inv: "pool_inv P m" and n: "length bs < 2 ^ 59" and ne: "bs \<noteq> []"
  shows "post_cxx {Bad_alloc, Terminate} (\<lambda>(p, P', m'). pool_inv P' m' \<and> stored P m p (bs @ [0]) P' m')
    (create_cstring_buffer nw e bs P m)"
  using cstring_write [OF inv n] ne by (simp add: create_cstring_buffer_def)

lemma create_cstring_view_eq:
  "bs \<noteq> [] \<Longrightarrow> create_cstring_view nw bs P m =
   bind_cxx (create_cstring_buffer nw e bs P m) (\<lambda>(p, s). Inr ((p, word_of_nat (length bs)), s))"
  by (simp add: create_cstring_view_def create_cstring_buffer_def bind_cxx_def split: sum.splits prod.splits)

lemma shrink_to_fit_min_post:
  assumes inv: "pool_inv P m"
  shows "post_cxx {Terminate} (\<lambda>(cap, P', m'). pool_inv P' m' \<and> foreign P' m' = foreign P m \<and>
      pool_capacity P' m' = Inr cap) (shrink_to_fit_min nw mn P m)"
    (is "post_cxx _ ?Q _")
proof (cases "p_current P = nullptr")
  case True
  obtain us vs where rep: "pool_rep P m us vs" using inv by (auto simp: pool_inv_def)
  then have "pool_capacity P m = Inr 0" using pool_capacity_eq [OF rep] pool_rep_null [OF rep True] by simp
  then show ?thesis using True inv by (simp add: shrink_to_fit_min_def)
next
  case cur: False
  show ?thesis
  proof (cases "mn = 0")
    case False
    show ?thesis by (rule post_mono [OF shrink_to_fit_min_kept [OF inv cur False]]) auto
  next
    case True
    have "post_cxx {Terminate} ?Q (bind_cxx (pool_clear nw P m) (\<lambda>(P1, m1).
        bind_cxx (destroy_blocks_start_from (p_head P1) m1) (\<lambda>m2.
          Inr (0, P1\<lparr>p_head := nullptr, p_current := nullptr\<rparr>, m2))))"
    proof (rule post_bind [OF pool_clear_post [OF inv]], clarify)
      fix P1 m1
      assume inv1: "pool_inv P1 m1" and p0: "p_pos P1 = 0" and f: "foreign P1 m1 = foreign P m"
      let ?P = "P1\<lparr>p_head := nullptr, p_current := nullptr\<rparr>"
      obtain h where h: "destroy_blocks_start_from (p_head P1) m1 = Inr (m1\<lparr>heap := h\<rparr>)" "map_of h = foreign P1 m1" "heap_ok h"
        using destroy_all_blocks [OF inv1] by blast
      have rep: "pool_rep ?P (m1\<lparr>heap := h\<rparr>) [] []" using inv1 h p0 by (auto simp: pool_inv_def pool_rep_def)
      then show "post_cxx {Terminate} ?Q (bind_cxx (destroy_blocks_start_from (p_head P1) m1) (\<lambda>m2. Inr (0, ?P, m2)))"
        using h f pool_capacity_eq [OF rep] pool_rep_foreign [OF rep] by (auto simp: pool_inv_def)
    qed
    then show ?thesis using True cur by (simp add: shrink_to_fit_min_def)
  qed
qed

lemma fresh_foreign: "fresh_buffer P m p n P' m' \<Longrightarrow> foreign P' m' = foreign P m"
  by (simp add: fresh_buffer_def)

lemma stored_foreign: "stored P m p bs P' m' \<Longrightarrow> foreign P' m' = foreign P m"
  by (simp add: stored_def)

text \<open>Dropping the result of an operation.\<close>

lemma post_snd:
  "post_cxx E (\<lambda>(p, s). Q p s) c \<Longrightarrow> E \<subseteq> E' \<Longrightarrow> (\<And>p s. Q p s \<Longrightarrow> R s) \<Longrightarrow>
   post_cxx E' R (bind_cxx c (\<lambda>(_, s). Inr s))"
  by (cases c) auto

lemma pool_step_post:
  assumes inv: "pool_inv P m" and ok: "op_ok opn"
  shows "post_cxx {Bad_alloc, Terminate} (\<lambda>(P', m'). pool_inv P' m' \<and> foreign P' m' = foreign P m)
    (pool_step nw e opn (P, m))"
proof (cases opn)
  case (Set_block_size n)
  have "foreign (set_block_size n P) m = foreign P m" by (rule foreign_cong) (simp_all add: set_block_size_def)
  moreover have "pool_inv (set_block_size n P) m"
    using inv ok Set_block_size pool_rep_set_block_size [of P m _ _ n] unfolding pool_inv_def by auto
  ultimately show ?thesis by (simp add: Set_block_size)
next
  case Clear
  show ?thesis unfolding Clear pool_step.simps fst_conv snd_conv
    by (rule post_mono [OF pool_clear_post [OF inv]]) auto
next
  case (Create_buffer n)
  with ok have n: "unat n \<le> 2 ^ 60" by simp
  show ?thesis unfolding Create_buffer pool_step.simps fst_conv snd_conv
    by (rule post_snd [OF create_buffer_post [OF inv n]]) (auto dest: fresh_foreign)
next
  case (Create_aligned_buffer a n)
  with ok obtain k where a: "a = 2 ^ k" "k < 16" and n: "unat n \<le> 2 ^ 59" by auto
  show ?thesis unfolding Create_aligned_buffer pool_step.simps fst_conv snd_conv
    by (rule post_snd [OF create_aligned_buffer_post [OF inv a n]]) (auto dest: fresh_foreign)
next
  case (Create_buffer_copy bs)
  with ok have n: "length bs < 2 ^ 59" by simp
  show ?thesis unfolding Create_buffer_copy pool_step.simps fst_conv snd_conv
    by (rule post_snd [OF create_buffer_copy_post [OF inv n]]) (auto dest: stored_foreign)
next
  case (Create_cstring_buffer bs)
  with ok have n: "length bs < 2 ^ 59" by simp
  show ?thesis
  proof (cases "bs = []")
    case True
    then show ?thesis using inv by (simp add: Create_cstring_buffer create_cstring_buffer_def)
  next
    case False
    show ?thesis unfolding Create_cstring_buffer pool_step.simps fst_conv snd_conv
      by (rule post_snd [OF create_cstring_buffer_post [OF inv n False]]) (auto dest: stored_foreign)
  qed
next
  case (Create_cstring_view bs)
  with ok have n: "length bs < 2 ^ 59" by simp
  show ?thesis
  proof (cases "bs = []")
    case True
    then show ?thesis using inv by (simp add: Create_cstring_view create_cstring_view_def)
  next
    case False
    then have "pool_step nw e opn (P, m) = bind_cxx (create_cstring_buffer nw e bs P m) (\<lambda>(_, s). Inr s)"
      by (simp add: Create_cstring_view create_cstring_view_eq [OF False, of P m e] bind_cxx_def split: sum.splits prod.splits)
    then show ?thesis
      by (simp only:) (rule post_snd [OF create_cstring_buffer_post [OF inv n False]], auto dest: stored_foreign)
  qed
next
  case (Register_destructor p d)
  then show ?thesis using inv pool_inv_cong [of m m "register_destructor p d P" P]
      foreign_cong [of m m "register_destructor p d P" P]
    by (simp add: register_destructor_def)
next
  case Shrink_to_fit
  show ?thesis unfolding Shrink_to_fit pool_step.simps fst_conv snd_conv
    by (rule post_mono [OF shrink_to_fit_post [OF inv]]) auto
next
  case (Shrink_to_fit_min n)
  show ?thesis unfolding Shrink_to_fit_min pool_step.simps fst_conv snd_conv
    by (rule post_snd [OF shrink_to_fit_min_post [OF inv]]) auto
qed

lemma pool_run_post:
  "pool_inv P m \<Longrightarrow> list_all op_ok ops \<Longrightarrow>
   post_cxx {Bad_alloc, Terminate} (\<lambda>(P', m'). pool_inv P' m' \<and> foreign P' m' = foreign P m)
     (pool_run nw e ops (P, m))"
proof (induction ops arbitrary: P m)
  case (Cons opn ops)
  have inv: "pool_inv P m" and ok: "op_ok opn" and oks: "list_all op_ok ops" using Cons.prems by simp_all
  show ?case unfolding pool_run.simps
  proof (rule post_bind [OF pool_step_post [OF inv ok]], clarify)
    fix P' m'
    assume "pool_inv P' m'" "foreign P' m' = foreign P m"
    with Cons.IH [OF this(1) oks] show "post_cxx {Bad_alloc, Terminate}
        (\<lambda>(P', m'). pool_inv P' m' \<and> foreign P' m' = foreign P m) (pool_run nw e ops (P', m'))" by simp
  qed
qed simp

text \<open>A pool's whole life: constructed, used, destroyed. What it leaves behind is the heap it
  found.\<close>

lemma pool_life:
  assumes ok: "heap_ok (heap m)" and n: "unat n \<le> 2 ^ 60" and ops: "list_all op_ok ops"
  shows "post_cxx {Bad_alloc, Terminate} (\<lambda>m'. map_of (heap m') = map_of (heap m) \<and> heap_ok (heap m'))
    (bind_cxx (pool_run nw e ops (StaticMemoryPool n, m)) (\<lambda>(P', m'). pool_dtor P' m'))"
proof (rule post_bind [OF pool_run_post [OF StaticMemoryPool_inv(1) [OF ok n] ops]], clarify)
  fix P' m'
  assume "pool_inv P' m'" "foreign P' m' = foreign (StaticMemoryPool n) m"
  then show "post_cxx {Bad_alloc, Terminate} (\<lambda>m'. map_of (heap m') = map_of (heap m) \<and> heap_ok (heap m')) (pool_dtor P' m')"
    using pool_dtor_eq [of P' m'] StaticMemoryPool_inv(2) [OF ok n] by auto
qed

end

end
