(* ===== verification/Pool_Theorems.thy ===== *)
theory Pool_Theorems
  imports Pool_Sequences
begin

text \<open>
  What the memory pool promises its users, for every \<open>operator new\<close> that meets its contract:
  safety and absence of leaks over whole lifetimes, fresh and aligned memory, contents of strings,
  clearing, shrinking, moving, and the one request the pool serves wrongly.
\<close>

subsection \<open>Supporting facts\<close>

definition block_shape :: "nat \<Rightarrow> bool" where
  "block_shape s \<longleftrightarrow> s \<in> (\<lambda>k. 2 ^ k) ` {..12} \<or> 4096 dvd s"

definition empty_mem :: mem where
  "empty_mem = \<lparr>heap = [], bytes = \<lambda>_. 0, dtor_log = []\<rparr>"

lemma heap_ok_empty [simp]: "heap_ok (heap empty_mem)"
  by (simp add: heap_ok_def empty_mem_def)

lemma empty_pool_inv [simp]: "unat n \<le> 2 ^ 60 \<Longrightarrow> pool_inv (StaticMemoryPool n) empty_mem"
  by (rule StaticMemoryPool_inv(1) [OF heap_ok_empty])

lemma block_shape_small: "n \<le> 4096 \<Longrightarrow> 0 < n \<Longrightarrow> block_shape (if 2 ^ (bitlen n - 1) < n then 2 ^ bitlen n else n)"
proof -
  assume n: "n \<le> 4096" "0 < n"
  then obtain j where j: "bitlen n = Suc j" "2 ^ j \<le> n" "n < 2 * 2 ^ j"
    using bitlen_bounds [of n] bitlen_pos [of n] by (cases "bitlen n") auto
  show ?thesis
  proof (cases "2 ^ j < n")
    case True
    then have "(2::nat) ^ j < 2 ^ 12" using n by simp
    then have "j < 12" by (simp only: power_strict_increasing_iff)
    then show ?thesis using True j by (auto simp: block_shape_def intro!: image_eqI [of _ _ "Suc j"])
  next
    case False
    then have "n = 2 ^ j" using j by simp
    then have "(2::nat) ^ j \<le> 2 ^ 12" using n by simp
    then have "j \<le> 12" by (simp only: power_increasing_iff)
    then show ?thesis using j \<open>n = 2 ^ j\<close> by (auto simp: block_shape_def)
  qed
qed

lemma pow2_above: "2 ^ j < (n::nat) \<Longrightarrow> n \<le> 2 ^ k \<Longrightarrow> 2 ^ Suc j \<le> (2::nat) ^ k"
  by (meson Suc_leI less_le_trans one_less_numeral_iff power_increasing power_less_imp_less_exp
      semiring_norm(76) one_le_numeral)

lemma block_shape_least:
  assumes n: "0 < n" and t: "block_shape t" "n \<le> t"
  shows "(if 4096 < n then (n + 4095) div 4096 * 4096
          else if 2 ^ (bitlen n - 1) < n then 2 ^ bitlen n else n) \<le> t"
proof (cases "4096 < n")
  case True
  have "t \<le> 4096" if "t \<in> (\<lambda>k. 2 ^ k) ` {..12}"
    using that power_increasing [of _ 12 "2::nat"] by fastforce
  then have "4096 dvd t" using t True by (auto simp: block_shape_def)
  then obtain q where "t = 4096 * q" by blast
  then show ?thesis using True t(2) by simp
next
  case False
  obtain j where j: "bitlen n = Suc j" "2 ^ j \<le> n" "n < 2 * 2 ^ j"
    using n bitlen_bounds [of n] bitlen_pos [of n] by (cases "bitlen n") auto
  show ?thesis
  proof (cases "2 ^ j < n")
    case True
    from t(1) show ?thesis unfolding block_shape_def
    proof
      assume "t \<in> (\<lambda>k. 2 ^ k) ` {..12}"
      then show ?thesis using pow2_above [OF True] t(2) j False True by auto
    next
      assume "4096 dvd t"
      then have "4096 \<le> t" using t(2) n by (auto dest: dvd_imp_le)
      moreover have "2 ^ Suc j \<le> (2::nat) ^ 12" using pow2_above [OF True, of 12] False by simp
      ultimately show ?thesis using j False True by simp
    qed
  qed (use j False t in simp)
qed


lemma move_assign_post:
  assumes nw: "operator_new nw" and inv: "pool_inv P m" and oinv: "pool_inv Q m"
    and apart: "set (chain_of m (p_head P)) \<inter> set (chain_of m (p_head Q)) = {}"
  shows "post_cxx {Terminate} (\<lambda>(P', Q', m'). P' = Q \<and> Q' = pool_reset_moved Q \<and> map_of (heap m') = foreign P m \<and>
      pool_inv P' m' \<and> used_region P' m' = used_region Q m \<and> bytes m' = bytes m \<and>
      dtor_log m' = dtor_log m @ run_cleaners (p_cleaners P)) (pool_move_assign nw P Q m)"
    (is "post_cxx _ ?R _")
  unfolding pool_move_assign_def
proof (rule post_bind [OF operator_new.pool_clear_post [OF nw inv]], clarify)
  fix P1 m1
  assume inv1: "pool_inv P1 m1" and f: "foreign P1 m1 = foreign P m" and b: "bytes m1 = bytes m"
    and d: "dtor_log m1 = dtor_log m @ run_cleaners (p_cleaners P)"
  obtain h where h: "destroy_blocks_start_from (p_head P1) m1 = Inr (m1\<lparr>heap := h\<rparr>)" "map_of h = foreign P m" "heap_ok h"
    using destroy_all_blocks [OF inv1] f by auto
  obtain us vs where rep: "pool_rep Q m us vs" using oinv by (auto simp: pool_inv_def)
  have same: "map_of h u = map_of (heap m) u" if "u \<in> set (us @ vs)" for u
    using apart that pool_rep_chain [OF rep] by (auto simp: h(2) foreign_def restrict_map_def)
  have cap: "cap_of h u = cap_of (heap m) u" if "u \<in> set (us @ vs)" for u
    using same [OF that] by (simp add: cap_of_def)
  have path: "path h (p_head Q) (us @ vs) nullptr"
    using pool_rep_path [OF rep] same by (subst path_cong [where h = "heap m"])
  have rep': "pool_rep Q (m1\<lparr>heap := h\<rparr>) us vs"
    using rep h(3) path cap by (cases vs) (auto simp: pool_rep_def)
  have "used_region Q (m1\<lparr>heap := h\<rparr>) = used_region Q m"
  proof (cases vs)
    case Nil
    then show ?thesis using rep unfolding pool_rep_used [OF rep] pool_rep_used [OF rep'] by (simp add: region_def pool_rep_def)
  next
    case (Cons c ws)
    then have "p_current Q = c" using rep by (simp add: pool_rep_def)
    then show ?thesis unfolding pool_rep_used [OF rep] pool_rep_used [OF rep'] using cap Cons by (intro region_cong) auto
  qed
  then have R: "?R (Q, pool_reset_moved Q, m1\<lparr>heap := h\<rparr>)" using rep' h b d by (auto simp: pool_inv_def)
  have upd: "P1\<lparr>p_block_size := p_block_size Q, p_pos := p_pos Q, p_head := p_head Q,
      p_current := p_current Q, p_cleaners := p_cleaners Q\<rparr> = Q" by simp
  show "post_cxx {Terminate} ?R (bind_cxx (destroy_blocks_start_from (p_head P1) m1) (\<lambda>m2.
       Inr (P1\<lparr>p_block_size := p_block_size Q, p_pos := p_pos Q, p_head := p_head Q,
              p_current := p_current Q, p_cleaners := p_cleaners Q\<rparr>, pool_reset_moved Q, m2)))"
    by (simp only: h(1) bind_cxx_Inr upd post_Inr) (rule R)
qed

text \<open>A pool with one block of 112 bytes, 8 of them handed out.\<close>

definition one_block_mem :: mem where
  "one_block_mem = \<lparr>heap = [(16, \<lparr>capacity = 112, next_block = nullptr\<rparr>)], bytes = \<lambda>_. 0, dtor_log = []\<rparr>"

definition one_block_pool :: pool where
  "one_block_pool = \<lparr>p_block_size = 112, p_pos = 8, p_head = 16, p_current = 16, p_cleaners = []\<rparr>"

lemma one_block_inv: "pool_inv one_block_pool one_block_mem"
proof -
  have "pool_rep one_block_pool one_block_mem [] [16]"
    by (simp add: pool_rep_def one_block_pool_def one_block_mem_def heap_ok_def block_ok_def round_up8_def)
  then show ?thesis by (auto simp: pool_inv_def)
qed

subsection \<open>Properties\<close>

text \<open>C2. A pool constructed with any block size, used by any sequence of calls and then
  destroyed either stops because an allocation failed (\<open>bad_alloc\<close>, or \<open>terminate\<close> inside a
  \<open>noexcept\<close> member), or leaves exactly the live blocks it found: nothing leaks, nothing is
  released twice, no invalid or null pointer is used, no loop runs forever.\<close>

theorem pool_life_no_leak:
  assumes "operator_new nw" and "heap_ok (heap m)" and "unat n \<le> 2 ^ 60" and "list_all op_ok ops"
  shows "post_cxx {Bad_alloc, Terminate} (\<lambda>m'. map_of (heap m') = map_of (heap m) \<and> heap_ok (heap m'))
    (bind_cxx (pool_run nw e ops (StaticMemoryPool n, m)) (\<lambda>(P', m'). pool_dtor P' m'))"
  by (rule operator_new.pool_life [OF assms])

theorem pool_life_no_leak_witness:
  "list_all op_ok [Create_buffer 100, Create_aligned_buffer 64 5000, Clear, Shrink_to_fit] \<and>
   post_cxx {Bad_alloc, Terminate} (\<lambda>m'. map_of (heap m') = map_of (heap empty_mem) \<and> heap_ok (heap m'))
    (bind_cxx (pool_run bump_new 0 [Create_buffer 100, Create_aligned_buffer 64 5000, Clear, Shrink_to_fit]
        (StaticMemoryPool 1024, empty_mem)) (\<lambda>(P', m'). pool_dtor P' m'))"
proof -
  have "(64 :: 16 word) \<in> (\<lambda>k. 2 ^ k) ` {..<16}" by (rule image_eqI [of _ _ 6]) simp_all
  then have ok: "list_all op_ok [Create_buffer 100, Create_aligned_buffer 64 5000, Clear, Shrink_to_fit]" by simp
  from pool_life_no_leak [OF bump.operator_new_axioms heap_ok_empty _ this, of 1024 0] ok show ?thesis by simp
qed

text \<open>C12. Every sequence of calls keeps the representation invariant of the pool and leaves the
  blocks of every other owner as they were; the only errors are failed allocations.\<close>

theorem pool_run_safe:
  assumes "operator_new nw" and "pool_inv P m" and "list_all op_ok ops"
  shows "post_cxx {Bad_alloc, Terminate} (\<lambda>(P', m'). pool_inv P' m' \<and> foreign P' m' = foreign P m)
    (pool_run nw e ops (P, m))"
  by (rule operator_new.pool_run_post [OF assms])

theorem pool_run_safe_witness:
  "post_cxx {Bad_alloc, Terminate}
     (\<lambda>(P', m'). pool_inv P' m' \<and> foreign P' m' = foreign (StaticMemoryPool 256) empty_mem)
     (pool_run bump_new 0 [Create_cstring_buffer [104, 105], Set_block_size 8192, Create_buffer 300, Shrink_to_fit_min 1]
       (StaticMemoryPool 256, empty_mem))"
  by (rule pool_run_safe [OF bump.operator_new_axioms]) simp_all

text \<open>\<open>create_buffer(n)\<close> returns \<open>n\<close> bytes that lie in one live block of the pool, that no
  earlier buffer uses, and that count as used from then on; earlier buffers stay in use and no byte
  changes.\<close>

theorem create_buffer_fresh:
  assumes "operator_new nw" and "pool_inv P m" and "unat n \<le> 2 ^ 60"
  shows "post_cxx {Bad_alloc, Terminate} (\<lambda>(p, P', m'). pool_inv P' m' \<and> fresh_buffer P m p (unat n) P' m')
    (create_buffer nw n P m)"
  by (rule operator_new.create_buffer_post [OF assms])

theorem create_buffer_fresh_witness:
  "post_cxx {Bad_alloc, Terminate} (\<lambda>(p, P', m'). pool_inv P' m' \<and>
       fresh_buffer one_block_pool one_block_mem p (unat (4000 :: size_t)) P' m')
     (create_buffer bump_new 4000 one_block_pool one_block_mem)"
  by (rule create_buffer_fresh [OF bump.operator_new_axioms one_block_inv]) simp

text \<open>C4. \<open>create_aligned_buffer\<close> does the same for every power-of-two alignment below
  65536, and the address it returns is a multiple of the alignment: the over-allocation and the
  slack it gives back never touch memory in use.\<close>

theorem create_aligned_buffer_fresh:
  assumes "operator_new nw" and "pool_inv P m" and "a = 2 ^ k" and "k < 16" and "unat n \<le> 2 ^ 59"
  shows "post_cxx {Bad_alloc, Terminate}
    (\<lambda>(p, P', m'). pool_inv P' m' \<and> unat a dvd unat p \<and> fresh_buffer P m p (unat n) P' m')
    (create_aligned_buffer nw a n P m)"
  by (rule operator_new.create_aligned_buffer_post [OF assms])

theorem create_aligned_buffer_fresh_witness:
  "post_cxx {Bad_alloc, Terminate} (\<lambda>(p, P', m'). pool_inv P' m' \<and> unat (64 :: 16 word) dvd unat p \<and>
       fresh_buffer (StaticMemoryPool 128) empty_mem p (unat (24 :: size_t)) P' m')
     (create_aligned_buffer bump_new 64 24 (StaticMemoryPool 128) empty_mem)"
  by (rule create_aligned_buffer_fresh [OF bump.operator_new_axioms _ _ _, where k = 6]) simp_all

text \<open>\<open>create_cstring_buffer\<close> of a non-empty string stores its bytes followed by a
  terminating zero in fresh memory of the pool; no byte outside that buffer changes.\<close>

theorem create_cstring_buffer_contents:
  assumes "operator_new nw" and "pool_inv P m" and "length s < 2 ^ 59" and "s \<noteq> []"
  shows "post_cxx {Bad_alloc, Terminate} (\<lambda>(p, P', m'). pool_inv P' m' \<and> stored P m p (s @ [0]) P' m')
    (create_cstring_buffer nw e s P m)"
  by (rule operator_new.create_cstring_buffer_post [OF assms])

theorem create_cstring_buffer_contents_witness:
  "post_cxx {Bad_alloc, Terminate} (\<lambda>(p, P', m'). pool_inv P' m' \<and>
       stored (StaticMemoryPool 128) empty_mem p ([104, 105] @ [0]) P' m')
     (create_cstring_buffer bump_new 0 [104, 105] (StaticMemoryPool 128) empty_mem)"
  by (rule create_cstring_buffer_contents [OF bump.operator_new_axioms]) simp_all

text \<open>C13. \<open>clear\<close> runs every registered destructor once, in the order of registration, leaves the
  pool with nothing in use and nothing registered, and touches no foreign block.\<close>

theorem pool_clear_effect:
  assumes "operator_new nw" and "pool_inv P m"
  shows "post_cxx {Terminate} (\<lambda>(P', m'). pool_inv P' m' \<and> used_region P' m' = {} \<and> p_pos P' = 0 \<and>
      p_current P' = p_head P' \<and> p_cleaners P' = [] \<and> p_block_size P' = p_block_size P \<and>
      dtor_log m' = dtor_log m @ run_cleaners (p_cleaners P) \<and> bytes m' = bytes m \<and>
      foreign P' m' = foreign P m) (pool_clear nw P m)"
  by (rule operator_new.pool_clear_post [OF assms])

theorem pool_clear_effect_witness:
  "let P = register_destructor 8 7 (register_destructor 4 3 (StaticMemoryPool 128)) in
   run_cleaners (p_cleaners P) = [(3, 4), (7, 8)] \<and>
   post_cxx {Terminate} (\<lambda>(P', m'). pool_inv P' m' \<and> used_region P' m' = {} \<and> p_pos P' = 0 \<and>
      p_current P' = p_head P' \<and> p_cleaners P' = [] \<and> p_block_size P' = p_block_size P \<and>
      dtor_log m' = dtor_log empty_mem @ run_cleaners (p_cleaners P) \<and> bytes m' = bytes empty_mem \<and>
      foreign P' m' = foreign P empty_mem) (pool_clear bump_new P empty_mem)"
proof -
  let ?P = "register_destructor 8 7 (register_destructor 4 3 (StaticMemoryPool 128))"
  have "pool_inv ?P empty_mem"
    using pool_inv_cong [of empty_mem empty_mem ?P "StaticMemoryPool 128"] empty_pool_inv [of 128]
    by (simp add: register_destructor_def)
  moreover have "run_cleaners (p_cleaners ?P) = [(3, 4), (7, 8)]"
    by (simp add: run_cleaners_def register_destructor_def StaticMemoryPool_def set_block_size_def)
  ultimately show ?thesis unfolding Let_def
    using pool_clear_effect [OF bump.operator_new_axioms, of ?P empty_mem] by blast
qed

text \<open>C38. \<open>shrink_to_fit()\<close> cannot fail, keeps everything in use, and leaves no block behind the
  current one.\<close>

theorem shrink_to_fit_keeps_used:
  assumes "pool_inv P m"
  shows "post_cxx {} (\<lambda>(P', m'). pool_inv P' m' \<and> used_region P' m' = used_region P m \<and> foreign P' m' = foreign P m \<and>
      bytes m' = bytes m \<and> dtor_log m' = dtor_log m \<and> p_cleaners P' = p_cleaners P \<and>
      (p_head P' = nullptr \<or> last (chain_of m' (p_head P')) = p_current P')) (shrink_to_fit P m)"
  by (rule shrink_to_fit_post [OF assms])

theorem shrink_to_fit_keeps_used_witness:
  "pool_inv one_block_pool one_block_mem \<and>
   post_cxx {} (\<lambda>(P', m'). pool_inv P' m' \<and> used_region P' m' = used_region one_block_pool one_block_mem \<and>
      foreign P' m' = foreign one_block_pool one_block_mem \<and>
      bytes m' = bytes one_block_mem \<and> dtor_log m' = dtor_log one_block_mem \<and> p_cleaners P' = p_cleaners one_block_pool \<and>
      (p_head P' = nullptr \<or> last (chain_of m' (p_head P')) = p_current P')) (shrink_to_fit one_block_pool one_block_mem)"
  using shrink_to_fit_keeps_used [OF one_block_inv] one_block_inv by simp

text \<open>\<open>shrink_to_fit(min_capacity)\<close> returns the capacity the pool has afterwards, keeps the
  invariant and touches no foreign block.\<close>

theorem shrink_to_fit_min_capacity:
  assumes "operator_new nw" and "pool_inv P m"
  shows "post_cxx {Terminate} (\<lambda>(cap, P', m'). pool_inv P' m' \<and> foreign P' m' = foreign P m \<and>
      pool_capacity P' m' = Inr cap) (shrink_to_fit_min nw mn P m)"
  by (rule operator_new.shrink_to_fit_min_post [OF assms])

theorem shrink_to_fit_min_capacity_witness:
  "post_cxx {Terminate} (\<lambda>(cap, P', m'). pool_inv P' m' \<and> foreign P' m' = foreign one_block_pool one_block_mem \<and>
      pool_capacity P' m' = Inr cap) (shrink_to_fit_min bump_new 64 one_block_pool one_block_mem)"
  by (rule shrink_to_fit_min_capacity [OF bump.operator_new_axioms one_block_inv])

text \<open>\<open>contain\<close> answers exactly whether an address lies in memory the pool has handed out, as long
  as the position is within the current block.\<close>

theorem contain_iff_used:
  assumes "pool_inv P m" and "unat (p_pos P) \<le> cap_of (heap m) (p_current P)"
  shows "contain P m a = Inr (unat a \<in> used_region P m)"
  using assms contain_eq by (auto simp: pool_inv_def)

theorem contain_iff_used_witness:
  "contain one_block_pool one_block_mem 39 = Inr (unat (39 :: addr) \<in> used_region one_block_pool one_block_mem)"
  by (rule contain_iff_used [OF one_block_inv]) (simp add: one_block_pool_def one_block_mem_def)

text \<open>C20. \<open>get_block_size\<close> rounds up as its comment says: with the header, the block is the
  smallest size that holds the request among the powers of two up to 4 KB and the multiples of
  4 KB.\<close>

theorem get_block_size_least:
  assumes "unat e + 4112 < 2 ^ 64"
  shows "unat (get_block_size e) + 16 = (LEAST t. block_shape t \<and> unat e + 16 \<le> t)"
proof -
  define n s where "n = unat e + 16" and "s = unat (get_block_size e) + 16"
  have s: "s = (if 4096 < n then (n + 4095) div 4096 * 4096
     else if 2 ^ (bitlen n - 1) < n then 2 ^ bitlen n else n)"
    using get_block_size_unat [of e] assms(1) by (simp add: s_def n_def add.commute)
  have n: "0 < n" by (simp add: n_def)
  have least: "s \<le> t" if "block_shape t \<and> n \<le> t" for t
    unfolding s by (rule block_shape_least [OF n]) (use that in simp_all)
  have "block_shape s"
    using block_shape_small [OF _ n] by (auto simp: s block_shape_def [of "_ * 4096"] not_less)
  moreover have "n \<le> s" unfolding s using bitlen_bounds [of n] by auto
  ultimately have "(LEAST t. block_shape t \<and> n \<le> t) = s" by (intro Least_equality least) simp_all
  then show ?thesis by (simp add: n_def s_def)
qed

theorem get_block_size_least_witness:
  "unat (get_block_size 1000) + 16 = (LEAST t. block_shape t \<and> unat (1000 :: size_t) + 16 \<le> t)"
  by (rule get_block_size_least) simp




text \<open>Move assignment runs the target's destructors, releases the target's blocks and no other,
  and hands over the source's blocks: the target now is the source, which is left empty.\<close>

theorem pool_move_assign_effect:
  assumes "operator_new nw" and "pool_inv P m" and "pool_inv Q m"
    and "set (chain_of m (p_head P)) \<inter> set (chain_of m (p_head Q)) = {}"
  shows "post_cxx {Terminate} (\<lambda>(P', Q', m'). P' = Q \<and> Q' = pool_reset_moved Q \<and> map_of (heap m') = foreign P m \<and>
      pool_inv P' m' \<and> used_region P' m' = used_region Q m \<and> bytes m' = bytes m \<and>
      dtor_log m' = dtor_log m @ run_cleaners (p_cleaners P)) (pool_move_assign nw P Q m)"
  by (rule move_assign_post [OF assms])

theorem pool_move_assign_effect_witness:
  "post_cxx {Terminate} (\<lambda>(P', Q', m'). P' = StaticMemoryPool 4096 \<and> Q' = pool_reset_moved (StaticMemoryPool 4096) \<and>
      map_of (heap m') = foreign (StaticMemoryPool 128) empty_mem \<and>
      pool_inv P' m' \<and> used_region P' m' = used_region (StaticMemoryPool 4096) empty_mem \<and> bytes m' = bytes empty_mem \<and>
      dtor_log m' = dtor_log empty_mem @ run_cleaners (p_cleaners (StaticMemoryPool 128)))
    (pool_move_assign bump_new (StaticMemoryPool 128) (StaticMemoryPool 4096) empty_mem)"
  by (rule pool_move_assign_effect [OF bump.operator_new_axioms]) (simp_all add: chain_of_def empty_mem_def [THEN arg_cong [of _ _ heap]])

text \<open>C39. A request whose size and the current position add up to \<open>2 ^ 64\<close> passes the capacity test
  because the sum wraps to 0: the call succeeds, returns a pointer into the current block and sets
  the position to 0, so that the next buffer overlaps the ones in use.\<close>

theorem create_buffer_wraps:
  assumes "pool_inv P m" and "p_current P \<noteq> nullptr" and "n + p_pos P = 0" and "unat k \<le> cap_of (heap m) (p_current P)"
  shows "create_buffer nw n P m = Inr (data_of (p_current P) + p_pos P, P\<lparr>p_pos := 0\<rparr>, m) \<and>
    create_buffer nw k (P\<lparr>p_pos := 0\<rparr>) m = Inr (data_of (p_current P), P\<lparr>p_pos := k\<rparr>, m)"
proof -
  obtain us vs where rep: "pool_rep P m us vs" using assms(1) by (auto simp: pool_inv_def)
  obtain blk where "map_of (heap m) (p_current P) = Some blk" by (rule pool_rep_current [OF rep assms(2)])
  then show ?thesis using assms(2-)
    by (simp add: create_buffer_def create_buffer_internal_def ensure_current_def align_pos_def
        lookup_block_def Let_def add.commute word_le_nat_alt)
qed

theorem create_buffer_wraps_witness:
  "create_buffer bump_new (- 8) one_block_pool one_block_mem =
     Inr (data_of (p_current one_block_pool) + p_pos one_block_pool, one_block_pool\<lparr>p_pos := 0\<rparr>, one_block_mem) \<and>
   create_buffer bump_new 8 (one_block_pool\<lparr>p_pos := 0\<rparr>) one_block_mem =
     Inr (data_of (p_current one_block_pool), one_block_pool\<lparr>p_pos := 8\<rparr>, one_block_mem)"
  by (rule create_buffer_wraps [OF one_block_inv]) (simp_all add: one_block_pool_def one_block_mem_def)

end
