(* ===== verification/Pool_Refinement.thy ===== *)
theory Pool_Refinement
  imports Pool_Theorems
begin

text \<open>
  The memory pool as its users see it. The abstract specification is an arena: a list of live buffers, each an
  address with contents that only its owner changes, and the destructor calls still due and already made. A client
  calls the pool in any order, keeps the pointers it gets and writes through them. Every run of the client on
  \<open>StaticMemoryPool\<close> is a run of the arena.
\<close>

subsection \<open>The client\<close>

text \<open>A call of the pool, or a write of one byte into a buffer the client holds: its number and an offset. Writes
  outside the buffers it holds are none of the pool's business and are left out.\<close>

datatype client_op = Call pool_op | Write nat nat byte

text \<open>The buffers a call returns, with their sizes. A string that is empty is not stored in the pool.\<close>

primrec pool_call :: "new_fun \<Rightarrow> addr \<Rightarrow> pool_op \<Rightarrow> pool \<times> mem \<Rightarrow> ((addr \<times> nat) list \<times> pool \<times> mem) cxx" where
  "pool_call nw e (Set_block_size n) s = Inr ([], set_block_size n (fst s), snd s)"
| "pool_call nw e Clear s = bind_cxx (pool_clear nw (fst s) (snd s)) (\<lambda>s'. Inr ([], s'))"
| "pool_call nw e (Create_buffer n) s =
     bind_cxx (create_buffer nw n (fst s) (snd s)) (\<lambda>(p, s'). Inr ([(p, unat n)], s'))"
| "pool_call nw e (Create_aligned_buffer a n) s =
     bind_cxx (create_aligned_buffer nw a n (fst s) (snd s)) (\<lambda>(p, s'). Inr ([(p, unat n)], s'))"
| "pool_call nw e (Create_buffer_copy bs) s =
     bind_cxx (create_buffer_copy nw bs (fst s) (snd s)) (\<lambda>(p, s'). Inr ([(p, length bs)], s'))"
| "pool_call nw e (Create_cstring_buffer bs) s =
     bind_cxx (create_cstring_buffer nw e bs (fst s) (snd s))
       (\<lambda>(p, s'). Inr (if bs = [] then [] else [(p, length bs + 1)], s'))"
| "pool_call nw e (Create_cstring_view bs) s =
     bind_cxx (create_cstring_view nw bs (fst s) (snd s))
       (\<lambda>((p, sz), s'). Inr (if bs = [] then [] else [(p, unat sz + 1)], s'))"
| "pool_call nw e (Register_destructor p d) s = Inr ([], register_destructor p d (fst s), snd s)"
| "pool_call nw e Shrink_to_fit s = bind_cxx (shrink_to_fit (fst s) (snd s)) (\<lambda>s'. Inr ([], s'))"
| "pool_call nw e (Shrink_to_fit_min n) s =
     bind_cxx (shrink_to_fit_min nw n (fst s) (snd s)) (\<lambda>(_, s'). Inr ([], s'))"

text \<open>The calls after which the buffers are gone.\<close>

definition gives_up :: "pool_op \<Rightarrow> bool" where
  "gives_up opn \<longleftrightarrow> opn = Clear \<or> opn = Shrink_to_fit_min 0"

type_synonym client_state = "(addr \<times> nat) list \<times> pool \<times> mem"

fun client_step :: "new_fun \<Rightarrow> addr \<Rightarrow> client_op \<Rightarrow> client_state \<Rightarrow> client_state cxx" where
  "client_step nw e (Call opn) (hs, P, m) =
     bind_cxx (pool_call nw e opn (P, m)) (\<lambda>(new, P', m'). Inr (if gives_up opn then [] else hs @ new, P', m'))"
| "client_step nw e (Write i off b) (hs, P, m) =
     (if i < length hs \<and> off < snd (hs ! i)
      then bind_cxx (memcpy (fst (hs ! i) + word_of_nat off) [b] m) (\<lambda>m'. Inr (hs, P, m'))
      else Inr (hs, P, m))"

fun client_run :: "new_fun \<Rightarrow> addr \<Rightarrow> client_op list \<Rightarrow> client_state \<Rightarrow> client_state cxx" where
  "client_run nw e [] s = Inr s"
| "client_run nw e (c # cs) s = bind_cxx (client_step nw e c s) (client_run nw e cs)"

primrec client_ok :: "client_op \<Rightarrow> bool" where
  "client_ok (Call opn) \<longleftrightarrow> op_ok opn"
| "client_ok (Write i off b) \<longleftrightarrow> True"

text \<open>Leaving out the results gives the steps of \<open>Pool_Sequences\<close>.\<close>

lemma pool_call_step: "bind_cxx (pool_call nw e opn s) (\<lambda>(new, s'). Inr s') = pool_step nw e opn s"
  by (cases opn) (simp_all add: bind_cxx_def split: sum.splits prod.splits)

subsection \<open>The arena\<close>

record arena =
  live :: "(addr \<times> byte list) list"
  due :: "(addr \<times> addr) list"
  called :: "(addr \<times> addr) list"

definition arena_empty :: "(addr \<times> addr) list \<Rightarrow> arena" where
  "arena_empty log = \<lparr>live = [], due = [], called = log\<rparr>"

definition apart :: "addr \<Rightarrow> nat \<Rightarrow> (addr \<times> byte list) list \<Rightarrow> bool" where
  "apart p n bufs \<longleftrightarrow> list_all (\<lambda>(q, cs). extent p n \<inter> extent q (length cs) = {}) bufs"

text \<open>What a request asks for: alignment and size of an uninitialised buffer, or the contents of an initialised one.\<close>

primrec raw_request :: "pool_op \<Rightarrow> (nat \<times> nat) option" where
  "raw_request (Set_block_size n) = None"
| "raw_request Clear = None"
| "raw_request (Create_buffer n) = Some (1, unat n)"
| "raw_request (Create_aligned_buffer a n) = Some (unat a, unat n)"
| "raw_request (Create_buffer_copy bs) = None"
| "raw_request (Create_cstring_buffer bs) = None"
| "raw_request (Create_cstring_view bs) = None"
| "raw_request (Register_destructor p d) = None"
| "raw_request Shrink_to_fit = None"
| "raw_request (Shrink_to_fit_min n) = None"

primrec stored_contents :: "pool_op \<Rightarrow> byte list option" where
  "stored_contents (Set_block_size n) = None"
| "stored_contents Clear = None"
| "stored_contents (Create_buffer n) = None"
| "stored_contents (Create_aligned_buffer a n) = None"
| "stored_contents (Create_buffer_copy bs) = Some bs"
| "stored_contents (Create_cstring_buffer bs) = (if bs = [] then None else Some (bs @ [0]))"
| "stored_contents (Create_cstring_view bs) = (if bs = [] then None else Some (bs @ [0]))"
| "stored_contents (Register_destructor p d) = None"
| "stored_contents Shrink_to_fit = None"
| "stored_contents (Shrink_to_fit_min n) = None"

inductive arena_step :: "client_op \<Rightarrow> arena \<Rightarrow> arena \<Rightarrow> bool" where
  allocate: "raw_request opn = Some (a, length cs) \<Longrightarrow> a dvd unat p \<Longrightarrow> apart p (length cs) (live A) \<Longrightarrow>
    arena_step (Call opn) A (A\<lparr>live := live A @ [(p, cs)]\<rparr>)"
| store: "stored_contents opn = Some cs \<Longrightarrow> apart p (length cs) (live A) \<Longrightarrow>
    arena_step (Call opn) A (A\<lparr>live := live A @ [(p, cs)]\<rparr>)"
| nothing: "raw_request opn = None \<Longrightarrow> stored_contents opn = None \<Longrightarrow> \<not> gives_up opn \<Longrightarrow>
    (\<And>p d. opn \<noteq> Register_destructor p d) \<Longrightarrow> arena_step (Call opn) A A"
| register: "arena_step (Call (Register_destructor p d)) A (A\<lparr>due := due A @ run_cleaners [\<lparr>c_destructor = d, c_pointer = p\<rparr>]\<rparr>)"
| clear: "gives_up opn \<Longrightarrow> arena_step (Call opn) A (A\<lparr>live := [], due := [], called := called A @ due A\<rparr>)"
| nothing_used: "list_all (\<lambda>(p, cs). cs = []) (live A) \<Longrightarrow> arena_step (Call (Shrink_to_fit_min 0)) A (A\<lparr>live := []\<rparr>)"
| write_inside: "i < length (live A) \<Longrightarrow> live A ! i = (p, cs) \<Longrightarrow> off < length cs \<Longrightarrow>
    arena_step (Write i off b) A (A\<lparr>live := (live A)[i := (p, cs[off := b])]\<rparr>)"
| write_outside: "\<not> (i < length (live A) \<and> off < length (snd (live A ! i))) \<Longrightarrow> arena_step (Write i off b) A A"

inductive arena_run :: "client_op list \<Rightarrow> arena \<Rightarrow> arena \<Rightarrow> bool" where
  stop: "arena_run [] A A"
| go: "arena_step c A B \<Longrightarrow> arena_run cs B C \<Longrightarrow> arena_run (c # cs) A C"

inductive_cases arena_stepE: "arena_step c A B"

subsection \<open>The abstraction\<close>

definition read_bytes :: "mem \<Rightarrow> addr \<Rightarrow> nat \<Rightarrow> byte list" where
  "read_bytes m p n = map (\<lambda>i. bytes m (p + word_of_nat i)) [0..<n]"

text \<open>A live buffer lies in the memory the pool has handed out and holds its contents.\<close>

definition holds :: "pool \<Rightarrow> mem \<Rightarrow> addr \<times> byte list \<Rightarrow> bool" where
  "holds P m = (\<lambda>(p, cs). extent p (length cs) \<subseteq> used_region P m \<and> read_bytes m p (length cs) = cs)"

definition handles :: "(addr \<times> byte list) list \<Rightarrow> (addr \<times> nat) list" where
  "handles = map (\<lambda>(p, cs). (p, length cs))"

lemma handles_simps [simp]:
  "handles (bufs @ [(p, cs)]) = handles bufs @ [(p, length cs)]" "length (handles bufs) = length bufs"
  "k < length bufs \<Longrightarrow> handles bufs ! k = (fst (bufs ! k), length (snd (bufs ! k)))" "handles [] = []"
  by (simp_all add: handles_def split_beta)

definition disjoint_handles :: "(addr \<times> nat) list \<Rightarrow> bool" where
  "disjoint_handles = sorted_wrt (\<lambda>h h'. extent (fst h) (snd h) \<inter> extent (fst h') (snd h') = {})"

definition arena_view :: "arena \<Rightarrow> client_state \<Rightarrow> bool" where
  "arena_view A = (\<lambda>(hs, P, m). pool_inv P m \<and> hs = handles (live A) \<and> disjoint_handles (handles (live A)) \<and>
     list_all (holds P m) (live A) \<and>
     due A = run_cleaners (p_cleaners P) \<and> called A = dtor_log m)"

lemma used_in_block:
  assumes "pool_rep P m us vs" "x \<in> used_region P m"
  obtains b blk where "map_of (heap m) b = Some blk" "unat b + 16 \<le> x" "x < unat b + 16 + unat (capacity blk)"
proof -
  have "x \<in> region (heap m) us (p_current P) (unat (p_pos P))" using assms by (simp add: pool_rep_used)
  then obtain b where "unat b + 16 \<le> x" "x < unat b + 16 + cap_of (heap m) b"
    by (auto simp: region_def data_extent_def)
  then show ?thesis using that by (cases "map_of (heap m) b") (auto simp: cap_of_def)
qed

text \<open>A range inside the handed-out memory lies inside one block, since headers separate the blocks.\<close>

lemma used_valid_range:
  assumes inv: "pool_inv P m" and sub: "extent p n \<subseteq> used_region P m"
  shows "valid_range m p n" and "unat p + n < 2 ^ 64"
proof -
  obtain us vs where rep: "pool_rep P m us vs" using inv by (auto simp: pool_inv_def)
  have ok: "heap_ok (heap m)" by (rule pool_rep_heap [OF rep])
  have "valid_range m p n \<and> unat p + n < 2 ^ 64"
  proof (cases "n = 0")
    case False
    then have "unat p \<in> used_region P m" using sub by (auto simp: extent_def)
    with rep obtain b blk where b: "map_of (heap m) b = Some blk" "unat b + 16 \<le> unat p"
      "unat p < unat b + 16 + unat (capacity blk)" by (rule used_in_block)
    let ?e = "unat b + 16 + unat (capacity blk)"
    have le: "unat p + n \<le> ?e"
    proof (rule ccontr)
      assume "\<not> unat p + n \<le> ?e"
      then have "?e \<in> used_region P m" using sub b by (auto simp: extent_def)
      with rep obtain c blk' where c: "map_of (heap m) c = Some blk'" "unat c + 16 \<le> ?e"
        "?e < unat c + 16 + unat (capacity blk')" by (rule used_in_block)
      have "c \<noteq> b" using c b by auto
      with heap_ok_disjoint [OF ok b(1) c(1)] have "block_extent b blk \<inter> block_extent c blk' = {}" by simp
      moreover have "?e - 1 \<in> block_extent b blk" "?e - 1 \<in> block_extent c blk'"
        using b c by (auto simp: block_extent_def extent_def)
      ultimately show False by blast
    qed
    moreover have "?e < 2 ^ 64" using heap_ok_block [OF ok b(1)] by (simp add: block_ok_def)
    moreover have "(b, blk) \<in> set (heap m)" using b(1) by (rule map_of_SomeD)
    ultimately show ?thesis using b by (auto simp: valid_range_def list_ex_iff)
  qed (use unat_lt_64 [of p] in \<open>simp add: valid_range_def\<close>)
  then show "valid_range m p n" "unat p + n < 2 ^ 64" by simp_all
qed

lemma unat_offset: "unat p + n < 2 ^ 64 \<Longrightarrow> i < n \<Longrightarrow> unat (p + word_of_nat i :: addr) = unat p + i"
  by (subst unat_add_ok) (simp_all add: unat_word_of_nat_64)

lemma read_bytes_cong:
  assumes "unat p + n < 2 ^ 64" "\<And>x. unat x \<in> extent p n \<Longrightarrow> bytes m' x = bytes m x"
  shows "read_bytes m' p n = read_bytes m p n"
  using assms by (auto simp: read_bytes_def extent_def unat_offset)

text \<open>An operation that keeps the handed-out memory and its bytes keeps the live buffers.\<close>

lemma holds_mono:
  assumes "pool_inv P m" "list_all (holds P m) bufs" "used_region P m \<subseteq> used_region P' m'"
    and "\<And>x. unat x \<in> used_region P m \<Longrightarrow> bytes m' x = bytes m x"
  shows "list_all (holds P' m') bufs"
  unfolding list_all_iff
proof (clarify)
  fix p cs
  assume "(p, cs) \<in> set bufs"
  then have h: "extent p (length cs) \<subseteq> used_region P m" "read_bytes m p (length cs) = cs"
    using assms(2) by (auto simp: list_all_iff holds_def)
  have "read_bytes m' p (length cs) = read_bytes m p (length cs)"
    using h(1) assms(4) by (intro read_bytes_cong used_valid_range(2) [OF assms(1)]) auto
  then show "holds P' m' (p, cs)" using h assms(3) by (auto simp: holds_def)
qed

lemma view_keep:
  assumes "arena_view A (hs, P, m)" "pool_inv P' m'" "used_region P m \<subseteq> used_region P' m'" "bytes m' = bytes m"
    "dtor_log m' = dtor_log m" "p_cleaners P' = p_cleaners P"
  shows "arena_view A (hs, P', m')"
  using assms holds_mono [of P m "live A" P' m'] by (simp add: arena_view_def)

text \<open>A new buffer, uninitialised or filled.\<close>

lemma view_new:
  assumes view: "arena_view A (hs, P, m)" and inv: "pool_inv P' m'"
    and ext: "extent p (length cs) \<subseteq> used_region P' m'" "extent p (length cs) \<inter> used_region P m = {}"
    and keep: "used_region P m \<subseteq> used_region P' m'" "\<And>x. unat x \<notin> extent p (length cs) \<Longrightarrow> bytes m' x = bytes m x"
    and rest: "dtor_log m' = dtor_log m" "p_cleaners P' = p_cleaners P" and cs: "read_bytes m' p (length cs) = cs"
  shows "arena_view (A\<lparr>live := live A @ [(p, cs)]\<rparr>) (hs @ [(p, length cs)], P', m') \<and> apart p (length cs) (live A)"
proof -
  have inv0: "pool_inv P m" and h: "list_all (holds P m) (live A)" using view by (simp_all add: arena_view_def)
  have "list_all (holds P' m') (live A)"
    by (rule holds_mono [OF inv0 h keep(1)]) (use ext(2) keep(2) in blast)
  moreover have ap: "extent p (length cs) \<inter> extent q (length ds) = {}" if "(q, ds) \<in> set (live A)" for q ds
  proof -
    have "holds P m (q, ds)" using h that by (simp only: list_all_iff)
    then show ?thesis using ext(2) by (auto simp: holds_def)
  qed
  moreover have "disjoint_handles (handles (live A @ [(p, cs)]))"
  proof -
    have "extent (fst h) (snd h) \<inter> extent p (length cs) = {}" if "h \<in> set (handles (live A))" for h
      using that ap Int_commute by (fastforce simp: handles_def)
    then show ?thesis using view by (simp add: arena_view_def disjoint_handles_def sorted_wrt_append)
  qed
  moreover have "apart p (length cs) (live A)" unfolding apart_def list_all_iff by clarify (rule ap)
  ultimately show ?thesis using view inv ext(1) rest cs by (simp add: arena_view_def) (simp add: holds_def)
qed

lemma view_fresh:
  assumes "arena_view A (hs, P, m)" "pool_inv P' m'" "fresh_buffer P m p n P' m'"
  shows "arena_view (A\<lparr>live := live A @ [(p, read_bytes m' p n)]\<rparr>) (hs @ [(p, n)], P', m') \<and> apart p n (live A)"
proof -
  have "length (read_bytes m' p n) = n" by (simp add: read_bytes_def)
  then show ?thesis using view_new [OF assms(1,2), of p "read_bytes m' p n"] assms(3) by (simp add: fresh_buffer_def)
qed

lemma view_stored:
  assumes "arena_view A (hs, P, m)" "pool_inv P' m'" "stored P m p cs P' m'"
  shows "arena_view (A\<lparr>live := live A @ [(p, cs)]\<rparr>) (hs @ [(p, length cs)], P', m') \<and> apart p (length cs) (live A)"
  using assms(3) by (intro view_new [OF assms(1,2)]) (auto simp: stored_def read_bytes_def)

text \<open>A write into one buffer leaves the others alone.\<close>

lemma view_write:
  assumes view: "arena_view A (hs, P, m)" and i: "i < length (live A)" "live A ! i = (p, cs)" "off < length cs"
  shows "\<exists>m'. memcpy (p + word_of_nat off) [b] m = Inr m' \<and>
    arena_view (A\<lparr>live := (live A)[i := (p, cs[off := b])]\<rparr>) (hs, P, m')"
proof -
  let ?a = "p + word_of_nat off"
  let ?m = "m\<lparr>bytes := (bytes m)(?a := b)\<rparr>"
  have inv: "pool_inv P m" and h: "list_all (holds P m) (live A)" and d: "disjoint_handles (handles (live A))"
    using view by (simp_all add: arena_view_def)
  have pc: "extent p (length cs) \<subseteq> used_region P m" "read_bytes m p (length cs) = cs"
    using h i nth_mem [OF i(1)] by (auto simp: list_all_iff holds_def)
  note v = used_valid_range [OF inv pc(1)]
  have a: "unat ?a = unat p + off" by (rule unat_offset [OF v(2) i(3)])
  have "valid_range m ?a (length [b])" by (rule valid_range_part [OF v(1)]) (use a i(3) in simp_all)
  moreover have "(\<lambda>x. if unat ?a \<le> unat x \<and> unat x < unat ?a + 1 then [b] ! (unat x - unat ?a) else bytes m x) =
      (bytes m)(?a := b)" by (rule ext) (auto simp: word_unat_eq_iff)
  ultimately have eq: "memcpy ?a [b] m = Inr ?m" by (simp add: memcpy_def)
  have inv': "pool_inv P ?m" using inv by (subst pool_inv_cong) simp_all
  have used: "used_region P ?m = used_region P m" by (rule used_region_cong) simp_all
  have own: "read_bytes ?m p (length cs) = cs[off := b]"
  proof (rule nth_equalityI)
    show "length (read_bytes ?m p (length cs)) = length (cs[off := b])" by (simp add: read_bytes_def)
    fix j
    assume "j < length (read_bytes ?m p (length cs))"
    then have j: "j < length cs" by (simp add: read_bytes_def)
    have "p + word_of_nat j = ?a \<longleftrightarrow> j = off"
      using unat_offset [OF v(2) j] a by (metis add_left_cancel)
    moreover have "cs ! j = bytes m (p + word_of_nat j)" by (subst pc(2) [symmetric]) (simp add: read_bytes_def j)
    ultimately show "read_bytes ?m p (length cs) ! j = cs[off := b] ! j" using j by (simp add: read_bytes_def nth_list_update)
  qed
  have other: "holds P ?m (live A ! k)" if "k < length (live A)" "k \<noteq> i" for k
  proof -
    obtain q ds where q: "live A ! k = (q, ds)" by (cases "live A ! k")
    have "extent p (length cs) \<inter> extent q (length ds) = {}"
    proof (cases "k < i")
      case True
      then have "extent q (length ds) \<inter> extent p (length cs) = {}"
        using sorted_wrt_nth_less [OF d [unfolded disjoint_handles_def], of k i] i q that by simp
      then show ?thesis by blast
    next
      case False
      then show ?thesis
        using sorted_wrt_nth_less [OF d [unfolded disjoint_handles_def], of i k] i q that by simp
    qed
    moreover have "unat ?a \<in> extent p (length cs)" using a i(3) by (simp add: extent_def)
    ultimately have n: "unat ?a \<notin> extent q (length ds)" by blast
    have hq: "extent q (length ds) \<subseteq> used_region P m" "read_bytes m q (length ds) = ds"
      using h that q nth_mem [OF that(1)] by (auto simp: list_all_iff holds_def)
    have "read_bytes ?m q (length ds) = read_bytes m q (length ds)"
      using n by (intro read_bytes_cong used_valid_range(2) [OF inv hq(1)]) auto
    then show ?thesis using hq by (simp add: q holds_def used)
  qed
  have "list_all (holds P ?m) ((live A)[i := (p, cs[off := b])])"
    unfolding list_all_length using i own pc(1) other by (auto simp: nth_list_update holds_def used)
  moreover have "handles ((live A)[i := (p, cs[off := b])]) = handles (live A)"
    using i by (intro nth_equalityI) (auto simp: nth_list_update handles_def)
  ultimately show ?thesis using eq view inv' by (simp add: arena_view_def)
qed

lemma view_dropped:
  assumes "pool_inv P' m'" "p_cleaners P' = []" "dtor_log m' = called A @ due A"
  shows "arena_view (A\<lparr>live := [], due := [], called := called A @ due A\<rparr>) ([], P', m')"
  using assms by (simp add: arena_view_def disjoint_handles_def run_cleaners_def)

lemma null_pool_unused:
  assumes "pool_inv P m" "p_current P = nullptr"
  shows "used_region P m = {}"
proof -
  obtain us vs where rep: "pool_rep P m us vs" using assms(1) by (auto simp: pool_inv_def)
  then show ?thesis using pool_rep_used [OF rep] pool_rep_null [OF rep assms(2)] assms(2) by (simp add: region_def)
qed

subsection \<open>The simulation\<close>

text \<open>One call: the pool's move is matched by the arena.\<close>

definition refines :: "client_op \<Rightarrow> arena \<Rightarrow> client_state cxx \<Rightarrow> bool" where
  "refines c A = post_cxx {Bad_alloc, Terminate} (\<lambda>s'. \<exists>B. arena_step c A B \<and> arena_view B s')"

context operator_new
begin

lemma shrink_to_nothing:
  assumes inv: "pool_inv P m" and cur: "p_current P \<noteq> nullptr"
  shows "post_cxx {Terminate} (\<lambda>(cap, P', m'). pool_inv P' m' \<and> p_cleaners P' = [] \<and>
      dtor_log m' = dtor_log m @ run_cleaners (p_cleaners P)) (shrink_to_fit_min nw 0 P m)"
    (is "post_cxx _ ?Q _")
proof -
  have "post_cxx {Terminate} ?Q (bind_cxx (pool_clear nw P m) (\<lambda>(P1, m1).
      bind_cxx (destroy_blocks_start_from (p_head P1) m1) (\<lambda>m2.
        Inr (0 :: size_t, P1\<lparr>p_head := nullptr, p_current := nullptr\<rparr>, m2))))"
  proof (rule post_bind [OF pool_clear_post [OF inv]], clarify)
    fix P1 m1
    assume inv1: "pool_inv P1 m1" and c: "p_pos P1 = 0" "p_cleaners P1 = []"
      "dtor_log m1 = dtor_log m @ run_cleaners (p_cleaners P)"
    let ?P = "P1\<lparr>p_head := nullptr, p_current := nullptr\<rparr>"
    obtain h where h: "destroy_blocks_start_from (p_head P1) m1 = Inr (m1\<lparr>heap := h\<rparr>)" "heap_ok h"
      using destroy_all_blocks [OF inv1] by blast
    have "pool_rep ?P (m1\<lparr>heap := h\<rparr>) [] []" using inv1 h c by (auto simp: pool_inv_def pool_rep_def)
    then show "post_cxx {Terminate} ?Q (bind_cxx (destroy_blocks_start_from (p_head P1) m1) (\<lambda>m2. Inr (0, ?P, m2)))"
      using h c by (auto simp: pool_inv_def)
  qed
  then show ?thesis using cur by (simp add: shrink_to_fit_min_def)
qed

lemma refines_stored:
  assumes view: "arena_view A (hs, P, m)" and op: "stored_contents opn = Some cs" "\<not> gives_up opn"
    and post: "post_cxx {Bad_alloc, Terminate} (\<lambda>(p, P', m'). pool_inv P' m' \<and> stored P m p cs P' m') c"
    and step: "client_step nw e (Call opn) (hs, P, m) = bind_cxx c (\<lambda>(p, P', m'). Inr (hs @ [(p, length cs)], P', m'))"
  shows "refines (Call opn) A (client_step nw e (Call opn) (hs, P, m))"
  unfolding refines_def step
proof (rule post_bind [OF post], clarify)
  fix p P' m'
  assume "pool_inv P' m'" "stored P m p cs P' m'"
  from view_stored [OF view this] arena_step.store [OF op(1), of p A]
  show "post_cxx {Bad_alloc, Terminate} (\<lambda>s'. \<exists>B. arena_step (Call opn) A B \<and> arena_view B s')
      (Inr (hs @ [(p, length cs)], P', m'))" by auto
qed

lemma refines_raw:
  assumes view: "arena_view A (hs, P, m)" and op: "raw_request opn = Some (a, n)" "\<not> gives_up opn"
    and post: "post_cxx {Bad_alloc, Terminate}
      (\<lambda>(p, P', m'). pool_inv P' m' \<and> a dvd unat p \<and> fresh_buffer P m p n P' m') c"
    and step: "client_step nw e (Call opn) (hs, P, m) = bind_cxx c (\<lambda>(p, P', m'). Inr (hs @ [(p, n)], P', m'))"
  shows "refines (Call opn) A (client_step nw e (Call opn) (hs, P, m))"
  unfolding refines_def step
proof (rule post_bind [OF post], clarify)
  fix p P' m'
  assume "pool_inv P' m'" "a dvd unat p" "fresh_buffer P m p n P' m'"
  moreover have "length (read_bytes m' p n) = n" by (simp add: read_bytes_def)
  ultimately show "post_cxx {Bad_alloc, Terminate} (\<lambda>s'. \<exists>B. arena_step (Call opn) A B \<and> arena_view B s')
      (Inr (hs @ [(p, n)], P', m'))"
    using view_fresh [OF view, of P' m' p n] arena_step.allocate [of opn a "read_bytes m' p n" p A] op(1) by auto
qed

lemma refines_quiet:
  assumes view: "arena_view A (hs, P, m)"
    and op: "raw_request opn = None" "stored_contents opn = None" "\<not> gives_up opn" "\<And>p d. opn \<noteq> Register_destructor p d"
    and post: "post_cxx {Bad_alloc, Terminate} (\<lambda>(P', m'). pool_inv P' m' \<and> used_region P m \<subseteq> used_region P' m' \<and>
      bytes m' = bytes m \<and> dtor_log m' = dtor_log m \<and> p_cleaners P' = p_cleaners P) c"
    and step: "client_step nw e (Call opn) (hs, P, m) = bind_cxx c (\<lambda>(P', m'). Inr (hs, P', m'))"
  shows "refines (Call opn) A (client_step nw e (Call opn) (hs, P, m))"
  unfolding refines_def step
  by (rule post_bind [OF post]) (use view_keep [OF view] arena_step.nothing [OF op] in auto)

lemma refines_dropping:
  assumes view: "arena_view A (hs, P, m)" and op: "gives_up opn"
    and post: "post_cxx {Bad_alloc, Terminate} (\<lambda>(P', m'). pool_inv P' m' \<and> p_cleaners P' = [] \<and>
      dtor_log m' = dtor_log m @ run_cleaners (p_cleaners P)) c"
    and step: "client_step nw e (Call opn) (hs, P, m) = bind_cxx c (\<lambda>(P', m'). Inr ([], P', m'))"
  shows "refines (Call opn) A (client_step nw e (Call opn) (hs, P, m))"
  unfolding refines_def step
proof (rule post_bind [OF post], clarify)
  fix P' m'
  assume "pool_inv P' m'" "p_cleaners P' = []" "dtor_log m' = dtor_log m @ run_cleaners (p_cleaners P)"
  then have "arena_view (A\<lparr>live := [], due := [], called := called A @ due A\<rparr>) ([], P', m')"
    using view by (intro view_dropped) (simp_all add: arena_view_def)
  then show "post_cxx {Bad_alloc, Terminate} (\<lambda>s'. \<exists>B. arena_step (Call opn) A B \<and> arena_view B s') (Inr ([], P', m'))"
    using arena_step.clear [OF op, of A] by auto
qed

lemma refines_cstring_buffer:
  assumes view: "arena_view A (hs, P, m)" and n: "length bs < 2 ^ 59"
  shows "refines (Call (Create_cstring_buffer bs)) A (client_step nw e (Call (Create_cstring_buffer bs)) (hs, P, m))"
proof -
  have inv: "pool_inv P m" using view by (simp add: arena_view_def)
  show ?thesis
  proof (cases "bs = []")
    case True
    show ?thesis unfolding True
      by (rule refines_quiet [OF view, where c = "Inr (P, m)"])
        (use inv in \<open>simp_all add: gives_up_def create_cstring_buffer_def\<close>)
  next
    case False
    show ?thesis
      by (rule refines_stored [OF view _ _ create_cstring_buffer_post [OF inv n False, where e = e]])
        (use False in \<open>auto simp: gives_up_def bind_cxx_def split: sum.splits\<close>)
  qed
qed

lemma refines_cstring_view:
  assumes view: "arena_view A (hs, P, m)" and n: "length bs < 2 ^ 59"
  shows "refines (Call (Create_cstring_view bs)) A (client_step nw e (Call (Create_cstring_view bs)) (hs, P, m))"
proof -
  have inv: "pool_inv P m" using view by (simp add: arena_view_def)
  show ?thesis
  proof (cases "bs = []")
    case True
    show ?thesis unfolding True
      by (rule refines_quiet [OF view, where c = "Inr (P, m)"])
        (use inv in \<open>simp_all add: gives_up_def create_cstring_view_def\<close>)
  next
    case False
    have "unat (word_of_nat (length bs) :: size_t) = length bs" using n by (intro unat_word_of_nat_64) simp
    then show ?thesis
      by (intro refines_stored [where e = e, OF view _ _ create_cstring_buffer_post [OF inv n False, where e = e]])
        (use False in \<open>auto simp: create_cstring_view_eq [OF False, where e = e] gives_up_def bind_cxx_def split: sum.splits\<close>)
  qed
qed

lemma refines_register:
  assumes view: "arena_view A (hs, P, m)"
  shows "refines (Call (Register_destructor p d)) A (client_step nw e (Call (Register_destructor p d)) (hs, P, m))"
proof -
  have inv: "pool_inv P m" using view by (simp add: arena_view_def)
  let ?P = "register_destructor p d P"
  let ?A = "A\<lparr>due := due A @ run_cleaners [\<lparr>c_destructor = d, c_pointer = p\<rparr>]\<rparr>"
  have "used_region ?P m = used_region P m" by (rule used_region_cong) (simp_all add: register_destructor_def)
  moreover have "pool_inv ?P m" using inv pool_inv_cong [of m m ?P P] by (simp add: register_destructor_def)
  ultimately have "arena_view ?A (hs, ?P, m)"
    using view holds_mono [OF inv, of "live A" ?P m]
    by (simp add: arena_view_def register_destructor_def run_cleaners_def)
  then show ?thesis unfolding refines_def
    using arena_step.register [of p d A] by (auto simp: gives_up_def)
qed

lemma refines_shrink:
  assumes view: "arena_view A (hs, P, m)"
  shows "refines (Call (Shrink_to_fit_min n)) A (client_step nw e (Call (Shrink_to_fit_min n)) (hs, P, m))"
proof -
  have inv: "pool_inv P m" using view by (simp add: arena_view_def)
  show ?thesis
  proof (cases "p_current P = nullptr")
    case True
    have "list_all (\<lambda>(p, cs). cs = []) (live A)"
      using view null_pool_unused [OF inv True] by (auto simp: arena_view_def list_all_iff holds_def extent_def)
    then show ?thesis unfolding refines_def using True view arena_step.nothing_used
        arena_step.nothing [of "Shrink_to_fit_min n" A]
      by (auto simp: shrink_to_fit_min_def gives_up_def arena_view_def disjoint_handles_def intro!: exI)
  next
    case cur: False
    show ?thesis
    proof (cases "n = 0")
      case True
      show ?thesis unfolding True
        by (rule refines_dropping [OF view, where c = "bind_cxx (shrink_to_fit_min nw 0 P m) (\<lambda>(_, s). Inr s)"],
            simp add: gives_up_def, rule post_snd [OF shrink_to_nothing [OF inv cur]])
          (auto simp: gives_up_def bind_cxx_def split: sum.splits)
    next
      case False
      have "post_cxx {Bad_alloc, Terminate} (\<lambda>(P', m'). pool_inv P' m' \<and> used_region P m \<subseteq> used_region P' m' \<and>
          bytes m' = bytes m \<and> dtor_log m' = dtor_log m \<and> p_cleaners P' = p_cleaners P)
        (bind_cxx (shrink_to_fit_min nw n P m) (\<lambda>(_, s). Inr s))"
        using shrink_to_fit_min_kept [OF inv cur False, where nw = nw]
        by (cases "shrink_to_fit_min nw n P m") (auto simp: split_beta)
      then show ?thesis
        by (rule refines_quiet [OF view, rotated 4])
          (auto simp: False gives_up_def bind_cxx_def split: sum.splits)
    qed
  qed
qed

lemma client_step_refines:
  assumes view: "arena_view A (hs, P, m)" and ok: "op_ok opn"
  shows "refines (Call opn) A (client_step nw e (Call opn) (hs, P, m))"
proof -
  have inv: "pool_inv P m" using view by (simp add: arena_view_def)
  show ?thesis
  proof (cases opn)
    case (Set_block_size n)
    have "used_region (set_block_size n P) m = used_region P m" by (rule used_region_cong) (simp_all add: set_block_size_def)
    moreover have "pool_inv (set_block_size n P) m"
      using inv ok Set_block_size pool_rep_set_block_size [of P m _ _ n] unfolding pool_inv_def by auto
    ultimately show ?thesis unfolding Set_block_size
      by (intro refines_quiet [OF view, where c = "Inr (set_block_size n P, m)"])
        (simp_all add: gives_up_def set_block_size_def)
  next
    case Clear
    show ?thesis unfolding Clear
      by (rule refines_dropping [OF view, where c = "pool_clear nw P m"], simp add: gives_up_def,
          rule post_mono [OF pool_clear_post [OF inv]]) (auto simp: gives_up_def bind_cxx_def split: sum.splits)
  next
    case (Create_buffer n)
    with ok have n: "unat n \<le> 2 ^ 60" by simp
    show ?thesis unfolding Create_buffer
      by (rule refines_raw [OF view, where c = "create_buffer nw n P m" and a = 1 and n = "unat n"],
          simp, simp add: gives_up_def, rule post_mono [OF create_buffer_post [OF inv n]])
        (auto simp: gives_up_def bind_cxx_def split: sum.splits)
  next
    case (Create_aligned_buffer a n)
    with ok obtain k where a: "a = 2 ^ k" "k < 16" and n: "unat n \<le> 2 ^ 59" by auto
    show ?thesis unfolding Create_aligned_buffer
      by (rule refines_raw [OF view _ _ create_aligned_buffer_post [OF inv a n]])
        (auto simp: gives_up_def bind_cxx_def split: sum.splits)
  next
    case (Create_buffer_copy bs)
    with ok have n: "length bs < 2 ^ 59" by simp
    show ?thesis unfolding Create_buffer_copy
      by (rule refines_stored [OF view _ _ create_buffer_copy_post [OF inv n]])
        (auto simp: gives_up_def bind_cxx_def split: sum.splits)
  next
    case (Create_cstring_buffer bs)
    with ok have "length bs < 2 ^ 59" by simp
    with view show ?thesis unfolding Create_cstring_buffer by (rule refines_cstring_buffer)
  next
    case (Create_cstring_view bs)
    with ok have "length bs < 2 ^ 59" by simp
    with view show ?thesis unfolding Create_cstring_view by (rule refines_cstring_view)
  next
    case (Register_destructor p d)
    with view show ?thesis by (simp only: refines_register)
  next
    case Shrink_to_fit
    show ?thesis unfolding Shrink_to_fit
      by (rule refines_quiet [OF view, where c = "shrink_to_fit P m"])
        (auto simp: gives_up_def bind_cxx_def split: sum.splits intro: post_mono [OF shrink_to_fit_post [OF inv]])
  next
    case (Shrink_to_fit_min n)
    with view show ?thesis by (simp only: refines_shrink)
  qed
qed

lemma client_write_refines:
  assumes view: "arena_view A (hs, P, m)"
  shows "refines (Write i off b) A (client_step nw e (Write i off b) (hs, P, m))"
proof (cases "i < length (live A) \<and> off < length (snd (live A ! i))")
  case True
  obtain p cs where pc: "live A ! i = (p, cs)" by (cases "live A ! i")
  obtain m' where w: "memcpy (p + word_of_nat off) [b] m = Inr m'"
    "arena_view (A\<lparr>live := (live A)[i := (p, cs[off := b])]\<rparr>) (hs, P, m')"
    using view_write [OF view, of i p cs off b] True pc by auto
  have "hs = handles (live A)" using view by (simp add: arena_view_def)
  then have "client_step nw e (Write i off b) (hs, P, m) = Inr (hs, P, m')" using True pc w(1) by simp
  with w(2) arena_step.write_inside [of i A p cs off b] True pc show ?thesis by (auto simp: refines_def)
next
  case False
  have "hs = handles (live A)" using view by (simp add: arena_view_def)
  with False have "client_step nw e (Write i off b) (hs, P, m) = Inr (hs, P, m)" by auto
  with view arena_step.write_outside [OF False] show ?thesis by (auto simp: refines_def)
qed

lemma client_run_refines:
  "arena_view A s \<Longrightarrow> list_all client_ok cs \<Longrightarrow>
   post_cxx {Bad_alloc, Terminate} (\<lambda>s'. \<exists>B. arena_run cs A B \<and> arena_view B s') (client_run nw e cs s)"
proof (induction cs arbitrary: A s)
  case Nil
  then show ?case by (auto intro: arena_run.stop)
next
  case (Cons c cs)
  obtain hs P m where s: "s = (hs, P, m)" by (cases s)
  have "refines c A (client_step nw e c s)"
    using Cons.prems client_step_refines client_write_refines by (cases c) (auto simp: s)
  then have "post_cxx {Bad_alloc, Terminate} (\<lambda>s'. \<exists>B. arena_run (c # cs) A B \<and> arena_view B s')
      (bind_cxx (client_step nw e c s) (client_run nw e cs))"
    unfolding refines_def
  proof (rule post_bind)
    fix s'
    assume "\<exists>B. arena_step c A B \<and> arena_view B s'"
    then obtain B where B: "arena_step c A B" "arena_view B s'" by blast
    have "list_all client_ok cs" using Cons.prems by simp
    from Cons.IH [OF B(2) this]
    show "post_cxx {Bad_alloc, Terminate} (\<lambda>s'. \<exists>B. arena_run (c # cs) A B \<and> arena_view B s') (client_run nw e cs s')"
      by (rule post_mono) (use B(1) arena_run.go in blast)+
  qed
  then show ?case by simp
qed

end

lemma arena_view_start:
  "heap_ok (heap m) \<Longrightarrow> unat n \<le> 2 ^ 60 \<Longrightarrow> arena_view (arena_empty (dtor_log m)) ([], StaticMemoryPool n, m)"
  using StaticMemoryPool_inv [of m n]
  by (simp add: arena_view_def arena_empty_def disjoint_handles_def run_cleaners_def StaticMemoryPool_def set_block_size_def)

text \<open>C1. A client that calls a fresh pool in any order and writes through the pointers it got sees an arena: every
  buffer it holds is at a suitably aligned address apart from all the others and keeps what its owner wrote, whatever
  blocks the pool allocates, moves or releases underneath, and the destructors called are those the arena owes, in
  order. Only a failed allocation can end the run early; no call uses invalid memory.\<close>

theorem pool_refines_arena:
  assumes "operator_new nw" and "heap_ok (heap m)" and "unat n \<le> 2 ^ 60" and "list_all client_ok cs"
  shows "post_cxx {Bad_alloc, Terminate} (\<lambda>s. \<exists>A. arena_run cs (arena_empty (dtor_log m)) A \<and> arena_view A s)
    (client_run nw e cs ([], StaticMemoryPool n, m))"
  by (rule operator_new.client_run_refines [OF assms(1) arena_view_start [OF assms(2,3)] assms(4)])

theorem pool_refines_arena_witness:
  "post_cxx {Bad_alloc, Terminate} (\<lambda>s. \<exists>A. arena_run
       [Call (Create_buffer 100), Write 0 7 65, Call (Create_aligned_buffer 64 5000), Write 1 4999 66,
        Call (Create_cstring_view [104, 105]), Call (Register_destructor 32 48), Call Shrink_to_fit, Call Clear]
       (arena_empty (dtor_log empty_mem)) A \<and> arena_view A s)
     (client_run bump_new 0
       [Call (Create_buffer 100), Write 0 7 65, Call (Create_aligned_buffer 64 5000), Write 1 4999 66,
        Call (Create_cstring_view [104, 105]), Call (Register_destructor 32 48), Call Shrink_to_fit, Call Clear]
       ([], StaticMemoryPool 1024, empty_mem))"
proof -
  have "(64 :: 16 word) \<in> (\<lambda>k. 2 ^ k) ` {..<16}" by (rule image_eqI [of _ _ 6]) simp_all
  then show ?thesis by (intro pool_refines_arena [OF bump.operator_new_axioms heap_ok_empty]) simp_all
qed

end
