(* ===== verification/Dynamic_Struct.thy ===== *)
theory Dynamic_Struct
  imports Pool_Sequences
begin

text \<open>
  Structs whose layout is built at run time (\<open>example/brpc/dynamic_struct.h\<close> and
  \<open>dynamic_struct.hpp\<close>). A schema collects fields; each registration fixes the field's offset and
  appends to the lists of constructors, destructors, cleaners and metadata functions that later run
  over the memory of an instance. What a template knows about its arguments \<open>T\<close> and \<open>A\<close> is the
  record \<open>cpp_type\<close>; a function pointer such as \<open>construct<T>\<close> is a value of \<open>field_fn\<close>. What the
  constructors of a \<open>T\<close> write is code outside the library and a parameter (\<open>build\<close>) of the
  definitions that run them.
\<close>

subsection \<open>Fields\<close>

datatype FieldType = DYNAMIC_STRUCT | DYNAMIC_STRUCT_POINTER | OTHER

record Field =
  f_offset :: size_t
  f_name :: string
  f_type_id :: nat
  f_field_type :: FieldType
  f_schema :: addr

text \<open>\<open>field_ptr\<close> points to the node of the field map, named by its key.\<close>

record FieldAccessor =
  a_offset :: size_t
  a_field_type :: FieldType
  a_field_ptr :: string

definition FieldAccessor_of :: "Field \<Rightarrow> FieldAccessor" where
  "FieldAccessor_of f = \<lparr>a_offset = f_offset f, a_field_type = f_field_type f, a_field_ptr = f_name f\<rparr>"

text \<open>\<open>ty_structible\<close> and \<open>ty_schema\<close> describe \<open>T\<close>, or \<open>*T\<close> for pointers; \<open>ty_pool\<close> says that
  \<open>A\<close> is not \<open>void\<close>.\<close>

record cpp_type =
  ty_id :: nat
  ty_size :: size_t
  ty_align :: size_t
  ty_pointer :: bool
  ty_structible :: bool
  ty_schema :: addr
  ty_trivial :: bool
  ty_triv_dtor :: bool
  ty_clearable :: bool
  ty_pool :: bool
  ty_use_metadata :: bool

datatype field_fn =
    Fill_with_zero
  | Construct nat
  | Construct_with_pool nat bool
  | Construct_with_metadata nat
  | Reconstruct_in_pool nat
  | Clear_object nat
  | Destroy_and_construct nat

type_synonym entry = "size_t \<times> size_t \<times> field_fn"

subsection \<open>BaseSchema\<close>

record schema =
  field_map :: "(string \<times> Field) list"
  destructors :: "(size_t \<times> nat) list"
  constructors :: "entry list"
  cleaners :: "entry list"
  metadata_creator :: "nat option list"
  metadata_deletor :: "nat option list"
  metadata_updator :: "(size_t \<times> nat option) list"
  with_meta_constructor :: "entry list"
  allocate_align :: size_t
  allocate_size :: size_t
  base_offset :: size_t
  unaligned_allocate_size :: size_t
  is_trivially_destructible :: bool
  schema_self :: addr

text \<open>\<open>schema_self\<close> is the address of the object, no member of it; \<open>nullptr\<close> until it is placed somewhere.\<close>

definition BaseSchema :: "size_t \<Rightarrow> size_t \<Rightarrow> schema" where
  "BaseSchema init_align init_align_size =
     \<lparr>field_map = [], destructors = [], constructors = [], cleaners = [], metadata_creator = [],
      metadata_deletor = [], metadata_updator = [], with_meta_constructor = [],
      allocate_align = init_align, allocate_size = init_align_size, base_offset = init_align_size,
      unaligned_allocate_size = init_align_size, is_trivially_destructible = True, schema_self = nullptr\<rparr>"

definition Schema :: schema where
  "Schema = BaseSchema 8 8"

definition set_size_and_align :: "size_t \<Rightarrow> size_t \<Rightarrow> schema \<Rightarrow> schema" where
  "set_size_and_align sz al S =
     (let a = max (allocate_align S) al; u = unaligned_allocate_size S + sz
      in S\<lparr>allocate_align := a, unaligned_allocate_size := u, allocate_size := (u + a - 1) AND (- a)\<rparr>)"

definition add_field_and_caculate_size :: "cpp_type \<Rightarrow> schema \<Rightarrow> size_t \<times> schema" where
  "add_field_and_caculate_size T S =
     (let offset = (unaligned_allocate_size S + ty_align T - 1) AND (- ty_align T);
          u = offset + ty_size T;
          a = max (allocate_align S) (ty_align T)
      in (offset - base_offset S,
          S\<lparr>unaligned_allocate_size := u, allocate_align := a, allocate_size := (u + a - 1) AND (- a)\<rparr>))"

text \<open>A trivial field extends the zero-filled range of the entry before it, if there is one.\<close>

definition add_fill :: "size_t \<Rightarrow> size_t \<Rightarrow> entry list \<Rightarrow> entry list" where
  "add_fill offset sz es =
     (if es = [] \<or> snd (snd (last es)) \<noteq> Fill_with_zero then es @ [(offset, sz, Fill_with_zero)]
      else let (o0, _, f) = last es in butlast es @ [(o0, offset - o0 + sz, f)])"

definition add_constructor :: "cpp_type \<Rightarrow> Field \<Rightarrow> schema \<Rightarrow> schema" where
  "add_constructor T f S = S\<lparr>constructors :=
     (if ty_trivial T then add_fill (f_offset f) (ty_size T) (constructors S)
      else if ty_pool T
      then constructors S @ [(f_offset f, ty_size T, Construct_with_pool (ty_id T) (ty_triv_dtor T))]
      else constructors S @ [(f_offset f, ty_size T, Construct (ty_id T))])\<rparr>"

definition add_destructor :: "cpp_type \<Rightarrow> Field \<Rightarrow> schema \<Rightarrow> schema" where
  "add_destructor T f S =
     (if \<not> ty_triv_dtor T \<and> \<not> ty_pool T
      then S\<lparr>destructors := destructors S @ [(f_offset f, ty_id T)],
             is_trivially_destructible := is_trivially_destructible S \<and> ty_triv_dtor T\<rparr>
      else S\<lparr>is_trivially_destructible := is_trivially_destructible S \<and> ty_triv_dtor T\<rparr>)"

definition reconstruct_fn :: "cpp_type \<Rightarrow> field_fn" where
  "reconstruct_fn T =
     (if ty_pool T then Reconstruct_in_pool (ty_id T)
      else if ty_clearable T then Clear_object (ty_id T) else Destroy_and_construct (ty_id T))"

definition add_cleaner :: "cpp_type \<Rightarrow> Field \<Rightarrow> schema \<Rightarrow> schema" where
  "add_cleaner T f S = S\<lparr>cleaners :=
     (if ty_trivial T then add_fill (f_offset f) (ty_size T) (cleaners S)
      else cleaners S @ [(f_offset f, ty_size T, reconstruct_fn T)])\<rparr>"

definition add_meta_data :: "cpp_type \<Rightarrow> schema \<Rightarrow> schema" where
  "add_meta_data T S =
     (if ty_use_metadata T
      then S\<lparr>metadata_creator := metadata_creator S @ [Some (ty_id T)],
             metadata_deletor := metadata_deletor S @ [Some (ty_id T)]\<rparr>
      else S\<lparr>metadata_creator := metadata_creator S @ [None],
             metadata_deletor := metadata_deletor S @ [None]\<rparr>)"

definition add_update_metadata :: "cpp_type \<Rightarrow> Field \<Rightarrow> schema \<Rightarrow> schema" where
  "add_update_metadata T f S = S\<lparr>metadata_updator := metadata_updator S @
     [(f_offset f, if ty_use_metadata T then Some (ty_id T) else None)]\<rparr>"

text \<open>\<open>construct_with_metadata<T, A>\<close> has three overloads; which one is instantiated depends on
  \<open>A\<close> and on \<open>use_metadata\<close>. With \<open>A = void\<close> and metadata two of them match, the program does not
  compile, and the value here is arbitrary.\<close>

definition with_metadata_fn :: "cpp_type \<Rightarrow> field_fn" where
  "with_metadata_fn T =
     (if \<not> ty_pool T \<and> \<not> ty_use_metadata T then Construct (ty_id T)
      else if ty_use_metadata T then Construct_with_metadata (ty_id T)
      else Construct_with_pool (ty_id T) (ty_triv_dtor T))"

definition add_contruct_with_metadata :: "cpp_type \<Rightarrow> Field \<Rightarrow> schema \<Rightarrow> schema" where
  "add_contruct_with_metadata T f S = S\<lparr>with_meta_constructor :=
     (if ty_trivial T then add_fill (f_offset f) (ty_size T) (with_meta_constructor S)
      else with_meta_constructor S @ [(f_offset f, ty_size T, with_metadata_fn T)])\<rparr>"

text \<open>\<open>emplace\<close> keeps an existing entry.\<close>

definition emplace :: "'k \<Rightarrow> 'v \<Rightarrow> ('k \<times> 'v) list \<Rightarrow> ('k \<times> 'v) list" where
  "emplace k v al = (if map_of al k = None then al @ [(k, v)] else al)"

text \<open>The part of \<open>register_field\<close> under the lock, for a name that was not found. \<open>None\<close> as offset
  is \<open>std::string::npos\<close>.\<close>

definition register_locked ::
  "cpp_type \<Rightarrow> string \<Rightarrow> FieldType \<Rightarrow> size_t option \<Rightarrow> addr \<Rightarrow> schema \<Rightarrow> FieldAccessor \<times> schema" where
  "register_locked T name ft off sch S0 =
     (let (offset, S1) = (case off of None \<Rightarrow> add_field_and_caculate_size T S0 | Some o1 \<Rightarrow> (o1, S0));
          f = \<lparr>f_offset = offset, f_name = name, f_type_id = ty_id T, f_field_type = ft, f_schema = sch\<rparr>;
          S2 = add_contruct_with_metadata T f (add_update_metadata T f (add_meta_data T
                 (add_cleaner T f (add_destructor T f (add_constructor T f S1)))));
          S3 = S2\<lparr>field_map := emplace name f (field_map S2)\<rparr>
      in (FieldAccessor_of (the (map_of (field_map S3) name)), S3))"

definition register_field_core ::
  "cpp_type \<Rightarrow> string \<Rightarrow> FieldType \<Rightarrow> size_t option \<Rightarrow> addr \<Rightarrow> schema \<Rightarrow> FieldAccessor \<times> schema" where
  "register_field_core T name ft off sch S =
     (case map_of (field_map S) name of
        Some f \<Rightarrow> (FieldAccessor_of f, S)
      | None \<Rightarrow> register_locked T name ft off sch S)"

definition register_field :: "cpp_type \<Rightarrow> string \<Rightarrow> size_t option \<Rightarrow> schema \<Rightarrow> FieldAccessor \<times> schema" where
  "register_field T name off S =
     (if ty_pointer T \<and> ty_structible T
      then register_field_core T name DYNAMIC_STRUCT_POINTER off (ty_schema T) S
      else if ty_pointer T then register_field_core T name OTHER off nullptr S
      else if ty_structible T then register_field_core T name DYNAMIC_STRUCT off (ty_schema T) S
      else register_field_core T name OTHER off nullptr S)"

definition get_field :: "string \<Rightarrow> schema \<Rightarrow> FieldAccessor cxx" where
  "get_field name S =
     (case map_of (field_map S) name of
        Some f \<Rightarrow> Inr (FieldAccessor_of f) | None \<Rightarrow> Inl Terminate)"

text \<open>For an unknown name \<open>get_field(name, err)\<close> returns an accessor made from a temporary \<open>Field\<close>
  whose members are never set and which is gone when the caller sees the accessor.\<close>

definition get_field_err :: "string \<Rightarrow> schema \<Rightarrow> FieldAccessor option \<times> int" where
  "get_field_err name S =
     (case map_of (field_map S) name of
        Some f \<Rightarrow> (Some (FieldAccessor_of f), 0) | None \<Rightarrow> (None, - 1))"

definition get_all_fields :: "schema \<Rightarrow> (string \<times> Field) list" where
  "get_all_fields S = field_map S"

definition get_field_size :: "schema \<Rightarrow> nat" where
  "get_field_size S = length (field_map S)"

subsection \<open>Running the lists over an instance\<close>

text \<open>\<open>x_bytes\<close> is the memory, \<open>x_registered\<close> the destructors handed to the pool's
  \<open>register_destructor\<close> (function, object), \<open>x_destroyed\<close> the destructor calls (type, object).\<close>

record exec_state =
  x_bytes :: "addr \<Rightarrow> byte"
  x_registered :: "(addr \<times> addr) list"
  x_destroyed :: "(nat \<times> addr) list"

type_synonym builder = "field_fn \<Rightarrow> addr \<Rightarrow> addr \<Rightarrow> addr \<Rightarrow> (addr \<Rightarrow> byte) \<Rightarrow> addr \<Rightarrow> byte"

definition fill_with_zero :: "addr \<Rightarrow> size_t \<Rightarrow> (addr \<Rightarrow> byte) \<Rightarrow> addr \<Rightarrow> byte" where
  "fill_with_zero ptr n b = (\<lambda>x. if unat ptr \<le> unat x \<and> unat x < unat ptr + unat n then 0 else b x)"

fun call_entry :: "builder \<Rightarrow> (nat \<Rightarrow> addr) \<Rightarrow> addr \<Rightarrow> addr \<Rightarrow> addr \<Rightarrow> entry \<Rightarrow> exec_state \<Rightarrow> exec_state" where
  "call_entry build dtor ptr pool meta (off, n, Fill_with_zero) s =
     s\<lparr>x_bytes := fill_with_zero (ptr + off) n (x_bytes s)\<rparr>"
| "call_entry build dtor ptr pool meta (off, n, Construct_with_pool t triv) s =
     s\<lparr>x_bytes := build (Construct_with_pool t triv) (ptr + off) pool meta (x_bytes s),
       x_registered := x_registered s @ (if triv then [] else [(dtor t, ptr + off)])\<rparr>"
| "call_entry build dtor ptr pool meta (off, n, Destroy_and_construct t) s =
     s\<lparr>x_bytes := build (Destroy_and_construct t) (ptr + off) pool meta (x_bytes s),
       x_destroyed := x_destroyed s @ [(t, ptr + off)]\<rparr>"
| "call_entry build dtor ptr pool meta (off, n, f) s =
     s\<lparr>x_bytes := build f (ptr + off) pool meta (x_bytes s)\<rparr>"

definition construct_all :: "builder \<Rightarrow> (nat \<Rightarrow> addr) \<Rightarrow> addr \<Rightarrow> addr \<Rightarrow> schema \<Rightarrow> exec_state \<Rightarrow> exec_state" where
  "construct_all build dtor ptr pool S s =
     fold (call_entry build dtor ptr pool nullptr) (constructors S) s"

definition clear_all :: "builder \<Rightarrow> (nat \<Rightarrow> addr) \<Rightarrow> addr \<Rightarrow> addr \<Rightarrow> schema \<Rightarrow> exec_state \<Rightarrow> exec_state" where
  "clear_all build dtor ptr pool S s =
     fold (call_entry build dtor ptr pool nullptr) (cleaners S) s"

text \<open>\<open>construct_with_metadata<T, A>\<close> of a type that uses metadata dereferences the metadata
  pointer.\<close>

definition needs_metadata :: "entry \<Rightarrow> bool" where
  "needs_metadata e = (case snd (snd e) of Construct_with_metadata _ \<Rightarrow> True | _ \<Rightarrow> False)"

fun with_metadata_loop ::
  "builder \<Rightarrow> (nat \<Rightarrow> addr) \<Rightarrow> addr \<Rightarrow> addr \<Rightarrow> addr list \<Rightarrow> nat \<Rightarrow> entry list \<Rightarrow> exec_state \<Rightarrow> exec_state cxx" where
  "with_metadata_loop build dtor ptr pool ms i [] s = Inr s"
| "with_metadata_loop build dtor ptr pool ms i (e # es) s =
     (if i < length ms
      then if needs_metadata e \<and> ms ! i = nullptr then Inl Null_deref
           else with_metadata_loop build dtor ptr pool ms (Suc i) es (call_entry build dtor ptr pool (ms ! i) e s)
      else Inl Invalid_access)"

definition construct_with_metadata_all ::
  "builder \<Rightarrow> (nat \<Rightarrow> addr) \<Rightarrow> addr \<Rightarrow> addr \<Rightarrow> addr list \<Rightarrow> schema \<Rightarrow> exec_state \<Rightarrow> exec_state cxx" where
  "construct_with_metadata_all build dtor ptr pool ms S s =
     with_metadata_loop build dtor ptr pool ms 0 (with_meta_constructor S) s"

definition destroy_all :: "addr \<Rightarrow> schema \<Rightarrow> exec_state \<Rightarrow> exec_state" where
  "destroy_all ptr S s = fold (\<lambda>(off, t) s. s\<lparr>x_destroyed := x_destroyed s @ [(t, ptr + off)]\<rparr>) (destructors S) s"

text \<open>\<open>upd\<close> stands for \<open>ReusableTraits<T, ...>::update_allocation_metadata\<close>.\<close>

fun update_metadata_loop ::
  "(nat \<Rightarrow> addr \<Rightarrow> addr \<Rightarrow> size_t) \<Rightarrow> addr \<Rightarrow> (size_t \<times> nat option) list \<Rightarrow> addr list \<Rightarrow> size_t \<Rightarrow> size_t cxx" where
  "update_metadata_loop upd ptr [] ms acc = Inr acc"
| "update_metadata_loop upd ptr ((off, None) # us) ms acc = update_metadata_loop upd ptr us (tl ms) acc"
| "update_metadata_loop upd ptr ((off, Some t) # us) ms acc =
     (case ms of
        [] \<Rightarrow> Inl Invalid_access
      | p # ms' \<Rightarrow> update_metadata_loop upd ptr us ms'
          (if p \<noteq> nullptr then acc + upd t (ptr + off) p else acc))"

definition update_metadata ::
  "(nat \<Rightarrow> addr \<Rightarrow> addr \<Rightarrow> size_t) \<Rightarrow> addr \<Rightarrow> addr list \<Rightarrow> schema \<Rightarrow> size_t cxx" where
  "update_metadata upd ptr ms S = update_metadata_loop upd ptr (metadata_updator S) ms 0"

definition destroy_metadata :: "schema \<Rightarrow> addr \<Rightarrow> nat \<Rightarrow> (nat \<times> addr) list cxx" where
  "destroy_metadata S meta_ptr idx =
     (if idx < length (metadata_deletor S)
      then Inr (case metadata_deletor S ! idx of None \<Rightarrow> [] | Some t \<Rightarrow> [(t, meta_ptr)])
      else Inl Invalid_access)"

subsection \<open>DynamicStruct\<close>

text \<open>The 8 bytes before an instance hold the address of its schema, least significant byte first.\<close>

definition pointer_byte :: "addr \<Rightarrow> nat \<Rightarrow> byte" where
  "pointer_byte v i = ucast (drop_bit (8 * i) v)"

definition store_pointer :: "addr \<Rightarrow> addr \<Rightarrow> (addr \<Rightarrow> byte) \<Rightarrow> addr \<Rightarrow> byte" where
  "store_pointer p v b = (\<lambda>x. if unat p \<le> unat x \<and> unat x < unat p + 8 then pointer_byte v (unat x - unat p) else b x)"

text \<open>Instances made by \<open>create\<close>: \<open>ds_headers\<close> maps the address of an instance (its \<open>_data\<close>) to the schema that the
  stored address stands for; \<open>ds_blocks\<close> are the blocks obtained from the aligned \<open>operator new\<close>, which is a parameter.\<close>

record ds_heap =
  ds_headers :: "(addr \<times> schema) list"
  ds_blocks :: "addr list"
  ds_exec :: exec_state

type_synonym aligned_new = "ds_heap \<Rightarrow> size_t \<Rightarrow> size_t \<Rightarrow> addr option"

definition hidden_schema :: "addr \<Rightarrow> ds_heap \<Rightarrow> schema cxx" where
  "hidden_schema ds h =
     (case map_of (ds_headers h) ds of None \<Rightarrow> Inl Invalid_access | Some S \<Rightarrow> Inr S)"

definition ds_create ::
  "aligned_new \<Rightarrow> builder \<Rightarrow> (nat \<Rightarrow> addr) \<Rightarrow> schema \<Rightarrow> ds_heap \<Rightarrow> (addr \<times> ds_heap) cxx" where
  "ds_create anw build dtor S h =
     (case anw h (allocate_size S) (allocate_align S) of
        None \<Rightarrow> Inl Bad_alloc
      | Some ptr \<Rightarrow>
          let ds = ptr + 8
          in Inr (ds, h\<lparr>ds_headers := AList.update ds S (ds_headers h), ds_blocks := ptr # ds_blocks h,
                        ds_exec := construct_all build dtor ds nullptr S
                          ((ds_exec h)\<lparr>x_bytes := store_pointer ptr (schema_self S) (x_bytes (ds_exec h))\<rparr>)\<rparr>))"

definition ds_dtor :: "addr \<Rightarrow> ds_heap \<Rightarrow> ds_heap cxx" where
  "ds_dtor ds h = bind_cxx (hidden_schema ds h) (\<lambda>S. Inr (h\<lparr>ds_exec := destroy_all ds S (ds_exec h)\<rparr>))"

definition ds_operator_delete :: "addr \<Rightarrow> ds_heap \<Rightarrow> ds_heap cxx" where
  "ds_operator_delete ds h =
     bind_cxx (hidden_schema ds h) (\<lambda>_.
       if ds - 8 \<in> set (ds_blocks h)
       then Inr (h\<lparr>ds_headers := AList.delete ds (ds_headers h), ds_blocks := remove1 (ds - 8) (ds_blocks h)\<rparr>)
       else Inl Invalid_access)"

text \<open>\<open>delete ds\<close>, what the \<open>unique_ptr\<close> returned by \<open>create\<close> does at the end of its life.\<close>

definition ds_delete :: "addr \<Rightarrow> ds_heap \<Rightarrow> ds_heap cxx" where
  "ds_delete ds h = bind_cxx (ds_dtor ds h) (ds_operator_delete ds)"

definition ds_clear :: "builder \<Rightarrow> (nat \<Rightarrow> addr) \<Rightarrow> addr \<Rightarrow> ds_heap \<Rightarrow> ds_heap cxx" where
  "ds_clear build dtor ds h =
     bind_cxx (hidden_schema ds h) (\<lambda>S. Inr (h\<lparr>ds_exec := clear_all build dtor ds nullptr S (ds_exec h)\<rparr>))"

definition ds_get :: "addr \<Rightarrow> FieldAccessor \<Rightarrow> addr" where
  "ds_get ds field = ds + a_offset field"

text \<open>\<open>load\<close> reads the pointer stored at an address.\<close>

definition get_dynamic_struct :: "(addr \<Rightarrow> addr) \<Rightarrow> addr \<Rightarrow> FieldAccessor \<Rightarrow> addr" where
  "get_dynamic_struct load ds field =
     (case a_field_type field of
        DYNAMIC_STRUCT \<Rightarrow> ds_get ds field
      | DYNAMIC_STRUCT_POINTER \<Rightarrow> load (ds_get ds field)
      | OTHER \<Rightarrow> nullptr)"

text \<open>Instances in a \<open>StaticMemoryPool\<close>. The constructors of pool fields register destructors with
  the pool while they run; the constructor list has the last word on the memory.\<close>

definition run_in_pool ::
  "addr \<Rightarrow> pool \<Rightarrow> mem \<Rightarrow> exec_state \<Rightarrow> pool \<times> mem" where
  "run_in_pool ds P m s =
     (P\<lparr>p_cleaners := p_cleaners P @ map (\<lambda>(d, p). \<lparr>c_destructor = d, c_pointer = p\<rparr>) (x_registered s)\<rparr>,
      m\<lparr>bytes := x_bytes s\<rparr>)"

definition exec_start :: "mem \<Rightarrow> exec_state" where
  "exec_start m = \<lparr>x_bytes = bytes m, x_registered = [], x_destroyed = []\<rparr>"

text \<open>The common part of the \<open>create_with_pool\<close> functions, over the call that gets the memory: the address of the schema is
  stored first, then \<open>hidden_schema()\<close> reads it back and the constructors run.\<close>

type_synonym instance_alloc = "size_t \<Rightarrow> 16 word \<Rightarrow> pool \<Rightarrow> mem \<Rightarrow> (addr \<times> pool \<times> mem) cxx"

definition place_instance ::
  "instance_alloc \<Rightarrow> builder \<Rightarrow> (nat \<Rightarrow> addr) \<Rightarrow> addr \<Rightarrow> schema \<Rightarrow> pool \<Rightarrow> mem \<Rightarrow> (addr \<times> pool \<times> mem) cxx" where
  "place_instance alloc build dtor pool S P m =
     bind_cxx (alloc (allocate_size S) (ucast (allocate_align S)) P m) (\<lambda>(ptr, P1, m1).
       let ds = ptr + 8
       in Inr (ds, run_in_pool ds P1 m1 (construct_all build dtor ds pool S
              ((exec_start m1)\<lparr>x_bytes := store_pointer ptr (schema_self S) (bytes m1)\<rparr>))))"

definition create_with_pool ::
  "new_fun \<Rightarrow> builder \<Rightarrow> (nat \<Rightarrow> addr) \<Rightarrow> addr \<Rightarrow> schema \<Rightarrow> pool \<Rightarrow> mem \<Rightarrow> (addr \<times> pool \<times> mem) cxx" where
  "create_with_pool nw = place_instance (create_aligned_buffer_dyn nw)"

text \<open>With an arena the array is obtained without an alignment; with a generic resource the instance
  itself is registered for destruction. Both allocators are parameters.\<close>

definition create_with_arena ::
  "(size_t \<Rightarrow> pool \<Rightarrow> mem \<Rightarrow> (addr \<times> pool \<times> mem) cxx) \<Rightarrow> builder \<Rightarrow> (nat \<Rightarrow> addr) \<Rightarrow> addr \<Rightarrow> schema \<Rightarrow>
   pool \<Rightarrow> mem \<Rightarrow> (addr \<times> pool \<times> mem) cxx" where
  "create_with_arena create_array = place_instance (\<lambda>n a. create_array n)"

definition create_with_resource ::
  "instance_alloc \<Rightarrow> builder \<Rightarrow> (nat \<Rightarrow> addr) \<Rightarrow> addr \<Rightarrow> addr \<Rightarrow> schema \<Rightarrow> pool \<Rightarrow> mem \<Rightarrow> (addr \<times> pool \<times> mem) cxx" where
  "create_with_resource allocate_bytes build dtor ds_destructor resource S P m =
     bind_cxx (place_instance allocate_bytes build dtor resource S P m)
       (\<lambda>(ds, P', m'). Inr (ds, register_destructor ds ds_destructor P', m'))"

subsection \<open>Allocation metadata\<close>

record AllocationMetadata =
  metadatas :: "addr list"
  meta_schema :: "schema option"

text \<open>The calls of metadata deleters, as (type, metadata), that the destructor makes.\<close>

fun metadata_dtor_loop :: "schema \<Rightarrow> nat \<Rightarrow> addr list \<Rightarrow> (nat \<times> addr) list cxx" where
  "metadata_dtor_loop S i [] = Inr []"
| "metadata_dtor_loop S i (p # ps) =
     bind_cxx (if p \<noteq> nullptr then destroy_metadata S p i else Inr []) (\<lambda>c.
     bind_cxx (metadata_dtor_loop S (Suc i) ps) (\<lambda>cs. Inr (c @ cs)))"

definition AllocationMetadata_dtor :: "AllocationMetadata \<Rightarrow> (nat \<times> addr) list cxx" where
  "AllocationMetadata_dtor M =
     (case meta_schema M of None \<Rightarrow> Inr [] | Some S \<Rightarrow> metadata_dtor_loop S 0 (metadatas M))"

text \<open>The two \<open>create_with_metadata\<close> differ like the functions above; the schema is the one of the metadata.\<close>

definition place_with_metadata ::
  "instance_alloc \<Rightarrow> builder \<Rightarrow> (nat \<Rightarrow> addr) \<Rightarrow> addr \<Rightarrow> AllocationMetadata \<Rightarrow> pool \<Rightarrow> mem \<Rightarrow> (addr \<times> pool \<times> mem) cxx" where
  "place_with_metadata alloc build dtor pool M P m =
     (case meta_schema M of
        None \<Rightarrow> Inl Null_deref
      | Some S \<Rightarrow>
          bind_cxx (alloc (allocate_size S) (ucast (allocate_align S)) P m) (\<lambda>(ptr, P1, m1).
            let ds = ptr + 8
            in bind_cxx (construct_with_metadata_all build dtor ds pool (metadatas M) S
                 ((exec_start m1)\<lparr>x_bytes := store_pointer ptr (schema_self S) (bytes m1)\<rparr>)) (\<lambda>s.
                 Inr (ds, run_in_pool ds P1 m1 s))))"

definition create_with_metadata ::
  "new_fun \<Rightarrow> builder \<Rightarrow> (nat \<Rightarrow> addr) \<Rightarrow> addr \<Rightarrow> AllocationMetadata \<Rightarrow> pool \<Rightarrow> mem \<Rightarrow> (addr \<times> pool \<times> mem) cxx" where
  "create_with_metadata nw = place_with_metadata (create_aligned_buffer_dyn nw)"

definition create_with_metadata_arena ::
  "(size_t \<Rightarrow> pool \<Rightarrow> mem \<Rightarrow> (addr \<times> pool \<times> mem) cxx) \<Rightarrow> builder \<Rightarrow> (nat \<Rightarrow> addr) \<Rightarrow> addr \<Rightarrow> AllocationMetadata \<Rightarrow>
   pool \<Rightarrow> mem \<Rightarrow> (addr \<times> pool \<times> mem) cxx" where
  "create_with_metadata_arena create_array = place_with_metadata (\<lambda>n a. create_array n)"

subsection \<open>SchemaManager\<close>

type_synonym schema_manager = "(string \<times> addr) list"

definition register_schema :: "string \<Rightarrow> addr \<Rightarrow> schema_manager \<Rightarrow> int \<times> schema_manager" where
  "register_schema name s M = (0, emplace name s M)"

definition get_schema :: "string \<Rightarrow> schema_manager \<Rightarrow> addr" where
  "get_schema name M = (case map_of M name of Some s \<Rightarrow> s | None \<Rightarrow> nullptr)"

text \<open>What the macros \<open>MEMBER_BEGIN\<close>, \<open>MEMBER\<close> and \<open>MEMBER_END\<close> build for a class: each member is
  registered with its offset in the class, then the size and alignment of the class are added.\<close>

definition struct_schema :: "(string \<times> cpp_type \<times> size_t) list \<Rightarrow> size_t \<Rightarrow> size_t \<Rightarrow> schema" where
  "struct_schema members sizeof_cls alignof_cls =
     set_size_and_align sizeof_cls alignof_cls
       (fold (\<lambda>(n, T, off) S. snd (register_field T n (Some off) S)) members Schema)"

subsection \<open>ReuseDynamicStructPool\<close>

record reuse_pool =
  r_schema :: schema
  r_ds_vec :: "addr list"
  r_use_num :: nat

text \<open>\<open>mk t i\<close> is the address of the metadata object that \<open>create_meta\<close> makes for field \<open>i\<close> of type
  \<open>t\<close>; growth of the vectors cannot fail here.\<close>

definition create_metadatas :: "(nat \<Rightarrow> nat \<Rightarrow> addr) \<Rightarrow> schema \<Rightarrow> addr list" where
  "create_metadatas mk S =
     map (\<lambda>(i, c). case c of None \<Rightarrow> nullptr | Some t \<Rightarrow> mk t i) (enumerate 0 (metadata_creator S))"

fun update_all_instances ::
  "(nat \<Rightarrow> addr \<Rightarrow> addr \<Rightarrow> size_t) \<Rightarrow> schema \<Rightarrow> addr list \<Rightarrow> addr list \<Rightarrow> size_t \<Rightarrow> size_t cxx" where
  "update_all_instances upd S ms [] acc = Inr acc"
| "update_all_instances upd S ms (ds # dss) acc =
     bind_cxx (update_metadata upd ds ms S) (\<lambda>n. update_all_instances upd S ms dss (acc + n))"

definition update_allocation_metadata ::
  "(nat \<Rightarrow> nat \<Rightarrow> addr) \<Rightarrow> (nat \<Rightarrow> addr \<Rightarrow> addr \<Rightarrow> size_t) \<Rightarrow> reuse_pool \<Rightarrow> AllocationMetadata \<Rightarrow>
   (size_t \<times> AllocationMetadata \<times> nat) cxx" where
  "update_allocation_metadata mk upd R M0 =
     (let M = (case meta_schema M0 of
                 None \<Rightarrow> M0\<lparr>metadatas := metadatas M0 @ create_metadatas mk (r_schema R),
                            meta_schema := Some (r_schema R)\<rparr>
               | Some _ \<Rightarrow> M0)
      in case meta_schema M of
           None \<Rightarrow> Inl Null_deref
         | Some S \<Rightarrow> bind_cxx (update_all_instances upd S (metadatas M) (r_ds_vec R) 0)
             (\<lambda>sz. Inr (sz, M, length (r_ds_vec R))))"

fun create_instances ::
  "new_fun \<Rightarrow> builder \<Rightarrow> (nat \<Rightarrow> addr) \<Rightarrow> addr \<Rightarrow> AllocationMetadata \<Rightarrow> nat \<Rightarrow> pool \<Rightarrow> mem \<Rightarrow>
   (addr list \<times> pool \<times> mem) cxx" where
  "create_instances nw build dtor pool M 0 P m = Inr ([], P, m)"
| "create_instances nw build dtor pool M (Suc n) P m =
     bind_cxx (create_with_metadata nw build dtor pool M P m) (\<lambda>(ds, P1, m1).
     bind_cxx (create_instances nw build dtor pool M n P1 m1) (\<lambda>(dss, P2, m2). Inr (ds # dss, P2, m2)))"

definition ReuseDynamicStructPool ::
  "new_fun \<Rightarrow> builder \<Rightarrow> (nat \<Rightarrow> addr) \<Rightarrow> addr \<Rightarrow> AllocationMetadata \<Rightarrow> nat \<Rightarrow> pool \<Rightarrow> mem \<Rightarrow>
   (reuse_pool \<times> pool \<times> mem) cxx" where
  "ReuseDynamicStructPool nw build dtor pool M n P m =
     (case meta_schema M of
        None \<Rightarrow> Inl Null_deref
      | Some S \<Rightarrow> bind_cxx (create_instances nw build dtor pool M n P m) (\<lambda>(dss, P', m').
          Inr (\<lparr>r_schema = S, r_ds_vec = dss, r_use_num = 0\<rparr>, P', m')))"

definition reuse_reconstruct ::
  "builder \<Rightarrow> (nat \<Rightarrow> addr) \<Rightarrow> addr \<Rightarrow> reuse_pool \<Rightarrow> exec_state \<Rightarrow> (reuse_pool \<times> exec_state) cxx" where
  "reuse_reconstruct build dtor pool R s =
     (if r_use_num R \<le> length (r_ds_vec R)
      then Inr (R\<lparr>r_use_num := 0\<rparr>,
                fold (\<lambda>ds. clear_all build dtor ds pool (r_schema R)) (take (r_use_num R) (r_ds_vec R)) s)
      else Inl Invalid_access)"

definition reuse_get ::
  "new_fun \<Rightarrow> builder \<Rightarrow> (nat \<Rightarrow> addr) \<Rightarrow> addr \<Rightarrow> reuse_pool \<Rightarrow> pool \<Rightarrow> mem \<Rightarrow> (addr \<times> reuse_pool \<times> pool \<times> mem) cxx" where
  "reuse_get nw build dtor pool R P m =
     (if r_use_num R = length (r_ds_vec R)
      then bind_cxx (create_with_pool nw build dtor pool (r_schema R) P m) (\<lambda>(ds, P', m').
             Inr (ds, R\<lparr>r_ds_vec := r_ds_vec R @ [ds], r_use_num := r_use_num R + 1\<rparr>, P', m'))
      else if r_use_num R < length (r_ds_vec R)
      then Inr (r_ds_vec R ! r_use_num R, R\<lparr>r_use_num := r_use_num R + 1\<rparr>, P, m)
      else Inl Invalid_access)"

end
