(* ===== verification/Schema_Layout.thy ===== *)
theory Schema_Layout
  imports Dynamic_Struct
begin

text \<open>
  The layout a schema computes. A ghost list records the fields in the order of registration with
  their types; the invariant relates it to the schema: fields are placed one after the other, aligned
  and disjoint, and the entries of the constructor and cleaner lists tile exactly the fields.
\<close>

subsection \<open>Definitions\<close>

definition type_ok :: "cpp_type \<Rightarrow> bool" where
  "type_ok T \<longleftrightarrow> ty_align T \<in> (\<lambda>k. 2 ^ k) ` {..<16} \<and> unat (ty_size T) < 2 ^ 60"

definition abs_off :: "Field \<Rightarrow> nat" where
  "abs_off f = unat (f_offset f) + 8"

primrec packed :: "nat \<Rightarrow> (Field \<times> cpp_type) list \<Rightarrow> nat \<Rightarrow> bool" where
  "packed lo [] hi \<longleftrightarrow> lo = hi"
| "packed lo (p # ps) hi \<longleftrightarrow> lo \<le> abs_off (fst p) \<and> packed (abs_off (fst p) + unat (ty_size (snd p))) ps hi"

primrec tiled :: "nat \<Rightarrow> entry list \<Rightarrow> nat \<Rightarrow> bool" where
  "tiled lo [] hi \<longleftrightarrow> lo = hi"
| "tiled lo (e # es) hi \<longleftrightarrow> lo \<le> unat (fst e) + 8 \<and> tiled (unat (fst e) + 8 + unat (fst (snd e))) es hi"

definition add_entry :: "(cpp_type \<Rightarrow> field_fn) \<Rightarrow> Field \<times> cpp_type \<Rightarrow> entry list \<Rightarrow> entry list" where
  "add_entry kind p es =
     (if ty_trivial (snd p) then add_fill (f_offset (fst p)) (ty_size (snd p)) es
      else es @ [(f_offset (fst p), ty_size (snd p), kind (snd p))])"

definition entries :: "(cpp_type \<Rightarrow> field_fn) \<Rightarrow> (Field \<times> cpp_type) list \<Rightarrow> entry list" where
  "entries kind ps = fold (add_entry kind) ps []"

definition constructor_fn :: "cpp_type \<Rightarrow> field_fn" where
  "constructor_fn T = (if ty_pool T then Construct_with_pool (ty_id T) (ty_triv_dtor T) else Construct (ty_id T))"

definition layout :: "schema \<Rightarrow> (Field \<times> cpp_type) list \<Rightarrow> bool" where
  "layout S ps \<longleftrightarrow> base_offset S = 8 \<and> packed 8 ps (unat (unaligned_allocate_size S)) \<and>
     unat (unaligned_allocate_size S) < 2 ^ 62 \<and>
     allocate_align S \<in> (\<lambda>k. 2 ^ k) ` {3..<16} \<and>
     list_all (\<lambda>(f, T). unat (ty_align T) dvd abs_off f \<and> unat (ty_align T) dvd unat (allocate_align S)) ps \<and>
     unat (unaligned_allocate_size S) \<le> unat (allocate_size S) \<and>
     unat (allocate_size S) < unat (unaligned_allocate_size S) + unat (allocate_align S) \<and>
     unat (allocate_align S) dvd unat (allocate_size S) \<and>
     constructors S = entries constructor_fn ps \<and> cleaners S = entries reconstruct_fn ps \<and>
     with_meta_constructor S = entries with_metadata_fn ps \<and>
     destructors S = [(f_offset f, ty_id T). (f, T) \<leftarrow> ps, \<not> ty_triv_dtor T \<and> \<not> ty_pool T] \<and>
     metadata_creator S = map (\<lambda>(f, T). if ty_use_metadata T then Some (ty_id T) else None) ps \<and>
     metadata_deletor S = metadata_creator S \<and>
     metadata_updator S = map (\<lambda>(f, T). (f_offset f, if ty_use_metadata T then Some (ty_id T) else None)) ps \<and>
     field_map S = map (\<lambda>(f, T). (f_name f, f)) ps \<and> distinct (map (f_name \<circ> fst) ps)"

fun register_all :: "(string \<times> cpp_type) list \<Rightarrow> schema \<Rightarrow> schema" where
  "register_all [] S = S"
| "register_all ((n, T) # ts) S = register_all ts (snd (register_field T n None S))"

definition layout_size :: "(string \<times> cpp_type) list \<Rightarrow> nat" where
  "layout_size ts = (\<Sum>(n, T) \<leftarrow> ts. unat (ty_size T) + unat (ty_align T))"

subsection \<open>Placing one field\<close>

lemma pow2_16: "k < 16 \<Longrightarrow> (2::nat) ^ k \<le> 32768"
proof -
  assume "k < 16"
  then have "(2::nat) ^ k \<le> 2 ^ 15" by (intro power_increasing) simp_all
  then show ?thesis by simp
qed

lemma align_up_props:
  fixes x :: size_t
  assumes k: "k < 16" and x: "unat x < 2 ^ 63"
  defines "y \<equiv> (x + 2 ^ k - 1) AND (- (2 ^ k))"
  shows "unat x \<le> unat y" and "unat y < unat x + 2 ^ k" and "2 ^ k dvd unat y"
proof -
  have "unat x + 2 ^ k < 2 ^ 64" using x pow2_16 [OF k] by simp
  from aligned_pointer [OF refl k this] show "unat x \<le> unat y" "unat y < unat x + 2 ^ k" "2 ^ k dvd unat y"
    unfolding y_def by simp_all
qed

lemma max_pow2:
  fixes j k :: nat
  assumes "j < 16" "k < 16"
  shows "max (2 ^ j) (2 ^ k) = (2 ^ max j k :: size_t)"
proof -
  have u: "unat (2 ^ i :: size_t) = 2 ^ i" if "i < 16" for i using that by (simp add: unat_pow2)
  show ?thesis
  proof (cases "j \<le> k")
    case True
    then have "(2 ^ j :: size_t) \<le> 2 ^ k" using assms by (simp add: word_le_nat_alt u power_increasing)
    then show ?thesis using True by (simp add: max_def)
  next
    case False
    then have "\<not> (2 ^ j :: size_t) \<le> 2 ^ k" using assms by (simp add: word_le_nat_alt u not_le)
    then show ?thesis using False by (simp add: max_def)
  qed
qed

lemma add_field_props:
  assumes b: "base_offset S = 8" "8 \<le> unat (unaligned_allocate_size S)"
    and A: "allocate_align S = 2 ^ j" "j < 16" and T: "ty_align T = 2 ^ k" "k < 16"
    and bound: "unat (unaligned_allocate_size S) + 2 ^ k + unat (ty_size T) < 2 ^ 62"
  defines "off \<equiv> fst (add_field_and_caculate_size T S)" and "S' \<equiv> snd (add_field_and_caculate_size T S)"
  shows "unat (unaligned_allocate_size S) \<le> unat off + 8" and "2 ^ k dvd unat off + 8"
    and "unat off + 8 < unat (unaligned_allocate_size S) + 2 ^ k"
    and "unat (unaligned_allocate_size S') = unat off + 8 + unat (ty_size T)"
    and "allocate_align S' = 2 ^ max j k"
    and "unat (unaligned_allocate_size S') \<le> unat (allocate_size S')"
    and "unat (allocate_size S') < unat (unaligned_allocate_size S') + 2 ^ max j k"
    and "2 ^ max j k dvd unat (allocate_size S')"
proof -
  let ?u = "unaligned_allocate_size S"
  define y where "y = (?u + 2 ^ k - 1) AND (- (2 ^ k))"
  have "unat ?u < 2 ^ 63" using bound by simp
  note al = align_up_props [OF T(2) this, folded y_def]
  have off: "off = y - 8" by (simp add: off_def add_field_and_caculate_size_def Let_def b T y_def)
  have uoff: "unat off + 8 = unat y" using al(1) b(2) by (simp add: off unat_sub_ok)
  define u2 where "u2 = y + ty_size T"
  have u2: "unat u2 = unat y + unat (ty_size T)" unfolding u2_def
    using al(2) bound by (intro unat_add_ok) simp
  have S': "unaligned_allocate_size S' = u2" "allocate_align S' = 2 ^ max j k"
    "allocate_size S' = (u2 + 2 ^ max j k - 1) AND (- (2 ^ max j k))"
    using A T max_pow2 [OF A(2) T(2)]
    by (simp_all add: S'_def add_field_and_caculate_size_def Let_def y_def u2_def)
  have "unat u2 < 2 ^ 63" using u2 al(2) bound by simp
  note al2 = align_up_props [OF _ this, of "max j k"]
  show "unat ?u \<le> unat off + 8" "2 ^ k dvd unat off + 8" "unat off + 8 < unat ?u + 2 ^ k"
    using al by (simp_all only: uoff)
  show "unat (unaligned_allocate_size S') = unat off + 8 + unat (ty_size T)" by (simp add: S' u2 uoff)
  show "allocate_align S' = 2 ^ max j k" by (rule S')
  show "unat (unaligned_allocate_size S') \<le> unat (allocate_size S')"
    "unat (allocate_size S') < unat (unaligned_allocate_size S') + 2 ^ max j k"
    "2 ^ max j k dvd unat (allocate_size S')"
    unfolding S' using al2 A T by simp_all
qed

subsection \<open>Tilings\<close>

lemma packed_append: "packed lo (xs @ ys) hi \<longleftrightarrow> (\<exists>mid. packed lo xs mid \<and> packed mid ys hi)"
  by (induction xs arbitrary: lo) auto

lemma packed_le: "packed lo ps hi \<Longrightarrow> lo \<le> hi"
  by (induction ps arbitrary: lo) fastforce+

lemma tiled_append: "tiled lo (xs @ ys) hi \<longleftrightarrow> (\<exists>mid. tiled lo xs mid \<and> tiled mid ys hi)"
  by (induction xs arbitrary: lo) auto

lemma tiled_le: "tiled lo es hi \<Longrightarrow> lo \<le> hi"
  by (induction es arbitrary: lo) fastforce+

lemma tiled_range:
  "tiled lo es hi \<Longrightarrow> e \<in> set es \<Longrightarrow> lo \<le> unat (fst e) + 8 \<and> unat (fst e) + 8 + unat (fst (snd e)) \<le> hi"
proof (induction es arbitrary: lo)
  case (Cons e' es)
  then show ?case using tiled_le [of _ es hi] by fastforce
qed simp

lemma entries_snoc: "entries kind (ps @ [p]) = add_entry kind p (entries kind ps)"
  by (simp add: entries_def)

definition covers :: "(cpp_type \<Rightarrow> field_fn) \<Rightarrow> entry list \<Rightarrow> Field \<times> cpp_type \<Rightarrow> bool" where
  "covers kind es p \<longleftrightarrow>
     (if ty_trivial (snd p)
      then \<exists>e \<in> set es. snd (snd e) = Fill_with_zero \<and> unat (fst e) \<le> unat (f_offset (fst p)) \<and>
             unat (f_offset (fst p)) + unat (ty_size (snd p)) \<le> unat (fst e) + unat (fst (snd e))
      else (f_offset (fst p), ty_size (snd p), kind (snd p)) \<in> set es)"

lemma covers_append: "covers kind es p \<Longrightarrow> covers kind (es @ es') p"
  by (auto simp: covers_def split: if_splits)

lemma add_fill_props:
  assumes t: "tiled lo es mid" and m: "mid \<le> unat off + 8" and b: "unat off + 8 + unat n < 2 ^ 62" and lo: "8 \<le> lo"
  shows "tiled lo (add_fill off n es) (unat off + 8 + unat n)"
    and "\<exists>e \<in> set (add_fill off n es). snd (snd e) = Fill_with_zero \<and> unat (fst e) \<le> unat off \<and>
           unat off + unat n \<le> unat (fst e) + unat (fst (snd e))"
    and "kind (snd p) \<noteq> Fill_with_zero \<Longrightarrow> covers kind es p \<Longrightarrow> covers kind (add_fill off n es) p"
proof -
  have "tiled lo (add_fill off n es) (unat off + 8 + unat n) \<and>
    (\<exists>e \<in> set (add_fill off n es). snd (snd e) = Fill_with_zero \<and> unat (fst e) \<le> unat off \<and>
       unat off + unat n \<le> unat (fst e) + unat (fst (snd e))) \<and>
    (kind (snd p) \<noteq> Fill_with_zero \<longrightarrow> covers kind es p \<longrightarrow> covers kind (add_fill off n es) p)"
  proof (cases "es = [] \<or> snd (snd (last es)) \<noteq> Fill_with_zero")
    case True
    then have "add_fill off n es = es @ [(off, n, Fill_with_zero)]" by (simp add: add_fill_def)
    then show ?thesis using t m by (auto simp: tiled_append covers_append)
  next
    case False
    obtain o0 n0 where l: "last es = (o0, n0, Fill_with_zero)" using False by (cases "last es") auto
    define bs where "bs = butlast es"
    have es: "es = bs @ [(o0, n0, Fill_with_zero)]" using False l unfolding bs_def by (metis append_butlast_last_id)
    have af: "add_fill off n es = bs @ [(o0, off - o0 + n, Fill_with_zero)]"
      using False l by (simp add: add_fill_def bs_def)
    obtain m1 where m1: "tiled lo bs m1" "m1 \<le> unat o0 + 8" "mid = unat o0 + 8 + unat n0"
      using t by (auto simp: es tiled_append)
    have d: "unat (off - o0) = unat off - unat o0" using m m1 by (intro unat_sub_ok) simp
    have u: "unat (off - o0 + n) = unat off - unat o0 + unat n"
      using b by (subst unat_add_ok) (simp_all add: d)
    have "tiled lo (add_fill off n es) (unat off + 8 + unat n)"
      using m1 m by (auto simp: af tiled_append u)
    moreover have "covers kind (add_fill off n es) p" if kp: "kind (snd p) \<noteq> Fill_with_zero" and cv: "covers kind es p"
    proof (cases "ty_trivial (snd p)")
      case True
      then obtain e where e: "e \<in> set es" "snd (snd e) = Fill_with_zero" "unat (fst e) \<le> unat (f_offset (fst p))"
        "unat (f_offset (fst p)) + unat (ty_size (snd p)) \<le> unat (fst e) + unat (fst (snd e))"
        using cv by (auto simp: covers_def)
      then show ?thesis using m1 m u True unfolding covers_def af by (fastforce simp: es)
    qed (use kp cv af in \<open>auto simp: covers_def es\<close>)
    ultimately show ?thesis using m m1 u by (auto simp: af)
  qed
  then show "tiled lo (add_fill off n es) (unat off + 8 + unat n)"
    "\<exists>e \<in> set (add_fill off n es). snd (snd e) = Fill_with_zero \<and> unat (fst e) \<le> unat off \<and>
       unat off + unat n \<le> unat (fst e) + unat (fst (snd e))"
    "kind (snd p) \<noteq> Fill_with_zero \<Longrightarrow> covers kind es p \<Longrightarrow> covers kind (add_fill off n es) p" by blast+
qed

lemma entries_tile:
  assumes kind: "\<And>T. kind T \<noteq> Fill_with_zero"
  shows "packed 8 ps hi \<Longrightarrow> hi < 2 ^ 62 \<Longrightarrow>
    tiled 8 (entries kind ps) hi \<and> (\<forall>p \<in> set ps. covers kind (entries kind ps) p)"
proof (induction ps arbitrary: hi rule: rev_induct)
  case Nil
  then show ?case by (simp add: entries_def)
next
  case (snoc p ps)
  let ?es = "entries kind ps" and ?f = "fst p" and ?T = "snd p"
  obtain mid where mid: "packed 8 ps mid" "mid \<le> abs_off ?f" and hi: "hi = abs_off ?f + unat (ty_size ?T)"
    using snoc.prems(1) by (auto simp: packed_append)
  have IH: "tiled 8 ?es mid" "\<forall>q \<in> set ps. covers kind ?es q"
    using snoc.IH [OF mid(1)] mid(2) hi snoc.prems(2) by simp_all
  show ?case
  proof (cases "ty_trivial ?T")
    case True
    have b: "mid \<le> unat (f_offset ?f) + 8" "unat (f_offset ?f) + 8 + unat (ty_size ?T) < 2 ^ 62"
      using mid hi snoc.prems(2) by (simp_all add: abs_off_def)
    note af = add_fill_props [OF IH(1) b order_refl]
    have "covers kind (add_fill (f_offset ?f) (ty_size ?T) ?es) p" using af(2) True by (simp add: covers_def)
    then show ?thesis using af(1,3) IH(2) kind True by (simp add: entries_snoc add_entry_def hi abs_off_def)
  next
    case False
    have "covers kind (?es @ [(f_offset ?f, ty_size ?T, kind ?T)]) p" using False by (simp add: covers_def)
    then show ?thesis using False IH mid
      by (auto simp: entries_snoc add_entry_def hi abs_off_def tiled_append covers_append)
  qed
qed

lemma fn_not_fill [simp]:
  "constructor_fn T \<noteq> Fill_with_zero" "reconstruct_fn T \<noteq> Fill_with_zero" "with_metadata_fn T \<noteq> Fill_with_zero"
  by (simp_all add: constructor_fn_def reconstruct_fn_def with_metadata_fn_def)

subsection \<open>Registration keeps the layout\<close>

lemma layout_Schema: "layout Schema []"
proof -
  have "(8::size_t) \<in> (\<lambda>k. 2 ^ k) ` {3..<16}" by (rule image_eqI [of _ _ 3]) simp_all
  then show ?thesis by (simp add: layout_def Schema_def BaseSchema_def entries_def)
qed

lemma register_field_eq:
  "\<exists>ft sch. register_field T n off S = register_field_core T n ft off sch S"
  by (auto simp: register_field_def)

lemma dvd_pow2_max: "2 ^ j dvd (2::nat) ^ max j k" "2 ^ k dvd (2::nat) ^ max j k"
  by (simp_all add: le_imp_power_dvd)

lemma add_destructor_eq:
  "add_destructor T f S =
   S\<lparr>destructors := destructors S @ (if \<not> ty_triv_dtor T \<and> \<not> ty_pool T then [(f_offset f, ty_id T)] else []),
     is_trivially_destructible := is_trivially_destructible S \<and> ty_triv_dtor T\<rparr>"
  by (simp add: add_destructor_def)

lemma add_meta_data_eq:
  "add_meta_data T S =
   S\<lparr>metadata_creator := metadata_creator S @ [if ty_use_metadata T then Some (ty_id T) else None],
     metadata_deletor := metadata_deletor S @ [if ty_use_metadata T then Some (ty_id T) else None]\<rparr>"
  by (simp add: add_meta_data_def)

text \<open>The lists after a registration.\<close>

lemma register_locked_lists:
  fixes ft sch
  assumes "add_field_and_caculate_size T S = (off, S1)" and "map_of (field_map S) n = None"
  defines "f \<equiv> \<lparr>f_offset = off, f_name = n, f_type_id = ty_id T, f_field_type = ft, f_schema = sch\<rparr>"
  defines "S' \<equiv> snd (register_locked T n ft None sch S)"
  shows "fst (register_locked T n ft None sch S) = FieldAccessor_of f"
    and "constructors S' = add_entry constructor_fn (f, T) (constructors S)"
    and "cleaners S' = add_entry reconstruct_fn (f, T) (cleaners S)"
    and "with_meta_constructor S' = add_entry with_metadata_fn (f, T) (with_meta_constructor S)"
    and "destructors S' = destructors S @ (if \<not> ty_triv_dtor T \<and> \<not> ty_pool T then [(off, ty_id T)] else [])"
    and "metadata_creator S' = metadata_creator S @ [if ty_use_metadata T then Some (ty_id T) else None]"
    and "metadata_deletor S' = metadata_deletor S @ [if ty_use_metadata T then Some (ty_id T) else None]"
    and "metadata_updator S' = metadata_updator S @ [(off, if ty_use_metadata T then Some (ty_id T) else None)]"
    and "field_map S' = field_map S @ [(n, f)]"
    and "base_offset S' = base_offset S1" and "unaligned_allocate_size S' = unaligned_allocate_size S1"
    and "allocate_align S' = allocate_align S1" and "allocate_size S' = allocate_size S1"
proof -
  have S1: "constructors S1 = constructors S" "cleaners S1 = cleaners S" "with_meta_constructor S1 = with_meta_constructor S"
    "destructors S1 = destructors S" "metadata_creator S1 = metadata_creator S" "metadata_deletor S1 = metadata_deletor S"
    "metadata_updator S1 = metadata_updator S" "field_map S1 = field_map S"
    using assms(1) by (auto simp: add_field_and_caculate_size_def Let_def)
  note defs = register_locked_def add_contruct_with_metadata_def add_update_metadata_def add_meta_data_eq
    add_cleaner_def add_destructor_eq add_constructor_def emplace_def Let_def
  have mo: "map_of (field_map S @ [(n, x)]) n = Some x" for x using assms(2) by (simp add: map_add_def)
  show "fst (register_locked T n ft None sch S) = FieldAccessor_of f"
    using assms(1,2) S1 mo by (simp add: defs f_def)
  show "constructors S' = add_entry constructor_fn (f, T) (constructors S)"
    using assms(1) S1 by (simp add: S'_def defs add_entry_def constructor_fn_def f_def)
  show "cleaners S' = add_entry reconstruct_fn (f, T) (cleaners S)"
    using assms(1) S1 by (simp add: S'_def defs add_entry_def f_def)
  show "with_meta_constructor S' = add_entry with_metadata_fn (f, T) (with_meta_constructor S)"
    using assms(1) S1 by (simp add: S'_def defs add_entry_def f_def)
  show "destructors S' = destructors S @ (if \<not> ty_triv_dtor T \<and> \<not> ty_pool T then [(off, ty_id T)] else [])"
    using assms(1) S1 by (simp add: S'_def defs)
  show "metadata_creator S' = metadata_creator S @ [if ty_use_metadata T then Some (ty_id T) else None]"
    "metadata_deletor S' = metadata_deletor S @ [if ty_use_metadata T then Some (ty_id T) else None]"
    "metadata_updator S' = metadata_updator S @ [(off, if ty_use_metadata T then Some (ty_id T) else None)]"
    using assms(1) S1 by (simp_all add: S'_def defs)
  show "field_map S' = field_map S @ [(n, f)]"
    using assms(1,2) S1 by (simp add: S'_def defs f_def)
  show "base_offset S' = base_offset S1" "unaligned_allocate_size S' = unaligned_allocate_size S1"
    "allocate_align S' = allocate_align S1" "allocate_size S' = allocate_size S1"
    using assms(1) by (simp_all add: S'_def defs)
qed

lemma register_locked_layout:
  assumes lay: "layout S ps" and new: "map_of (field_map S) n = None" and T: "type_ok T"
    and bound: "unat (unaligned_allocate_size S) + unat (ty_align T) + unat (ty_size T) < 2 ^ 62"
  shows "\<exists>f. f_name f = n \<and> fst (register_locked T n ft None sch S) = FieldAccessor_of f \<and>
    layout (snd (register_locked T n ft None sch S)) (ps @ [(f, T)]) \<and>
    unat (unaligned_allocate_size (snd (register_locked T n ft None sch S)))
      \<le> unat (unaligned_allocate_size S) + (unat (ty_size T) + unat (ty_align T))"
proof -
  obtain off S1 where af: "add_field_and_caculate_size T S = (off, S1)" by force
  define f where "f = \<lparr>f_offset = off, f_name = n, f_type_id = ty_id T, f_field_type = ft, f_schema = sch\<rparr>"
  obtain j where j: "allocate_align S = 2 ^ j" "3 \<le> j" "j < 16" using lay by (auto simp: layout_def)
  obtain k where k: "ty_align T = 2 ^ k" "k < 16" using T by (auto simp: type_ok_def)
  have uk: "unat (ty_align T) = 2 ^ k" using k by (simp add: unat_pow2)
  have uj: "unat (allocate_align S) = 2 ^ j" using j by (simp add: unat_pow2)
  have b8: "base_offset S = 8" "8 \<le> unat (unaligned_allocate_size S)"
    using lay packed_le by (auto simp: layout_def)
  note pr = add_field_props [OF b8 j(1,3) k bound [unfolded uk], unfolded af fst_conv snd_conv]
  have um: "unat (2 ^ max j k :: size_t) = 2 ^ max j k" using j k by (simp add: unat_pow2)
  then have umax: "unat (allocate_align S1) = 2 ^ max j k" using pr(5) by simp
  have ab: "abs_off f = unat off + 8" by (simp add: abs_off_def f_def)
  note L = register_locked_lists [OF af new, of ft sch, folded f_def]
  have base: "base_offset S1 = 8" using af b8 by (auto simp: add_field_and_caculate_size_def Let_def)
  have "list_all (\<lambda>(f, T). unat (ty_align T) dvd abs_off f \<and> unat (ty_align T) dvd unat (allocate_align S1)) ps"
    using lay unfolding layout_def list_all_iff umax uj by (auto intro: dvd_trans [OF _ dvd_pow2_max(1)])
  moreover have "distinct (map (f_name \<circ> fst) (ps @ [(f, T)]))"
    using lay new by (auto simp: layout_def f_def map_of_eq_None_iff image_def split_beta)
  moreover have "(2::size_t) ^ max j k \<in> (\<lambda>k. 2 ^ k) ` {3..<16}" using j k by (intro imageI) simp
  moreover have "packed 8 (ps @ [(f, T)]) (unat (unaligned_allocate_size S1))"
    using lay pr(1,4) by (auto simp: layout_def packed_append ab)
  moreover have "unat (unaligned_allocate_size S1) < 2 ^ 62" using pr(3,4) bound uk by simp
  moreover have nm: "f_name f = n" "f_offset f = off" by (simp_all add: f_def)
  ultimately have "layout (snd (register_locked T n ft None sch S)) (ps @ [(f, T)])"
    using lay pr L base dvd_pow2_max(2) [of k j]
    unfolding layout_def by (simp add: entries_snoc uk um umax ab)
  moreover have "unat (unaligned_allocate_size S1) \<le> unat (unaligned_allocate_size S) + (unat (ty_size T) + unat (ty_align T))"
    using pr(3,4) uk by simp
  ultimately show ?thesis using L(1,11) nm by auto
qed

text \<open>Registering a name again changes nothing; a new name extends the layout.\<close>

lemma register_all_layout:
  "layout S ps \<Longrightarrow> list_all (type_ok \<circ> snd) ts \<Longrightarrow> unat (unaligned_allocate_size S) + layout_size ts < 2 ^ 62 \<Longrightarrow>
   \<exists>qs. layout (register_all ts S) (ps @ qs) \<and> (\<forall>(f, T) \<in> set qs. (f_name f, T) \<in> set ts) \<and>
     (\<forall>n \<in> fst ` set ts. \<exists>f T. (f, T) \<in> set (ps @ qs) \<and> f_name f = n)"
proof (induction ts arbitrary: S ps)
  case Nil
  then show ?case by (intro exI [of _ "[]"]) simp
next
  case (Cons nt ts)
  obtain n T where nt: "nt = (n, T)" by force
  obtain ft sch where rf: "register_field T n None S = register_field_core T n ft None sch S"
    using register_field_eq by blast
  show ?case
  proof (cases "map_of (field_map S) n")
    case (Some f)
    then have same: "snd (register_field T n None S) = S" by (simp add: rf register_field_core_def)
    have "(n, f) \<in> set (field_map S)" using Some by (rule map_of_SomeD)
    then obtain T' where "(f, T') \<in> set ps" "f_name f = n" using Cons.prems(1) by (auto simp: layout_def)
    moreover obtain qs where "layout (register_all ts S) (ps @ qs)" "\<forall>(f, T) \<in> set qs. (f_name f, T) \<in> set ts"
      "\<forall>n \<in> fst ` set ts. \<exists>f T. (f, T) \<in> set (ps @ qs) \<and> f_name f = n"
      using Cons.IH [OF Cons.prems(1)] Cons.prems(2,3) by (auto simp: nt layout_size_def)
    ultimately show ?thesis by (intro exI [of _ qs]) (auto simp: nt same)
  next
    case None
    have T: "type_ok T" and bound: "unat (unaligned_allocate_size S) + unat (ty_align T) + unat (ty_size T) < 2 ^ 62"
      using Cons.prems by (simp_all add: nt layout_size_def)
    define S' where "S' = snd (register_locked T n ft None sch S)"
    have S': "snd (register_field T n None S) = S'" by (simp add: rf register_field_core_def None S'_def)
    obtain f where f: "f_name f = n" "layout S' (ps @ [(f, T)])"
      "unat (unaligned_allocate_size S') \<le> unat (unaligned_allocate_size S) + (unat (ty_size T) + unat (ty_align T))"
      using register_locked_layout [OF Cons.prems(1) None T bound, of ft sch] by (auto simp: S'_def)
    have "unat (unaligned_allocate_size S') + layout_size ts < 2 ^ 62"
      using f(3) Cons.prems(3) by (simp add: nt layout_size_def)
    then obtain qs where "layout (register_all ts S') ((ps @ [(f, T)]) @ qs)" "\<forall>(f, T) \<in> set qs. (f_name f, T) \<in> set ts"
      "\<forall>n \<in> fst ` set ts. \<exists>g U. (g, U) \<in> set ((ps @ [(f, T)]) @ qs) \<and> f_name g = n"
      using Cons.IH [OF f(2)] Cons.prems(2) by (auto simp: nt)
    then show ?thesis using f(1) by (intro exI [of _ "(f, T) # qs"]) (auto simp: nt S')
  qed
qed

end
