(* ===== verification/Struct_Exec.thy ===== *)
theory Struct_Exec
  imports Schema_Layout
begin

text \<open>
  What the lists of a schema do to the memory of an instance: every entry owns its range, so that
  trivial fields end up zeroed and the other fields hold exactly what their own constructor wrote.
\<close>

subsection \<open>Definitions\<close>

text \<open>The code outside the library writes only the bytes of the object it constructs.\<close>

definition writes_own :: "builder \<Rightarrow> addr \<Rightarrow> addr \<Rightarrow> entry list \<Rightarrow> bool" where
  "writes_own build ptr pool es \<longleftrightarrow>
     (\<forall>e \<in> set es. snd (snd e) \<noteq> Fill_with_zero \<longrightarrow>
        (\<forall>b x. unat x \<notin> extent (ptr + fst e) (unat (fst (snd e))) \<longrightarrow>
           build (snd (snd e)) (ptr + fst e) pool nullptr b x = b x))"

text \<open>Bytes of a field of the instance at \<open>ptr\<close>.\<close>

definition field_extent :: "addr \<Rightarrow> Field \<times> cpp_type \<Rightarrow> nat set" where
  "field_extent ptr p = {unat ptr + unat (f_offset (fst p)) ..< unat ptr + unat (f_offset (fst p)) + unat (ty_size (snd p))}"

text \<open>A constructed field: zeroed if trivial, otherwise as its constructor left it.\<close>

definition field_ready :: "builder \<Rightarrow> addr \<Rightarrow> addr \<Rightarrow> (addr \<Rightarrow> byte) \<Rightarrow> Field \<times> cpp_type \<Rightarrow> bool" where
  "field_ready build ptr pool b p \<longleftrightarrow>
     (if ty_trivial (snd p) then \<forall>x. unat x \<in> field_extent ptr p \<longrightarrow> b x = 0
      else \<exists>b'. \<forall>x. unat x \<in> field_extent ptr p \<longrightarrow>
             b x = build (constructor_fn (snd p)) (ptr + f_offset (fst p)) pool nullptr b' x)"

definition registered_by :: "(nat \<Rightarrow> addr) \<Rightarrow> addr \<Rightarrow> entry list \<Rightarrow> (addr \<times> addr) list" where
  "registered_by dtor ptr es =
     concat (map (\<lambda>(off, n, f). case f of Construct_with_pool t triv \<Rightarrow> if triv then [] else [(dtor t, ptr + off)] | _ \<Rightarrow> []) es)"

subsection \<open>Entries\<close>

lemma call_entry_bytes:
  "x_bytes (call_entry build dtor ptr pool meta e s) =
   (if snd (snd e) = Fill_with_zero then fill_with_zero (ptr + fst e) (fst (snd e)) (x_bytes s)
    else build (snd (snd e)) (ptr + fst e) pool meta (x_bytes s))"
proof -
  obtain off n f where e: "e = (off, n, f)" by (metis prod.exhaust)
  show ?thesis unfolding e by (cases f) simp_all
qed

lemma call_entry_registered:
  "x_registered (call_entry build dtor ptr pool meta e s) = x_registered s @ registered_by dtor ptr [e]"
proof -
  obtain off n f where e: "e = (off, n, f)" by (metis prod.exhaust)
  show ?thesis unfolding e by (cases f) (simp_all add: registered_by_def)
qed

lemma fold_registered:
  "x_registered (fold (call_entry build dtor ptr pool meta) es s) = x_registered s @ registered_by dtor ptr es"
proof (induction es arbitrary: s)
  case (Cons e es)
  have "registered_by dtor ptr (e # es) = registered_by dtor ptr [e] @ registered_by dtor ptr es"
    by (simp add: registered_by_def)
  then show ?case by (simp add: Cons.IH call_entry_registered)
qed (simp add: registered_by_def)

lemma call_entry_outside:
  assumes "writes_own build ptr pool es" and "e \<in> set es" and "unat x \<notin> extent (ptr + fst e) (unat (fst (snd e)))"
  shows "x_bytes (call_entry build dtor ptr pool nullptr e s) x = x_bytes s x"
  using assms by (auto simp: call_entry_bytes writes_own_def fill_with_zero_def extent_def)

lemma fold_outside:
  "writes_own build ptr pool es \<Longrightarrow> (\<And>e. e \<in> set es \<Longrightarrow> unat x \<notin> extent (ptr + fst e) (unat (fst (snd e)))) \<Longrightarrow>
   x_bytes (fold (call_entry build dtor ptr pool nullptr) es s) x = x_bytes s x"
proof (induction es arbitrary: s)
  case (Cons e es)
  have w: "writes_own build ptr pool es" using Cons.prems(1) by (simp add: writes_own_def)
  have "x_bytes (call_entry build dtor ptr pool nullptr e s) x = x_bytes s x"
    by (rule call_entry_outside [OF Cons.prems(1)]) (use Cons.prems(2) in simp_all)
  then show ?case using Cons.IH [OF w] Cons.prems(2) by simp
qed simp

text \<open>Each entry has the last word on its range.\<close>

lemma entry_last_word:
  assumes w: "writes_own build ptr pool es" and t: "tiled 8 es hi" and e: "e \<in> set es"
    and b: "unat ptr + hi < 2 ^ 64 + 8"
  shows "unat (ptr + fst e) = unat ptr + unat (fst e)"
    and "\<exists>s'. \<forall>x. unat x \<in> extent (ptr + fst e) (unat (fst (snd e))) \<longrightarrow>
      x_bytes (fold (call_entry build dtor ptr pool nullptr) es s) x = x_bytes (call_entry build dtor ptr pool nullptr e s') x"
proof -
  have u: "unat (ptr + fst d) = unat ptr + unat (fst d)" if d: "d \<in> set es" for d
    using tiled_range [OF t d] b by (intro unat_add_ok) simp
  show "unat (ptr + fst e) = unat ptr + unat (fst e)" by (rule u [OF e])
  obtain xs ys where es: "es = xs @ e # ys" using e by (auto simp: in_set_conv_decomp)
  let ?s = "fold (call_entry build dtor ptr pool nullptr) xs s"
  have wy: "writes_own build ptr pool ys" using w by (simp add: writes_own_def es)
  have "unat x \<notin> extent (ptr + fst d) (unat (fst (snd d)))"
    if d: "d \<in> set ys" and x: "unat x \<in> extent (ptr + fst e) (unat (fst (snd e)))" for d x
  proof -
    obtain mid where "tiled mid (e # ys) hi" using t by (auto simp: es tiled_append)
    then have "tiled (unat (fst e) + 8 + unat (fst (snd e))) ys hi" by simp
    from tiled_range [OF this d] have "unat (fst e) + unat (fst (snd e)) \<le> unat (fst d)" by simp
    then show ?thesis using x u [of d] u [of e] d by (auto simp: extent_def es)
  qed
  then show "\<exists>s'. \<forall>x. unat x \<in> extent (ptr + fst e) (unat (fst (snd e))) \<longrightarrow>
      x_bytes (fold (call_entry build dtor ptr pool nullptr) es s) x = x_bytes (call_entry build dtor ptr pool nullptr e s') x"
    by (intro exI [of _ ?s] allI impI) (simp add: es, rule fold_outside [OF wy], blast)
qed

lemma construct_all_ready:
  assumes lay: "layout S ps" and w: "writes_own build ptr pool (constructors S)"
    and b: "unat ptr + unat (allocate_size S) < 2 ^ 64 + 8" and p: "p \<in> set ps"
  shows "field_ready build ptr pool (x_bytes (construct_all build dtor ptr pool S s)) p"
proof -
  let ?u = "unat (unaligned_allocate_size S)" and ?es = "constructors S"
  have es: "?es = entries constructor_fn ps" and u: "packed 8 ps ?u" "?u < 2 ^ 62" "?u \<le> unat (allocate_size S)"
    using lay by (simp_all add: layout_def)
  have t: "tiled 8 ?es ?u" and cov: "covers constructor_fn ?es p"
    using entries_tile [OF fn_not_fill(1) u(1,2)] p by (simp_all add: es)
  have b': "unat ptr + ?u < 2 ^ 64 + 8" using b u by simp
  note last = entry_last_word [OF w t _ b']
  show ?thesis
  proof (cases "ty_trivial (snd p)")
    case True
    with cov obtain e where e: "e \<in> set ?es" "snd (snd e) = Fill_with_zero" "unat (fst e) \<le> unat (f_offset (fst p))"
      "unat (f_offset (fst p)) + unat (ty_size (snd p)) \<le> unat (fst e) + unat (fst (snd e))"
      by (auto simp: covers_def)
    have sub: "field_extent ptr p \<subseteq> extent (ptr + fst e) (unat (fst (snd e)))"
      using e(3,4) last(1) [OF e(1)] by (auto simp: field_extent_def extent_def)
    obtain s' where s': "\<And>x. unat x \<in> extent (ptr + fst e) (unat (fst (snd e))) \<Longrightarrow>
        x_bytes (construct_all build dtor ptr pool S s) x = x_bytes (call_entry build dtor ptr pool nullptr e s') x"
      using last(2) [OF e(1)] unfolding construct_all_def by blast
    have "x_bytes (construct_all build dtor ptr pool S s) x = 0" if "unat x \<in> field_extent ptr p" for x
    proof -
      have x: "unat x \<in> extent (ptr + fst e) (unat (fst (snd e)))" using sub that by blast
      show ?thesis unfolding s' [OF x] using x e(2) by (simp add: call_entry_bytes fill_with_zero_def extent_def)
    qed
    then show ?thesis using True by (simp add: field_ready_def)
  next
    case False
    let ?e = "(f_offset (fst p), ty_size (snd p), constructor_fn (snd p))"
    have e: "?e \<in> set ?es" using cov False by (simp add: covers_def)
    have eq: "field_extent ptr p = extent (ptr + f_offset (fst p)) (unat (ty_size (snd p)))"
      using last(1) [OF e] by (simp add: field_extent_def extent_def)
    obtain s' where "\<And>x. unat x \<in> field_extent ptr p \<Longrightarrow>
        x_bytes (construct_all build dtor ptr pool S s) x = x_bytes (call_entry build dtor ptr pool nullptr ?e s') x"
      using last(2) [OF e] unfolding construct_all_def eq by (simp only: fst_conv snd_conv) blast
    then show ?thesis using False
      by (auto simp: field_ready_def call_entry_bytes intro!: exI [of _ "x_bytes s'"])
  qed
qed

end
