(* ===== verification/Struct_Theorems.thy ===== *)
theory Struct_Theorems
  imports Struct_Exec Pool_Theorems
begin

text \<open>
  Properties of dynamic structs: the layout of a schema, construction and destruction of instances,
  instances inside a memory pool, metadata, reuse, and the registrations the code handles wrongly.
\<close>

subsection \<open>Supporting facts\<close>

lemma register_all_distinct:
  "layout S ps \<Longrightarrow> list_all (type_ok \<circ> snd) ts \<Longrightarrow> unat (unaligned_allocate_size S) + layout_size ts < 2 ^ 62 \<Longrightarrow>
   distinct (map fst ts) \<Longrightarrow> set (map fst ts) \<inter> set (map fst (field_map S)) = {} \<Longrightarrow>
   \<exists>qs. layout (register_all ts S) (ps @ qs) \<and> map (\<lambda>(f, T). (f_name f, T)) qs = ts \<and>
     unat (unaligned_allocate_size (register_all ts S)) \<le> unat (unaligned_allocate_size S) + layout_size ts"
proof (induction ts arbitrary: S ps)
  case Nil
  then show ?case by (intro exI [of _ "[]"]) (simp add: layout_size_def)
next
  case (Cons nt ts)
  obtain n T where nt: "nt = (n, T)" by force
  obtain ft sch where rf: "register_field T n None S = register_field_core T n ft None sch S"
    using register_field_eq by blast
  have new: "map_of (field_map S) n = None" using Cons.prems(5) by (auto simp: nt map_of_eq_None_iff)
  have T: "type_ok T" and bound: "unat (unaligned_allocate_size S) + unat (ty_align T) + unat (ty_size T) < 2 ^ 62"
    using Cons.prems by (simp_all add: nt layout_size_def)
  define S' where "S' = snd (register_locked T n ft None sch S)"
  have S': "snd (register_field T n None S) = S'" by (simp add: rf register_field_core_def new S'_def)
  obtain f where f: "f_name f = n" "layout S' (ps @ [(f, T)])"
    "unat (unaligned_allocate_size S') \<le> unat (unaligned_allocate_size S) + (unat (ty_size T) + unat (ty_align T))"
    using register_locked_layout [OF Cons.prems(1) new T bound, of ft sch] by (auto simp: S'_def)
  have fm: "fst ` set (field_map S') = insert n (fst ` set (field_map S))"
    using f Cons.prems(1) by (auto simp: layout_def image_def)
  have "unat (unaligned_allocate_size S') + layout_size ts < 2 ^ 62"
    using f(3) Cons.prems(3) by (simp add: nt layout_size_def)
  moreover have "set (map fst ts) \<inter> set (map fst (field_map S')) = {}"
    using Cons.prems(4,5) fm by (auto simp: nt)
  ultimately obtain qs where "layout (register_all ts S') ((ps @ [(f, T)]) @ qs)" "map (\<lambda>(f, T). (f_name f, T)) qs = ts"
    "unat (unaligned_allocate_size (register_all ts S')) \<le> unat (unaligned_allocate_size S') + layout_size ts"
    using Cons.IH [OF f(2)] Cons.prems(2,4) by (auto simp: nt)
  then show ?case using f(1,3) by (intro exI [of _ "(f, T) # qs"]) (auto simp: nt S' layout_size_def)
qed

definition schema_args_ok :: "(string \<times> cpp_type) list \<Rightarrow> bool" where
  "schema_args_ok ts \<longleftrightarrow> list_all (type_ok \<circ> snd) ts \<and> distinct (map fst ts) \<and> layout_size ts < 2 ^ 58"

lemma schema_layout:
  assumes "schema_args_ok ts"
  obtains ps where "layout (register_all ts Schema) ps" "map (\<lambda>(f, T). (f_name f, T)) ps = ts"
    "unat (allocate_size (register_all ts Schema)) \<le> 2 ^ 59"
proof -
  have "unat (unaligned_allocate_size Schema) = 8" by (simp add: Schema_def BaseSchema_def)
  moreover have "field_map Schema = []" by (simp add: Schema_def BaseSchema_def)
  ultimately obtain ps where ps: "layout (register_all ts Schema) ps" "map (\<lambda>(f, T). (f_name f, T)) ps = ts"
    and u: "unat (unaligned_allocate_size (register_all ts Schema)) \<le> 8 + layout_size ts"
    using register_all_distinct [OF layout_Schema, of ts] assms by (auto simp: schema_args_ok_def)
  obtain k where k: "allocate_align (register_all ts Schema) = 2 ^ k" "k < 16" using ps(1) by (auto simp: layout_def)
  have "unat (allocate_size (register_all ts Schema)) < unat (unaligned_allocate_size (register_all ts Schema)) + 2 ^ k"
    using ps(1) k by (simp add: layout_def unat_pow2)
  then have "unat (allocate_size (register_all ts Schema)) \<le> 2 ^ 59"
    using u assms pow2_16 [OF k(2)] by (simp add: schema_args_ok_def)
  then show ?thesis using that ps by blast
qed

lemma packed_sorted:
  "packed lo ps hi \<Longrightarrow>
   sorted_wrt (\<lambda>p q. abs_off (fst p) + unat (ty_size (snd p)) \<le> abs_off (fst q)) ps \<and>
   (\<forall>p \<in> set ps. lo \<le> abs_off (fst p) \<and> abs_off (fst p) + unat (ty_size (snd p)) \<le> hi)"
proof (induction ps arbitrary: lo)
  case (Cons p ps)
  from Cons.prems Cons.IH [of "abs_off (fst p) + unat (ty_size (snd p))"] packed_le [of _ ps hi] show ?case
    by fastforce
qed simp

lemma layout_get_field:
  assumes "layout S ps" and "(f, T) \<in> set ps"
  shows "get_field (f_name f) S = Inr (FieldAccessor_of f)"
proof -
  have fm: "field_map S = map (\<lambda>(f, T). (f_name f, f)) ps" and d: "distinct (map (f_name \<circ> fst) ps)"
    using assms(1) by (simp_all add: layout_def)
  have "map fst (field_map S) = map (f_name \<circ> fst) ps" by (simp add: fm split_beta comp_def)
  then have "distinct (map fst (field_map S))" using d by simp
  moreover have "(f_name f, f) \<in> set (field_map S)" using assms(2) by (force simp: fm)
  ultimately have "map_of (field_map S) (f_name f) = Some f" by (rule map_of_is_SomeI)
  then show ?thesis by (simp add: get_field_def)
qed

subsection \<open>The header\<close>

definition stored_pointer :: "(addr \<Rightarrow> byte) \<Rightarrow> addr \<Rightarrow> addr \<Rightarrow> bool" where
  "stored_pointer b p v \<longleftrightarrow> (\<forall>i < 8. b (p + word_of_nat i) = pointer_byte v i)"

lemma header_unat: "unat ptr + 8 < 2 ^ 64 \<Longrightarrow> i < 8 \<Longrightarrow> unat (ptr + word_of_nat i :: addr) = unat ptr + i"
  by (subst unat_add_ok) (simp_all add: unat_word_of_nat_64)

text \<open>No constructor reaches back to it.\<close>

lemma construct_all_header:
  assumes lay: "layout S ps" and w: "\<And>ptr. writes_own build ptr pool (constructors S)"
    and ext: "unat ptr + unat (allocate_size S) < 2 ^ 64"
  shows "stored_pointer (x_bytes (construct_all build dtor (ptr + 8) pool S
    (s\<lparr>x_bytes := store_pointer ptr v b\<rparr>))) ptr v"
  unfolding stored_pointer_def
proof (intro allI impI)
  fix i :: nat
  assume i: "i < 8"
  let ?u = "unat (unaligned_allocate_size S)" and ?es = "constructors S"
  have es: "?es = entries constructor_fn ps" and u: "packed 8 ps ?u" "?u < 2 ^ 62" "?u \<le> unat (allocate_size S)"
    using lay by (simp_all add: layout_def)
  have t: "tiled 8 ?es ?u" using entries_tile [OF fn_not_fill(1) u(1,2)] by (simp add: es)
  have "8 \<le> unat (allocate_size S)" using packed_le [OF u(1)] u(3) by simp
  then have e8: "unat ptr + 8 < 2 ^ 64" using ext by simp
  have p8: "unat (ptr + 8) = unat ptr + 8" using e8 by (subst unat_add_ok) simp_all
  have b': "unat (ptr + 8) + ?u < 2 ^ 64 + 8" using ext u(3) p8 by simp
  let ?x = "ptr + word_of_nat i"
  note ux = header_unat [OF e8 i]
  have "unat ?x \<notin> extent (ptr + 8 + fst e) (unat (fst (snd e)))" if "e \<in> set ?es" for e
    using entry_last_word(1) [OF w t that b'] p8 i by (simp add: ux extent_def)
  from fold_outside [OF w this]
  have "x_bytes (construct_all build dtor (ptr + 8) pool S (s\<lparr>x_bytes := store_pointer ptr v b\<rparr>)) ?x = store_pointer ptr v b ?x"
    by (simp add: construct_all_def)
  then show "x_bytes (construct_all build dtor (ptr + 8) pool S (s\<lparr>x_bytes := store_pointer ptr v b\<rparr>)) ?x = pointer_byte v i"
    using i by (simp add: store_pointer_def ux)
qed

subsection \<open>The allocator interface\<close>

text \<open>What placing an instance asks of the memory it is given.\<close>

locale aligned_allocator =
  fixes alloc :: instance_alloc
  assumes alloc_post: "pool_inv P m \<Longrightarrow> a = 2 ^ k \<Longrightarrow> k < 16 \<Longrightarrow> unat n \<le> 2 ^ 59 \<Longrightarrow>
    post_cxx {Bad_alloc, Terminate}
      (\<lambda>(p, P', m'). pool_inv P' m' \<and> unat a dvd unat p \<and> fresh_buffer P m p (unat n) P' m') (alloc n a P m)"
begin

lemma place_instance_post:
  assumes inv: "pool_inv P m" and lay: "layout S ps" and sz: "unat (allocate_size S) \<le> 2 ^ 59"
    and w: "\<And>ptr. writes_own build ptr pool (constructors S)"
  shows "post_cxx {Bad_alloc, Terminate} (\<lambda>(ds, P', m'). pool_inv P' m' \<and> used_region P m \<subseteq> used_region P' m' \<and>
      list_all (\<lambda>(f, T). unat (ty_align T) dvd unat ds + unat (f_offset f) \<and>
        field_extent ds (f, T) \<subseteq> used_region P' m' \<and> field_extent ds (f, T) \<inter> used_region P m = {} \<and>
        field_ready build ds pool (bytes m') (f, T)) ps \<and>
      stored_pointer (bytes m') (ds - 8) (schema_self S) \<and>
      map (\<lambda>c. (c_destructor c, c_pointer c)) (p_cleaners P') =
        map (\<lambda>c. (c_destructor c, c_pointer c)) (p_cleaners P) @ registered_by dtor ds (constructors S))
    (place_instance alloc build dtor pool S P m)" (is "post_cxx _ ?Q _")
proof -
  obtain k where k: "allocate_align S = 2 ^ k" "3 \<le> k" "k < 16" using lay by (auto simp: layout_def)
  define a :: "16 word" where "a = ucast (allocate_align S)"
  have uk: "unat (allocate_align S) = 2 ^ k" using k by (simp add: unat_pow2)
  then have ua: "unat a = 2 ^ k" using k(3)
    unfolding a_def by (simp only: unsigned_ucast_eq) (simp add: take_bit_nat_eq_self)
  have a: "a = 2 ^ k" using ua k by (intro word_unat_eq_iff [THEN iffD2]) (simp add: unat_pow2)
  show ?thesis unfolding place_instance_def a_def [symmetric] Let_def
  proof (rule post_bind [OF alloc_post [OF inv a k(3) sz]], clarify)
    fix ptr P1 m1
    assume inv1: "pool_inv P1 m1" and dv: "unat a dvd unat ptr" and fr: "fresh_buffer P m ptr (unat (allocate_size S)) P1 m1"
    define ds where "ds = ptr + 8"
    define s where "s = construct_all build dtor ds pool S ((exec_start m1)\<lparr>x_bytes := store_pointer ptr (schema_self S) (bytes m1)\<rparr>)"
    define P' m' where "P' = fst (run_in_pool ds P1 m1 s)" and "m' = snd (run_in_pool ds P1 m1 s)"
    have u8: "packed 8 ps (unat (unaligned_allocate_size S))" "unat (unaligned_allocate_size S) \<le> unat (allocate_size S)"
      using lay by (simp_all add: layout_def)
    have ext: "unat ptr + unat (allocate_size S) < 2 ^ 64" using fr by (simp add: fresh_buffer_def)
    have "8 \<le> unat (allocate_size S)" using packed_le [OF u8(1)] u8(2) by simp
    then have uds: "unat ds = unat ptr + 8" unfolding ds_def using ext by (subst unat_add_ok) simp_all
    have same: "pool_inv P' m'" "used_region P' m' = used_region P1 m1"
      using inv1 pool_inv_cong [of m' m1 P' P1] used_region_cong [of m' m1 P' P1]
      by (simp_all add: P'_def m'_def run_in_pool_def)
    have ready: "field_ready build ds pool (bytes m') p" if p: "p \<in> set ps" for p
    proof -
      have "unat ds + unat (allocate_size S) < 2 ^ 64 + 8" using uds ext by simp
      from construct_all_ready [OF lay w this p] show ?thesis by (simp add: m'_def run_in_pool_def s_def)
    qed
    have place: "unat (ty_align (snd p)) dvd unat ds + unat (f_offset (fst p)) \<and>
        field_extent ds p \<subseteq> extent ptr (unat (allocate_size S))" if p: "p \<in> set ps" for p
    proof -
      have al: "unat (ty_align (snd p)) dvd abs_off (fst p)" "unat (ty_align (snd p)) dvd unat (allocate_align S)"
        using lay p by (auto simp: layout_def list_all_iff)
      have "unat (ty_align (snd p)) dvd unat ptr" using al(2) dv by (simp add: ua uk) (rule dvd_trans)
      then have "unat (ty_align (snd p)) dvd unat ptr + abs_off (fst p)" using al(1) by (rule dvd_add)
      moreover have "abs_off (fst p) + unat (ty_size (snd p)) \<le> unat (allocate_size S)"
        using packed_sorted [OF u8(1)] p u8(2) by fastforce
      ultimately show ?thesis by (auto simp: uds abs_off_def field_extent_def extent_def ac_simps)
    qed
    have cl: "map (\<lambda>c. (c_destructor c, c_pointer c)) (p_cleaners P') =
        map (\<lambda>c. (c_destructor c, c_pointer c)) (p_cleaners P) @ registered_by dtor ds (constructors S)"
      using fr by (simp add: P'_def run_in_pool_def s_def construct_all_def fold_registered exec_start_def
          fresh_buffer_def comp_def split_beta)
    have hd: "stored_pointer (bytes m') (ds - 8) (schema_self S)"
      using construct_all_header [OF lay w ext] by (simp add: m'_def run_in_pool_def s_def ds_def)
    have "?Q (ds, P', m')" unfolding prod.case
      using same cl hd ready place fr unfolding list_all_iff fresh_buffer_def by (intro conjI ballI; (simp; fail)?) fastforce+
    then show "post_cxx {Bad_alloc, Terminate} ?Q (Inr (ptr + 8, run_in_pool (ptr + 8) P1 m1
        (construct_all build dtor (ptr + 8) pool S ((exec_start m1)\<lparr>x_bytes := store_pointer ptr (schema_self S) (bytes m1)\<rparr>))))"
      by (simp add: P'_def m'_def s_def ds_def)
  qed
qed

end

sublocale operator_new \<subseteq> serial: aligned_allocator "create_aligned_buffer_dyn nw"
  by unfold_locales (rule create_aligned_buffer_dyn_post)

interpretation bump_serial: aligned_allocator "create_aligned_buffer_dyn bump_new"
  by unfold_locales (rule bump.create_aligned_buffer_dyn_post)

subsection \<open>Sample types\<close>

definition int_T :: cpp_type where
  "int_T = \<lparr>ty_id = 1, ty_size = 4, ty_align = 4, ty_pointer = False, ty_structible = False, ty_schema = nullptr,
     ty_trivial = True, ty_triv_dtor = True, ty_clearable = False, ty_pool = False, ty_use_metadata = False\<rparr>"

definition string_T :: cpp_type where
  "string_T = \<lparr>ty_id = 2, ty_size = 32, ty_align = 8, ty_pointer = False, ty_structible = False, ty_schema = nullptr,
     ty_trivial = False, ty_triv_dtor = False, ty_clearable = True, ty_pool = False, ty_use_metadata = False\<rparr>"

definition pool_string_T :: cpp_type where
  "pool_string_T = string_T\<lparr>ty_id := 3, ty_pool := True, ty_use_metadata := True\<rparr>"

definition sample_fields :: "(string \<times> cpp_type) list" where
  "sample_fields = [(''id'', int_T), (''age'', int_T), (''name'', string_T), (''tag'', pool_string_T)]"

definition idle_builder :: builder where
  "idle_builder f p pool meta b = b"

lemma sample_types_ok [simp]: "type_ok int_T" "type_ok string_T" "type_ok pool_string_T"
proof -
  have "(4::size_t) \<in> (\<lambda>k. 2 ^ k) ` {..<16}" by (rule image_eqI [of _ _ 2]) simp_all
  moreover have "(8::size_t) \<in> (\<lambda>k. 2 ^ k) ` {..<16}" by (rule image_eqI [of _ _ 3]) simp_all
  ultimately show "type_ok int_T" "type_ok string_T" "type_ok pool_string_T"
    by (simp_all add: type_ok_def int_T_def string_T_def pool_string_T_def)
qed

lemma sample_args_ok: "schema_args_ok sample_fields"
  by (simp add: schema_args_ok_def sample_fields_def layout_size_def)
    (simp add: int_T_def string_T_def pool_string_T_def)

lemma idle_writes_own [simp]: "writes_own idle_builder ptr pool es"
  by (simp add: writes_own_def idle_builder_def)

subsection \<open>Properties\<close>

text \<open>C3. A schema lays out its fields the way a C++ compiler would: each field
  is found under its name, at an offset aligned for its type, behind the field registered before it and inside
  the allocated size, which is a multiple of the alignment.\<close>

theorem schema_layout_sound:
  assumes "schema_args_ok ts"
  shows "\<exists>ps. map (\<lambda>(f, T). (f_name f, T)) ps = ts \<and>
    sorted_wrt (\<lambda>p q. abs_off (fst p) + unat (ty_size (snd p)) \<le> abs_off (fst q)) ps \<and>
    list_all (\<lambda>(f, T). get_field (f_name f) (register_all ts Schema) = Inr (FieldAccessor_of f) \<and>
      unat (ty_align T) dvd abs_off f \<and> unat (ty_align T) dvd unat (allocate_align (register_all ts Schema)) \<and>
      8 \<le> abs_off f \<and> abs_off f + unat (ty_size T) \<le> unat (allocate_size (register_all ts Schema))) ps \<and>
    unat (allocate_align (register_all ts Schema)) dvd unat (allocate_size (register_all ts Schema))"
proof -
  from assms obtain ps where lay: "layout (register_all ts Schema) ps" and ps: "map (\<lambda>(f, T). (f_name f, T)) ps = ts"
    by (rule schema_layout)
  let ?S = "register_all ts Schema"
  have pk: "packed 8 ps (unat (unaligned_allocate_size ?S))" "unat (unaligned_allocate_size ?S) \<le> unat (allocate_size ?S)"
    using lay by (simp_all add: layout_def)
  have "list_all (\<lambda>(f, T). get_field (f_name f) ?S = Inr (FieldAccessor_of f) \<and>
      unat (ty_align T) dvd abs_off f \<and> unat (ty_align T) dvd unat (allocate_align ?S) \<and>
      8 \<le> abs_off f \<and> abs_off f + unat (ty_size T) \<le> unat (allocate_size ?S)) ps"
    using lay layout_get_field [OF lay] packed_sorted [OF pk(1)] pk(2) by (fastforce simp: layout_def list_all_iff)
  then show ?thesis using packed_sorted [OF pk(1)] ps lay by (intro exI [of _ ps]) (simp add: layout_def)
qed

theorem schema_layout_sound_witness:
  "schema_args_ok sample_fields \<and> (\<exists>ps. map (\<lambda>(f, T). (f_name f, T)) ps = sample_fields \<and>
    sorted_wrt (\<lambda>p q. abs_off (fst p) + unat (ty_size (snd p)) \<le> abs_off (fst q)) ps \<and>
    list_all (\<lambda>(f, T). get_field (f_name f) (register_all sample_fields Schema) = Inr (FieldAccessor_of f) \<and>
      unat (ty_align T) dvd abs_off f \<and> unat (ty_align T) dvd unat (allocate_align (register_all sample_fields Schema)) \<and>
      8 \<le> abs_off f \<and> abs_off f + unat (ty_size T) \<le> unat (allocate_size (register_all sample_fields Schema))) ps \<and>
    unat (allocate_align (register_all sample_fields Schema)) dvd unat (allocate_size (register_all sample_fields Schema)))"
  using sample_args_ok schema_layout_sound [OF sample_args_ok] by (rule conjI)

text \<open>C8. An instance created in a memory pool has every field at an aligned address in fresh
  pool memory, trivial fields zeroed and the others as their own constructor left them, the address of its schema in the
  8 bytes before it, and the pool will destroy exactly the fields that need it.\<close>

theorem create_with_pool_fields:
  assumes "operator_new nw" and "pool_inv P m" and "schema_args_ok ts"
    and "\<And>ptr. writes_own build ptr pool (constructors (register_all ts Schema))"
  shows "\<exists>ps. map (\<lambda>(f, T). (f_name f, T)) ps = ts \<and>
    post_cxx {Bad_alloc, Terminate} (\<lambda>(ds, P', m'). pool_inv P' m' \<and> used_region P m \<subseteq> used_region P' m' \<and>
      list_all (\<lambda>(f, T). unat (ty_align T) dvd unat ds + unat (f_offset f) \<and>
        field_extent ds (f, T) \<subseteq> used_region P' m' \<and> field_extent ds (f, T) \<inter> used_region P m = {} \<and>
        field_ready build ds pool (bytes m') (f, T)) ps \<and>
      stored_pointer (bytes m') (ds - 8) self \<and>
      map (\<lambda>c. (c_destructor c, c_pointer c)) (p_cleaners P') =
        map (\<lambda>c. (c_destructor c, c_pointer c)) (p_cleaners P) @
          registered_by dtor ds (constructors (register_all ts Schema)))
    (create_with_pool nw build dtor pool ((register_all ts Schema)\<lparr>schema_self := self\<rparr>) P m)"
proof -
  note nw = assms(1)
  from assms(3) obtain ps where lay: "layout (register_all ts Schema) ps" and ps: "map (\<lambda>(f, T). (f_name f, T)) ps = ts"
    and sz: "unat (allocate_size (register_all ts Schema)) \<le> 2 ^ 59" by (rule schema_layout)
  have "aligned_allocator (create_aligned_buffer_dyn nw)"
    by unfold_locales (rule operator_new.create_aligned_buffer_dyn_post [OF nw])
  moreover have "layout ((register_all ts Schema)\<lparr>schema_self := self\<rparr>) ps" using lay by (simp add: layout_def)
  ultimately show ?thesis
    using aligned_allocator.place_instance_post [of "create_aligned_buffer_dyn nw" P m
        "(register_all ts Schema)\<lparr>schema_self := self\<rparr>" ps build pool dtor] assms(2,4) sz ps
    unfolding create_with_pool_def by (intro exI [of _ ps]) simp
qed

theorem create_with_pool_fields_witness:
  "\<exists>ps. map (\<lambda>(f, T). (f_name f, T)) ps = sample_fields \<and>
    post_cxx {Bad_alloc, Terminate} (\<lambda>(ds, P', m'). pool_inv P' m' \<and>
      used_region (StaticMemoryPool 1024) one_block_mem \<subseteq> used_region P' m' \<and>
      list_all (\<lambda>(f, T). unat (ty_align T) dvd unat ds + unat (f_offset f) \<and>
        field_extent ds (f, T) \<subseteq> used_region P' m' \<and>
        field_extent ds (f, T) \<inter> used_region (StaticMemoryPool 1024) one_block_mem = {} \<and>
        field_ready idle_builder ds 1 (bytes m') (f, T)) ps \<and>
      stored_pointer (bytes m') (ds - 8) 512 \<and>
      map (\<lambda>c. (c_destructor c, c_pointer c)) (p_cleaners P') =
        map (\<lambda>c. (c_destructor c, c_pointer c)) (p_cleaners (StaticMemoryPool 1024)) @
          registered_by of_nat ds (constructors (register_all sample_fields Schema)))
    (create_with_pool bump_new idle_builder of_nat 1 ((register_all sample_fields Schema)\<lparr>schema_self := 512\<rparr>)
      (StaticMemoryPool 1024) one_block_mem)"
proof (rule create_with_pool_fields [OF bump.operator_new_axioms _ sample_args_ok idle_writes_own])
  show "pool_inv (StaticMemoryPool 1024) one_block_mem"
    using one_block_inv by (intro StaticMemoryPool_inv) (auto simp: pool_inv_def pool_rep_def)
qed

lemma destroy_all_eq:
  "destroy_all ptr S s = s\<lparr>x_destroyed := x_destroyed s @ map (\<lambda>(off, t). (t, ptr + off)) (destructors S)\<rparr>"
proof -
  have "fold (\<lambda>(off, t) s. s\<lparr>x_destroyed := x_destroyed s @ [(t, ptr + off)]\<rparr>) ds s =
      s\<lparr>x_destroyed := x_destroyed s @ map (\<lambda>(off, t). (t, ptr + off)) ds\<rparr>" for ds
    by (induction ds arbitrary: s) auto
  then show ?thesis by (simp add: destroy_all_def)
qed

text \<open>C34. Deleting an instance made by \<open>DynamicStruct::create\<close> runs the destructor of every field that
  has one and is not pool-managed, once and in the order of registration, and returns the block it
  was given: the headers and blocks are those from before.\<close>

theorem ds_create_delete:
  assumes "schema_args_ok ts" and "ds_create anw build dtor (register_all ts Schema) h = Inr (ds, h1)"
    and "map_of (ds_headers h) ds = None"
  shows "\<exists>(ps :: (Field \<times> cpp_type) list) h2. map (\<lambda>(f, T). (f_name f, T)) ps = ts \<and> ds_delete ds h1 = Inr h2 \<and>
    map_of (ds_headers h2) = map_of (ds_headers h) \<and> ds_blocks h2 = ds_blocks h \<and>
    x_destroyed (ds_exec h2) = x_destroyed (ds_exec h1) @
      [(ty_id T, ds + f_offset f). (f, T) \<leftarrow> ps, \<not> ty_triv_dtor T \<and> \<not> ty_pool T]"
proof -
  let ?S = "register_all ts Schema"
  from assms(1) obtain ps where lay: "layout ?S ps" and ps: "map (\<lambda>(f, T). (f_name f, T)) ps = ts"
    by (rule schema_layout)
  obtain ptr E where ptr: "ds = ptr + 8" and h1: "h1 = h\<lparr>ds_headers := AList.update ds ?S (ds_headers h),
      ds_blocks := ptr # ds_blocks h, ds_exec := E\<rparr>"
    using assms(2) by (auto simp: ds_create_def Let_def split: option.splits)
  have hs: "hidden_schema ds (h1\<lparr>ds_exec := s\<rparr>) = Inr ?S" for s by (simp add: hidden_schema_def h1 update_conv')
  have ds1: "map (\<lambda>(off, t). (t, ds + off)) (destructors ?S) =
      [(ty_id T, ds + f_offset f). (f, T) \<leftarrow> ps, \<not> ty_triv_dtor T \<and> \<not> ty_pool T]"
  proof -
    have "destructors ?S = [(f_offset f, ty_id T). (f, T) \<leftarrow> ps, \<not> ty_triv_dtor T \<and> \<not> ty_pool T]"
      using lay by (simp add: layout_def)
    moreover have "map (\<lambda>(off, t). (t, ds + off)) [(f_offset f, ty_id T). (f, T) \<leftarrow> ps, \<not> ty_triv_dtor T \<and> \<not> ty_pool T] =
        [(ty_id T, ds + f_offset f). (f, T) \<leftarrow> ps, \<not> ty_triv_dtor T \<and> \<not> ty_pool T]" by (induction ps) auto
    ultimately show ?thesis by simp
  qed
  define h2 where "h2 = h1\<lparr>ds_exec := destroy_all ds ?S (ds_exec h1), ds_headers := AList.delete ds (ds_headers h1),
      ds_blocks := ds_blocks h\<rparr>"
  have "ds_dtor ds h1 = Inr (h1\<lparr>ds_exec := destroy_all ds ?S (ds_exec h1)\<rparr>)"
    using hs [of "ds_exec h1"] by (simp add: ds_dtor_def)
  then have "ds_delete ds h1 = Inr h2" using hs
    by (simp add: ds_delete_def ds_operator_delete_def h2_def h1 ptr)
  moreover have "map_of (ds_headers h2) = map_of (ds_headers h)"
    using assms(3) by (auto simp: h2_def h1 delete_conv' update_conv')
  ultimately show ?thesis using ps by (intro exI [of _ ps] exI [of _ h2]) (simp add: h2_def destroy_all_eq ds1)
qed

definition sample_heap :: ds_heap where
  "sample_heap = \<lparr>ds_headers = [], ds_blocks = [], ds_exec = \<lparr>x_bytes = \<lambda>_. 0, x_registered = [], x_destroyed = []\<rparr>\<rparr>"

definition sample_built :: ds_heap where
  "sample_built = sample_heap\<lparr>ds_headers := [(4104, register_all sample_fields Schema)], ds_blocks := [4096],
     ds_exec := construct_all idle_builder of_nat 4104 nullptr (register_all sample_fields Schema)
       ((ds_exec sample_heap)\<lparr>x_bytes := store_pointer 4096 (schema_self (register_all sample_fields Schema)) (\<lambda>_. 0)\<rparr>)\<rparr>"

theorem ds_create_delete_witness:
  "ds_create (\<lambda>_ _ _. Some 4096) idle_builder of_nat (register_all sample_fields Schema) sample_heap = Inr (4104, sample_built) \<and>
   (\<exists>(ps :: (Field \<times> cpp_type) list) h2. map (\<lambda>(f, T). (f_name f, T)) ps = sample_fields \<and> ds_delete 4104 sample_built = Inr h2 \<and>
    map_of (ds_headers h2) = map_of (ds_headers sample_heap) \<and> ds_blocks h2 = ds_blocks sample_heap \<and>
    x_destroyed (ds_exec h2) = x_destroyed (ds_exec sample_built) @
      [(ty_id T, 4104 + f_offset f). (f, T) \<leftarrow> ps, \<not> ty_triv_dtor T \<and> \<not> ty_pool T])"
proof -
  have "ds_create (\<lambda>_ _ _. Some 4096) idle_builder of_nat (register_all sample_fields Schema) sample_heap = Inr (4104, sample_built)"
    by (simp add: ds_create_def Let_def sample_heap_def sample_built_def)
  from this ds_create_delete [OF sample_args_ok this] show ?thesis by (simp add: sample_heap_def)
qed

lemma update_metadata_loop_total:
  "length us \<le> length ms \<Longrightarrow> \<exists>n. update_metadata_loop upd ptr us ms acc = Inr n"
  by (induction upd ptr us ms acc rule: update_metadata_loop.induct) (auto split: list.splits)

lemma update_all_total:
  "length (metadata_updator S) \<le> length ms \<Longrightarrow> \<exists>n. update_all_instances upd S ms dss acc = Inr n"
proof (induction dss arbitrary: acc)
  case (Cons ds dss)
  obtain n where "update_metadata upd ds ms S = Inr n"
    using update_metadata_loop_total [OF Cons.prems, of upd ds 0] by (auto simp: update_metadata_def)
  then show ?case using Cons.IH [OF Cons.prems, of "acc + n"] by simp
qed simp

lemma metadata_dtor_loop_eq:
  assumes "metadata_deletor S = xs @ cs" and "\<And>t i. mk t i \<noteq> nullptr"
  shows "metadata_dtor_loop S (length xs)
      (map (\<lambda>(i, c). case c of None \<Rightarrow> nullptr | Some t \<Rightarrow> mk t i) (enumerate (length xs) cs)) =
    Inr (concat (map (\<lambda>(i, c). case c of None \<Rightarrow> [] | Some t \<Rightarrow> [(t, mk t i)]) (enumerate (length xs) cs)))"
  using assms
proof (induction cs arbitrary: xs)
  case (Cons c cs)
  have "metadata_deletor S = (xs @ [c]) @ cs" using Cons.prems by simp
  note IH = Cons.IH [OF this Cons.prems(2)]
  show ?case using IH Cons.prems
    by (cases c) (simp_all add: destroy_metadata_def nth_append)
qed simp

text \<open>Fresh metadata has one slot per field and is always made.\<close>

lemma fresh_metadata:
  assumes "schema_args_ok ts" and "r_schema R = register_all ts Schema"
  shows "\<exists>sz. update_allocation_metadata mk upd R \<lparr>metadatas = [], meta_schema = None\<rparr> =
    Inr (sz, \<lparr>metadatas = create_metadatas mk (register_all ts Schema), meta_schema = Some (register_all ts Schema)\<rparr>,
      length (r_ds_vec R))"
proof -
  let ?S = "register_all ts Schema"
  from assms(1) obtain ps :: "(Field \<times> cpp_type) list" where lay: "layout ?S ps"
    by (rule schema_layout)
  have "length (metadata_updator ?S) \<le> length (create_metadatas mk ?S)"
    using lay by (simp add: layout_def create_metadatas_def)
  from update_all_total [OF this, of upd "r_ds_vec R" 0] obtain sz where
    "update_all_instances upd ?S (create_metadatas mk ?S) (r_ds_vec R) 0 = Inr sz" by blast
  then show ?thesis using assms(2) by (simp add: update_allocation_metadata_def Let_def)
qed

text \<open>\<open>update_allocation_metadata\<close> on fresh metadata always succeeds, and destroying the
  metadata later calls, for each field that uses metadata, the deleter of its type once on the
  object its creator made.\<close>

theorem metadata_created_deleted:
  assumes "schema_args_ok ts" and "\<And>t i. mk t i \<noteq> nullptr" and "r_schema R = register_all ts Schema"
  shows "\<exists>sz M. update_allocation_metadata mk upd R \<lparr>metadatas = [], meta_schema = None\<rparr> = Inr (sz, M, length (r_ds_vec R)) \<and>
    AllocationMetadata_dtor M = Inr (concat (map (\<lambda>(i, n, T). if ty_use_metadata T then [(ty_id T, mk (ty_id T) i)] else [])
      (enumerate 0 ts)))"
proof -
  let ?S = "register_all ts Schema"
  from assms(1) obtain ps where lay: "layout ?S ps" and ps: "map (\<lambda>(f, T). (f_name f, T)) ps = ts"
    by (rule schema_layout)
  have cr: "metadata_creator ?S = map (\<lambda>(n, T). if ty_use_metadata T then Some (ty_id T) else None) ts"
    and del: "metadata_deletor ?S = metadata_creator ?S"
    using lay by (simp_all add: layout_def ps [symmetric] comp_def split_beta)
  have "AllocationMetadata_dtor \<lparr>metadatas = create_metadatas mk ?S, meta_schema = Some ?S\<rparr> =
      Inr (concat (map (\<lambda>(i, c). case c of None \<Rightarrow> [] | Some t \<Rightarrow> [(t, mk t i)]) (enumerate 0 (metadata_creator ?S))))"
    using metadata_dtor_loop_eq [of ?S "[]" "metadata_creator ?S" mk] assms(2)
    by (simp add: AllocationMetadata_dtor_def del create_metadatas_def)
  moreover have "map (\<lambda>(i, c). case c of None \<Rightarrow> [] | Some t \<Rightarrow> [(t, mk t i)]) (enumerate 0 (metadata_creator ?S)) =
      map (\<lambda>(i, n, T). if ty_use_metadata T then [(ty_id T, mk (ty_id T) i)] else []) (enumerate 0 ts)"
    by (rule nth_equalityI) (auto simp: cr nth_enumerate_eq split_beta)
  ultimately show ?thesis using fresh_metadata [OF assms(1,3), of mk upd] by auto
qed

theorem metadata_created_deleted_witness:
  "\<exists>sz M. update_allocation_metadata (\<lambda>_ _. 64) (\<lambda>_ _ _. 1) \<lparr>r_schema = register_all sample_fields Schema, r_ds_vec = [8], r_use_num = 0\<rparr>
      \<lparr>metadatas = [], meta_schema = None\<rparr> =
      Inr (sz, M, length (r_ds_vec \<lparr>r_schema = register_all sample_fields Schema, r_ds_vec = [8], r_use_num = 0\<rparr>)) \<and>
    AllocationMetadata_dtor M = Inr (concat (map (\<lambda>(i, n, T). if ty_use_metadata T then [(ty_id T, 64)] else [])
      (enumerate 0 sample_fields)))"
  by (rule metadata_created_deleted [OF sample_args_ok]) simp_all

lemma fold_add_entry_prefix:
  "snd (snd e) \<noteq> Fill_with_zero \<Longrightarrow> \<exists>zs. fold (add_entry kind) ps (xs @ e # ys) = xs @ e # zs"
proof (induction ps arbitrary: ys)
  case (Cons p ps)
  have "\<exists>ys'. add_entry kind p (xs @ e # ys) = xs @ e # ys'"
    using Cons.prems by (auto simp: add_entry_def add_fill_def split_beta Let_def butlast_append)
  then show ?case using Cons.IH [OF Cons.prems] by auto
qed auto

text \<open>C35. \<open>construct_with_metadata_all\<close> numbers its entries, but consecutive trivial fields share one
  entry while the metadata has one slot per field: after two trivial fields, a field that needs its
  metadata is given the null slot of its neighbour and dereferences it.\<close>

theorem metadata_misaligned:
  assumes "schema_args_ok ((n1, T1) # (n2, T2) # (n3, T3) # ts)"
    and "ty_trivial T1" and "ty_trivial T2" and "\<not> ty_use_metadata T2" and "\<not> ty_trivial T3" and "ty_use_metadata T3"
  shows "construct_with_metadata_all build dtor ptr pool
      (create_metadatas mk (register_all ((n1, T1) # (n2, T2) # (n3, T3) # ts) Schema))
      (register_all ((n1, T1) # (n2, T2) # (n3, T3) # ts) Schema) s = Inl Null_deref"
proof -
  let ?S = "register_all ((n1, T1) # (n2, T2) # (n3, T3) # ts) Schema"
  from assms(1) obtain ps where lay: "layout ?S ps" and ps: "map (\<lambda>(f, T). (f_name f, T)) ps = (n1, T1) # (n2, T2) # (n3, T3) # ts"
    by (rule schema_layout)
  then obtain f1 f2 f3 rest where p: "ps = (f1, T1) # (f2, T2) # (f3, T3) # rest" by auto
  let ?e3 = "(f_offset f3, ty_size T3, Construct_with_metadata (ty_id T3))"
  define n where "n = f_offset f2 - f_offset f1 + ty_size T2"
  define S where "S = ?S"
  have "with_meta_constructor S = entries with_metadata_fn ps" using lay by (simp add: layout_def S_def)
  also have "\<dots> = fold (add_entry with_metadata_fn) rest ([(f_offset f1, n, Fill_with_zero)] @ ?e3 # [])"
    using assms by (simp add: entries_def p add_entry_def add_fill_def with_metadata_fn_def n_def)
  finally obtain zs where es: "with_meta_constructor S = (f_offset f1, n, Fill_with_zero) # ?e3 # zs"
    using fold_add_entry_prefix [of ?e3 with_metadata_fn rest "[(f_offset f1, n, Fill_with_zero)]" "[]"] by auto
  have "metadata_creator S = map (\<lambda>(f, T). if ty_use_metadata T then Some (ty_id T) else None) ps"
    using lay by (simp add: layout_def S_def)
  then have ms: "create_metadatas mk S ! 1 = nullptr" "1 < length (create_metadatas mk S)"
    using assms(4) by (simp_all add: create_metadatas_def p)
  have "construct_with_metadata_all build dtor ptr pool (create_metadatas mk S) S s = Inl Null_deref"
    using ms by (cases "create_metadatas mk S") (simp_all add: construct_with_metadata_all_def es needs_metadata_def)
  then show ?thesis by (simp only: S_def)
qed

theorem metadata_misaligned_witness:
  "construct_with_metadata_all idle_builder of_nat 4104 1
      (create_metadatas (\<lambda>_ _. 64) (register_all [(''a'', int_T), (''b'', int_T), (''c'', pool_string_T)] Schema))
      (register_all [(''a'', int_T), (''b'', int_T), (''c'', pool_string_T)] Schema) (ds_exec sample_heap) = Inl Null_deref"
  by (rule metadata_misaligned)
    (simp_all add: schema_args_ok_def layout_size_def, simp_all add: int_T_def string_T_def pool_string_T_def)

text \<open>\<open>register_field\<close> looks the name up before it takes the lock. When two threads register the
  same member and both look before either registers, the second adds all entries again: the field map
  does not change, but the destructor of the member is now listed twice.\<close>

theorem register_race_duplicates:
  fixes ft off sch
  assumes "map_of (field_map S) n = None" and "\<not> ty_triv_dtor T" and "\<not> ty_pool T"
  defines "S1 \<equiv> snd (register_locked T n ft (Some off) sch S)"
  defines "S2 \<equiv> snd (register_locked T n ft (Some off) sch S1)"
  shows "destructors S2 = destructors S @ [(off, ty_id T), (off, ty_id T)] \<and> field_map S2 = field_map S1 \<and>
    map_of (field_map S1) n = Some \<lparr>f_offset = off, f_name = n, f_type_id = ty_id T, f_field_type = ft, f_schema = sch\<rparr>"
  using assms(1-3) by (simp add: S1_def S2_def register_locked_def add_contruct_with_metadata_def
      add_update_metadata_def add_meta_data_eq add_cleaner_def add_destructor_eq add_constructor_def emplace_def Let_def map_add_def)

theorem register_race_duplicates_witness:
  "let S1 = snd (register_locked string_T ''name'' OTHER (Some 16) 0 Schema);
       S2 = snd (register_locked string_T ''name'' OTHER (Some 16) 0 S1) in
   destructors S2 = destructors Schema @ [(16, ty_id string_T), (16, ty_id string_T)] \<and> field_map S2 = field_map S1 \<and>
   map_of (field_map S1) ''name'' = Some \<lparr>f_offset = 16, f_name = ''name'', f_type_id = ty_id string_T, f_field_type = OTHER, f_schema = 0\<rparr>"
  unfolding Let_def
  by (rule register_race_duplicates) (simp_all add: Schema_def BaseSchema_def string_T_def)

lemma unat_wrapped_size:
  fixes o1 o2 n :: size_t
  assumes "unat o2 + unat n < unat o1"
  shows "unat (o2 - o1 + n) = 2 ^ 64 - (unat o1 - unat o2 - unat n)"
proof -
  have sum: "unat (o2 + n) = unat o2 + unat n"
    using assms unat_lt_64 [of o1] by (intro unat_add_ok) simp
  define d where "d = o1 - (o2 + n)"
  have d: "unat d = unat o1 - (unat o2 + unat n)" unfolding d_def using assms by (subst unat_sub_ok) (simp_all add: sum)
  then have d0: "d \<noteq> 0" using assms by (auto simp: unat_eq_0 [symmetric])
  have "(unat (- d) + unat d) mod 2 ^ 64 = 0"
    using unat_word_ariths(1) [of "- d" d] by simp
  then obtain q where q: "unat (- d) + unat d = 2 ^ 64 * q" by (metis mod_0_imp_dvd dvdE)
  have "0 < unat d" using d0 by (simp add: unat_gt_0)
  moreover have "unat (- d) < 2 ^ 64" "unat d < 2 ^ 64" by (rule unat_lt_64)+
  ultimately have "q = 1" using q by (cases q) auto
  then have "unat (- d) = 2 ^ 64 - unat d" using q by simp
  moreover have "o2 - o1 + n = - d" by (simp add: d_def)
  ultimately show ?thesis using d by simp
qed

text \<open>Members registered with explicit offsets out of order break the merging of zero-filled
  ranges: a trivial member that lies before the previous trivial one turns the size of the merged range
  negative, that is, into almost the whole address space.\<close>

theorem zero_fill_backwards:
  assumes "ty_trivial T1" and "ty_trivial T2" and "n1 \<noteq> n2" and "unat o2 + unat (ty_size T2) < unat o1"
  shows "constructors (snd (register_field T2 n2 (Some o2) (snd (register_field T1 n1 (Some o1) Schema)))) =
      [(o1, o2 - o1 + ty_size T2, Fill_with_zero)] \<and>
    unat (o2 - o1 + ty_size T2) = 2 ^ 64 - (unat o1 - unat o2 - unat (ty_size T2))"
proof -
  note defs = register_field_core_def register_locked_def add_contruct_with_metadata_def
    add_update_metadata_def add_meta_data_eq add_cleaner_def add_destructor_eq add_constructor_def emplace_def Let_def
  define S1 where "S1 = snd (register_field T1 n1 (Some o1) Schema)"
  have "constructors S1 = [(o1, ty_size T1, Fill_with_zero)]" "map_of (field_map S1) n2 = None"
    using assms(1,3) by (auto simp: S1_def register_field_def defs add_fill_def Schema_def BaseSchema_def)
  then have "constructors (snd (register_field T2 n2 (Some o2) S1)) = [(o1, o2 - o1 + ty_size T2, Fill_with_zero)]"
    using assms(2) by (auto simp: register_field_def defs add_fill_def)
  then show ?thesis using unat_wrapped_size [OF assms(4)] by (simp add: S1_def)
qed

theorem zero_fill_backwards_witness:
  "constructors (snd (register_field int_T ''a'' (Some 0) (snd (register_field int_T ''b'' (Some 8) Schema)))) =
      [(8, 0 - 8 + ty_size int_T, Fill_with_zero)] \<and>
    unat (0 - 8 + ty_size int_T) = 2 ^ 64 - (unat (8 :: size_t) - unat (0 :: size_t) - unat (ty_size int_T))"
  by (rule zero_fill_backwards) (simp_all add: int_T_def)

fun reuse_gets ::
  "new_fun \<Rightarrow> builder \<Rightarrow> (nat \<Rightarrow> addr) \<Rightarrow> addr \<Rightarrow> nat \<Rightarrow> reuse_pool \<Rightarrow> pool \<Rightarrow> mem \<Rightarrow> (addr list \<times> reuse_pool \<times> pool \<times> mem) cxx" where
  "reuse_gets nw build dtor pool 0 R P m = Inr ([], R, P, m)"
| "reuse_gets nw build dtor pool (Suc n) R P m =
     bind_cxx (reuse_get nw build dtor pool R P m) (\<lambda>(ds, R1, P1, m1).
     bind_cxx (reuse_gets nw build dtor pool n R1 P1 m1) (\<lambda>(dss, R2, P2, m2). Inr (ds # dss, R2, P2, m2)))"

lemma reuse_gets_within:
  "r_use_num R + n \<le> length (r_ds_vec R) \<Longrightarrow>
   reuse_gets nw build dtor pool n R P m =
     Inr (take n (drop (r_use_num R) (r_ds_vec R)), R\<lparr>r_use_num := r_use_num R + n\<rparr>, P, m)"
proof (induction n arbitrary: R)
  case (Suc n)
  then have "r_use_num R < length (r_ds_vec R)" by simp
  then show ?case using Suc.prems Suc.IH [of "R\<lparr>r_use_num := Suc (r_use_num R)\<rparr>"]
    by (simp add: reuse_get_def Cons_nth_drop_Suc [symmetric])
qed simp

text \<open>After \<open>reconstruct\<close>, which clears exactly the instances handed out since the last time,
  the next calls of \<open>get\<close> return the pool's instances again, in order, without allocating.\<close>

theorem reuse_after_reconstruct:
  assumes "r_use_num R \<le> length (r_ds_vec R)" and "n \<le> length (r_ds_vec R)"
  shows "\<exists>R' s'. reuse_reconstruct build dtor pool R s = Inr (R', s') \<and>
    s' = fold (\<lambda>ds. clear_all build dtor ds pool (r_schema R)) (take (r_use_num R) (r_ds_vec R)) s \<and>
    reuse_gets nw build dtor pool n R' P m = Inr (take n (r_ds_vec R), R'\<lparr>r_use_num := n\<rparr>, P, m)"
  using assms reuse_gets_within [of "R\<lparr>r_use_num := 0\<rparr>" n] by (simp add: reuse_reconstruct_def)

theorem reuse_after_reconstruct_witness:
  "let R = \<lparr>r_schema = Schema, r_ds_vec = [8, 72, 136], r_use_num = 2\<rparr> in
   \<exists>R' s'. reuse_reconstruct idle_builder of_nat 1 R (ds_exec sample_heap) = Inr (R', s') \<and>
    s' = fold (\<lambda>ds. clear_all idle_builder of_nat ds 1 (r_schema R)) (take (r_use_num R) (r_ds_vec R)) (ds_exec sample_heap) \<and>
    reuse_gets bump_new idle_builder of_nat 1 3 R' (StaticMemoryPool 128) empty_mem =
      Inr (take 3 (r_ds_vec R), R'\<lparr>r_use_num := 3\<rparr>, StaticMemoryPool 128, empty_mem)"
  unfolding Let_def by (rule reuse_after_reconstruct) simp_all

lemma register_members_align:
  "allocate_align (fold (\<lambda>(n, T, off) S. snd (register_field T n (Some off) S)) members S) = allocate_align S"
proof (induction members arbitrary: S)
  case (Cons m ms)
  obtain n T off where m: "m = (n, T, off)" by (metis prod.exhaust)
  have "allocate_align (snd (register_field T n (Some off) S)) = allocate_align S"
    by (auto simp: register_field_def register_field_core_def register_locked_def add_contruct_with_metadata_def
        add_update_metadata_def add_meta_data_eq add_cleaner_def add_destructor_eq add_constructor_def Let_def
        split: option.splits)
  then show ?case using Cons.IH by (simp add: m)
qed simp

text \<open>For a class with an alignment above 8 the schema asks for a block with that alignment but
  puts the instance 8 bytes into it: the address of the instance is never aligned for the class.\<close>

theorem struct_instance_misaligned:
  fixes ptr :: addr
  assumes "alignof_cls = 2 ^ k" and "3 < k" and "k < 16" and "unat ptr + 8 < 2 ^ 64"
    and "unat (allocate_align (struct_schema members sizeof_cls alignof_cls)) dvd unat ptr"
  shows "allocate_align (struct_schema members sizeof_cls alignof_cls) = alignof_cls \<and>
    \<not> unat alignof_cls dvd unat (ptr + 8)"
proof -
  have "(8::size_t) = 2 ^ 3" by simp
  then have "max 8 alignof_cls = (2 ^ max 3 k :: size_t)" using max_pow2 [of 3 k] assms(1,3) by simp
  then have al: "allocate_align (struct_schema members sizeof_cls alignof_cls) = alignof_cls"
    using assms(1,2) register_members_align [of members Schema]
    by (simp add: struct_schema_def set_size_and_align_def Let_def) (simp add: Schema_def BaseSchema_def max_def)
  have u: "unat alignof_cls = 2 ^ k" using assms(1,3) by (simp add: unat_pow2)
  have "\<not> (2 ^ k) dvd (8::nat)"
  proof
    assume "2 ^ k dvd (8::nat)"
    then have "2 ^ k \<le> (2::nat) ^ 3" by (auto dest: dvd_imp_le)
    then show False using assms(2) by (simp only: power_increasing_iff)
  qed
  moreover have "unat (ptr + 8) = unat ptr + 8" using assms(4) by (subst unat_add_ok) simp_all
  ultimately show ?thesis using al assms(5) u by (simp add: dvd_add_right_iff)
qed

theorem struct_instance_misaligned_witness:
  "allocate_align (struct_schema [(''a'', int_T, 0)] 32 16) = 16 \<and> \<not> unat (16 :: size_t) dvd unat (4096 + 8 :: addr)"
proof (rule struct_instance_misaligned [where k = 4])
  have "allocate_align (struct_schema [(''a'', int_T, 0)] 32 16) = 16"
    using register_members_align [of "[(''a'', int_T, 0)]" Schema]
    by (simp add: struct_schema_def set_size_and_align_def Let_def) (simp add: Schema_def BaseSchema_def max_def)
  then show "unat (allocate_align (struct_schema [(''a'', int_T, 0)] 32 16)) dvd unat (4096 :: addr)" by simp
qed simp_all

end
