(* ===== verification/Struct_Lifetime.thy ===== *)
theory Struct_Lifetime
  imports Struct_Theorems Pool_Refinement
begin

text \<open>
  Dynamic structs over the life of a request: instances are created in one memory pool, and the pool's
  \<open>clear\<close> ends them all. This composes \<open>DynamicStruct::create_with_pool\<close> with
  \<open>StaticMemoryPool::register_destructor\<close> and \<open>StaticMemoryPool::clear\<close>.
\<close>

subsection \<open>Several instances in one pool\<close>

fun create_structs ::
  "new_fun \<Rightarrow> builder \<Rightarrow> (nat \<Rightarrow> addr) \<Rightarrow> addr \<Rightarrow> schema list \<Rightarrow> pool \<Rightarrow> mem \<Rightarrow> (addr list \<times> pool \<times> mem) cxx" where
  "create_structs nw build dtor pool [] P m = Inr ([], P, m)"
| "create_structs nw build dtor pool (S # Ss) P m =
     bind_cxx (create_with_pool nw build dtor pool S P m) (\<lambda>(ds, P1, m1).
     bind_cxx (create_structs nw build dtor pool Ss P1 m1) (\<lambda>(dss, s). Inr (ds # dss, s)))"

text \<open>The request is over.\<close>

definition structs_request ::
  "new_fun \<Rightarrow> builder \<Rightarrow> (nat \<Rightarrow> addr) \<Rightarrow> addr \<Rightarrow> schema list \<Rightarrow> pool \<Rightarrow> mem \<Rightarrow> (addr list \<times> pool \<times> mem) cxx" where
  "structs_request nw build dtor pool Ss P m =
     bind_cxx (create_structs nw build dtor pool Ss P m) (\<lambda>(dss, P1, m1).
     bind_cxx (pool_clear nw P1 m1) (\<lambda>s. Inr (dss, s)))"

text \<open>The destructor calls an instance with these fields owes, and instances whose fields do not overlap.\<close>

definition owed :: "(nat \<Rightarrow> addr) \<Rightarrow> addr \<Rightarrow> (Field \<times> cpp_type) list \<Rightarrow> (addr \<times> addr) list" where
  "owed dtor ds ps = [(dtor (ty_id T), ds + f_offset f). (f, T) \<leftarrow> ps, \<not> ty_trivial T \<and> ty_pool T \<and> \<not> ty_triv_dtor T]"

definition instance_region :: "addr \<times> (Field \<times> cpp_type) list \<Rightarrow> nat set" where
  "instance_region i = (\<Union>p \<in> set (snd i). field_extent (fst i) p)"

definition instances_apart :: "(addr \<times> (Field \<times> cpp_type) list) list \<Rightarrow> bool" where
  "instances_apart = sorted_wrt (\<lambda>i j. instance_region i \<inter> instance_region j = {})"

definition pairs_of :: "cleaner list \<Rightarrow> (addr \<times> addr) list" where
  "pairs_of = map (\<lambda>c. (c_destructor c, c_pointer c))"

lemma run_cleaners_pairs: "run_cleaners cs = filter (\<lambda>(d, p). d \<noteq> nullptr) (pairs_of cs)"
  by (induction cs) (auto simp: run_cleaners_def pairs_of_def)

lemma owed_runs: "(\<And>t. dtor t \<noteq> nullptr) \<Longrightarrow> filter (\<lambda>(d, p). d \<noteq> nullptr) (owed dtor ds ps) = owed dtor ds ps"
  by (induction ps) (auto simp: owed_def)

lemma filter_concat_same: "(\<And>x. filter Q (f x) = f x) \<Longrightarrow> filter Q (concat (map f xs)) = concat (map f xs)"
  by (induction xs) simp_all

lemma registered_by_append: "registered_by dtor ds (es @ es') = registered_by dtor ds es @ registered_by dtor ds es'"
  by (simp add: registered_by_def)

text \<open>Merging zero-filled ranges registers nothing.\<close>

lemma registered_by_fill: "registered_by dtor ds (add_fill off n es) = registered_by dtor ds es"
proof (cases "es = []")
  case False
  then obtain xs o0 k f where "es = xs @ [(o0, k, f)]" by (metis append_butlast_last_id prod.exhaust)
  then show ?thesis by (auto simp: add_fill_def registered_by_append) (simp_all add: registered_by_def)
qed (simp add: add_fill_def registered_by_def)

lemma registered_by_entries: "registered_by dtor ds (entries constructor_fn ps) = owed dtor ds ps"
proof (induction ps rule: rev_induct)
  case Nil
  then show ?case by (simp add: entries_def registered_by_def owed_def)
next
  case (snoc p ps)
  obtain f T where p: "p = (f, T)" by (cases p)
  have "owed dtor ds (ps @ [p]) = owed dtor ds ps @ owed dtor ds [p]" by (simp add: owed_def)
  with snoc show ?case
    by (simp add: p entries_snoc add_entry_def registered_by_append registered_by_fill)
      (simp add: registered_by_def owed_def constructor_fn_def)
qed

lemma post_conj: "post_cxx E Q c \<Longrightarrow> post_cxx E R c \<Longrightarrow> post_cxx E (\<lambda>x. Q x \<and> R x) c"
  by (cases c) auto

text \<open>One instance more, and several.\<close>

definition struct_made ::
  "builder \<Rightarrow> (nat \<Rightarrow> addr) \<Rightarrow> addr \<Rightarrow> (Field \<times> cpp_type) list \<Rightarrow> pool \<Rightarrow> mem \<Rightarrow> addr \<times> pool \<times> mem \<Rightarrow> bool" where
  "struct_made build dtor pool ps P m = (\<lambda>(ds, P', m'). pool_inv P' m' \<and> used_region P m \<subseteq> used_region P' m' \<and>
     instance_region (ds, ps) \<subseteq> used_region P' m' \<and> instance_region (ds, ps) \<inter> used_region P m = {} \<and>
     pairs_of (p_cleaners P') = pairs_of (p_cleaners P) @ owed dtor ds ps \<and> dtor_log m' = dtor_log m)"

definition structs_made ::
  "builder \<Rightarrow> (nat \<Rightarrow> addr) \<Rightarrow> addr \<Rightarrow> (Field \<times> cpp_type) list list \<Rightarrow> pool \<Rightarrow> mem \<Rightarrow> addr list \<times> pool \<times> mem \<Rightarrow> bool" where
  "structs_made build dtor pool pss P m = (\<lambda>(dss, P', m'). length dss = length pss \<and> pool_inv P' m' \<and>
     used_region P m \<subseteq> used_region P' m' \<and> instances_apart (zip dss pss) \<and>
     list_all (\<lambda>i. instance_region i \<subseteq> used_region P' m' \<and> instance_region i \<inter> used_region P m = {}) (zip dss pss) \<and>
     pairs_of (p_cleaners P') = pairs_of (p_cleaners P) @ concat (map (\<lambda>(ds, ps). owed dtor ds ps) (zip dss pss)) \<and>
     dtor_log m' = dtor_log m)"

lemma structs_made_Cons:
  assumes one: "struct_made build dtor pool ps P m (ds, P1, m1)" and more: "structs_made build dtor pool pss P1 m1 (dss, P2, m2)"
  shows "structs_made build dtor pool (ps # pss) P m (ds # dss, P2, m2)"
proof -
  let ?i = "(ds, ps)"
  have a: "instance_region ?i \<subseteq> used_region P1 m1" "instance_region ?i \<inter> used_region P m = {}"
    "used_region P m \<subseteq> used_region P1 m1" using one by (simp_all add: struct_made_def)
  have b: "instance_region j \<subseteq> used_region P2 m2" "instance_region j \<inter> used_region P1 m1 = {}"
    if "j \<in> set (zip dss pss)" for j using more that by (auto simp: structs_made_def list_all_iff)
  have c: "used_region P1 m1 \<subseteq> used_region P2 m2" using more by (simp add: structs_made_def)
  have "instances_apart (zip dss pss)" using more by (simp add: structs_made_def)
  moreover have "instance_region ?i \<inter> instance_region j = {}" if "j \<in> set (zip dss pss)" for j
    using a(1) b(2) [OF that] by blast
  ultimately have apart: "instances_apart (zip (ds # dss) (ps # pss))"
    unfolding instances_apart_def zip_Cons_Cons sorted_wrt.simps by blast
  have "instance_region j \<subseteq> used_region P2 m2 \<and> instance_region j \<inter> used_region P m = {}"
    if "j \<in> set (zip dss pss)" for j using a(3) b [OF that] by blast
  moreover have "instance_region ?i \<subseteq> used_region P2 m2" using a(1) c by blast
  ultimately have inside: "list_all (\<lambda>i. instance_region i \<subseteq> used_region P2 m2 \<and> instance_region i \<inter> used_region P m = {})
      (zip (ds # dss) (ps # pss))"
    using a(2) unfolding list_all_iff zip_Cons_Cons by (intro ballI) (elim set_ConsD [elim_format] disjE; simp)
  have "used_region P m \<subseteq> used_region P2 m2" using a(3) c by (rule subset_trans)
  with apart inside one more show ?thesis unfolding structs_made_def struct_made_def prod.case by (intro conjI) simp_all
qed

definition buildable :: "builder \<Rightarrow> addr \<Rightarrow> schema \<Rightarrow> (Field \<times> cpp_type) list \<Rightarrow> bool" where
  "buildable build pool S ps \<longleftrightarrow> layout S ps \<and> unat (allocate_size S) \<le> 2 ^ 59 \<and>
     (\<forall>ptr. writes_own build ptr pool (constructors S))"

context operator_new
begin

lemma create_with_pool_log:
  assumes inv: "pool_inv P m" and k: "allocate_align S = 2 ^ k" "k < 16" and sz: "unat (allocate_size S) \<le> 2 ^ 59"
  shows "post_cxx {Bad_alloc, Terminate} (\<lambda>(ds, P', m'). dtor_log m' = dtor_log m)
    (create_with_pool nw build dtor pool S P m)"
proof -
  have "(ucast (2 ^ k :: size_t) :: 16 word) = 2 ^ k"
    using k(2) by (intro word_unat_eq_iff [THEN iffD2]) (simp add: unat_pow2 unsigned_ucast_eq take_bit_nat_eq_self)
  then have "post_cxx {Bad_alloc, Terminate}
      (\<lambda>(p, P', m'). pool_inv P' m' \<and> unat (ucast (allocate_align S) :: 16 word) dvd unat p \<and>
         fresh_buffer P m p (unat (allocate_size S)) P' m')
      (create_aligned_buffer_dyn nw (allocate_size S) (ucast (allocate_align S)) P m)"
    using k by (intro create_aligned_buffer_dyn_post [OF inv _ _ sz]) simp_all
  then show ?thesis unfolding create_with_pool_def place_instance_def
    by (rule post_bind) (auto simp: Let_def run_in_pool_def fresh_buffer_def)
qed

lemma create_with_pool_made:
  assumes inv: "pool_inv P m" and lay: "layout S ps" and sz: "unat (allocate_size S) \<le> 2 ^ 59"
    and w: "\<And>ptr. writes_own build ptr pool (constructors S)"
  shows "post_cxx {Bad_alloc, Terminate} (struct_made build dtor pool ps P m) (create_with_pool nw build dtor pool S P m)"
proof -
  obtain k where k: "allocate_align S = 2 ^ k" "k < 16" using lay by (auto simp: layout_def)
  have es: "constructors S = entries constructor_fn ps" using lay by (simp add: layout_def)
  note made = serial.place_instance_post [OF inv lay sz w, folded create_with_pool_def, where dtor = dtor]
  from post_conj [OF made create_with_pool_log [OF inv k sz]] show ?thesis
    by (rule post_mono) (auto simp: struct_made_def instance_region_def list_all_iff pairs_of_def es registered_by_entries)
qed

lemma create_structs_made:
  "list_all2 (buildable build pool) Ss pss \<Longrightarrow> pool_inv P m \<Longrightarrow>
   post_cxx {Bad_alloc, Terminate} (structs_made build dtor pool pss P m) (create_structs nw build dtor pool Ss P m)"
proof (induction Ss pss arbitrary: P m rule: list_all2_induct)
  case Nil
  then show ?case by (simp add: structs_made_def instances_apart_def)
next
  case (Cons S Ss ps pss)
  have "post_cxx {Bad_alloc, Terminate} (struct_made build dtor pool ps P m) (create_with_pool nw build dtor pool S P m)"
    using Cons.hyps(1) by (intro create_with_pool_made [OF Cons.prems]) (auto simp: buildable_def)
  then show ?case unfolding create_structs.simps
  proof (rule post_bind, clarify)
    fix ds P1 m1
    assume one: "struct_made build dtor pool ps P m (ds, P1, m1)"
    then have "pool_inv P1 m1" by (simp add: struct_made_def)
    from Cons.IH [OF this]
    show "post_cxx {Bad_alloc, Terminate} (structs_made build dtor pool (ps # pss) P m)
        (bind_cxx (create_structs nw build dtor pool Ss P1 m1) (\<lambda>(dss, s). Inr (ds # dss, s)))"
      by (rule post_bind) (use structs_made_Cons [OF one] in auto)
  qed
qed

lemma structs_request_post:
  assumes ok: "list_all2 (buildable build pool) Ss pss" and inv: "pool_inv P m" and d: "\<And>t. dtor t \<noteq> nullptr"
  shows "post_cxx {Bad_alloc, Terminate} (\<lambda>(dss, P', m'). length dss = length pss \<and> instances_apart (zip dss pss) \<and>
      pool_inv P' m' \<and> used_region P' m' = {} \<and> p_cleaners P' = [] \<and>
      dtor_log m' = dtor_log m @ run_cleaners (p_cleaners P) @ concat (map (\<lambda>(ds, ps). owed dtor ds ps) (zip dss pss)))
    (structs_request nw build dtor pool Ss P m)" (is "post_cxx _ ?Q _")
  unfolding structs_request_def
proof (rule post_bind [OF create_structs_made [OF ok inv, where dtor = dtor]], clarify)
  fix dss P1 m1
  assume made: "structs_made build dtor pool pss P m (dss, P1, m1)"
  then have inv1: "pool_inv P1 m1" by (simp add: structs_made_def)
  have "run_cleaners (p_cleaners P1) =
      run_cleaners (p_cleaners P) @ concat (map (\<lambda>(ds, ps). owed dtor ds ps) (zip dss pss))"
    using made filter_concat_same [where f = "\<lambda>(ds, ps). owed dtor ds ps" and Q = "\<lambda>(d, p). d \<noteq> nullptr"] owed_runs [OF d]
    by (simp add: structs_made_def run_cleaners_pairs split_beta)
  with made show "post_cxx {Bad_alloc, Terminate} ?Q (bind_cxx (pool_clear nw P1 m1) (\<lambda>s. Inr (dss, s)))"
    by (intro post_bind [OF post_mono [OF pool_clear_post [OF inv1]]]) (auto simp: structs_made_def)
qed

end

lemma buildable_all:
  assumes "list_all schema_args_ok tss"
    and "\<And>ts ptr. ts \<in> set tss \<Longrightarrow> writes_own build ptr pool (constructors (register_all ts Schema))"
  obtains pss where "map (map (\<lambda>(f, T). (f_name f, T))) pss = tss"
    "list_all2 (buildable build pool) (map (\<lambda>ts. register_all ts Schema) tss) pss"
  using assms
proof (induction tss arbitrary: thesis)
  case (Cons ts tss)
  obtain ps where ps: "layout (register_all ts Schema) ps" "map (\<lambda>(f, T). (f_name f, T)) ps = ts"
    "unat (allocate_size (register_all ts Schema)) \<le> 2 ^ 59" by (rule schema_layout [of ts]) (use Cons.prems(2) in simp)
  then have "buildable build pool (register_all ts Schema) ps" using Cons.prems(3) by (simp add: buildable_def)
  moreover obtain pss where "map (map (\<lambda>(f, T). (f_name f, T))) pss = tss"
    "list_all2 (buildable build pool) (map (\<lambda>ts. register_all ts Schema) tss) pss"
    by (rule Cons.IH) (use Cons.prems in simp_all)
  ultimately show ?case using ps(2) by (intro Cons.prems(1) [of "ps # pss"]) simp_all
qed simp

subsection \<open>Property\<close>

text \<open>C5. Instances of any schemas created one after the other in a memory pool do not overlap, and
  when the pool is cleared at the end of the request it calls the destructor of every pool-managed field that has one exactly
  once, instance by instance and field by field in the order of registration, after those already due, and
  no others; the pool is then empty and can serve the next request.\<close>

theorem structs_in_pool_lifetime:
  assumes "operator_new nw" and "pool_inv P m" and "list_all schema_args_ok tss"
    and "\<And>ts ptr. ts \<in> set tss \<Longrightarrow> writes_own build ptr pool (constructors (register_all ts Schema))"
    and "\<And>t. dtor t \<noteq> nullptr"
  shows "\<exists>pss. map (map (\<lambda>(f, T). (f_name f, T))) pss = tss \<and>
    post_cxx {Bad_alloc, Terminate} (\<lambda>(dss, P', m'). length dss = length pss \<and> instances_apart (zip dss pss) \<and>
      pool_inv P' m' \<and> used_region P' m' = {} \<and> p_cleaners P' = [] \<and>
      dtor_log m' = dtor_log m @ run_cleaners (p_cleaners P) @ concat (map (\<lambda>(ds, ps). owed dtor ds ps) (zip dss pss)))
    (structs_request nw build dtor pool (map (\<lambda>ts. register_all ts Schema) tss) P m)"
proof -
  have w: "writes_own build ptr pool (constructors (register_all ts Schema))" if "ts \<in> set tss" for ts ptr
    by (rule assms(4) [OF that])
  obtain pss where ps: "map (map (\<lambda>(f, T). (f_name f, T))) pss = tss"
    and b: "list_all2 (buildable build pool) (map (\<lambda>ts. register_all ts Schema) tss) pss"
    using buildable_all [OF assms(3), of build pool thesis] w by blast
  show ?thesis
    by (rule exI [of _ pss], rule conjI [OF ps], rule operator_new.structs_request_post [OF assms(1) b assms(2,5)])
qed

theorem structs_in_pool_lifetime_witness:
  "\<exists>pss. map (map (\<lambda>(f, T). (f_name f, T))) pss = [sample_fields, [(''tag'', pool_string_T)]] \<and>
    post_cxx {Bad_alloc, Terminate} (\<lambda>(dss, P', m'). length dss = length pss \<and> instances_apart (zip dss pss) \<and>
      pool_inv P' m' \<and> used_region P' m' = {} \<and> p_cleaners P' = [] \<and>
      dtor_log m' = dtor_log empty_mem @ run_cleaners (p_cleaners (StaticMemoryPool 1024)) @
        concat (map (\<lambda>(ds, ps). owed (\<lambda>t. 4096) ds ps) (zip dss pss)))
    (structs_request bump_new idle_builder (\<lambda>t. 4096) 1
       (map (\<lambda>ts. register_all ts Schema) [sample_fields, [(''tag'', pool_string_T)]]) (StaticMemoryPool 1024) empty_mem)"
proof (rule structs_in_pool_lifetime [OF bump.operator_new_axioms StaticMemoryPool_inv(1) [OF heap_ok_empty]])
  have "schema_args_ok [(''tag'', pool_string_T)]"
    by (simp add: schema_args_ok_def layout_size_def) (simp add: pool_string_T_def string_T_def)
  then show "list_all schema_args_ok [sample_fields, [(''tag'', pool_string_T)]]" using sample_args_ok by simp
  show "unat (1024 :: size_t) \<le> 2 ^ 60" by simp
qed (rule idle_writes_own, simp)

end
