(* ===== verification/Struct_Arena.thy ===== *)
theory Struct_Arena
  imports Struct_Theorems
begin

text \<open>
  Instances of dynamic structs in a protobuf arena (\<open>DynamicStruct::create_with_pool\<close> and
  \<open>create_with_metadata\<close> over \<open>ArenaAllocator\<close>, \<open>brpc/dynamic_struct.hpp\<close>). The arena is an argument; it
  is documented to align its arrays to 8 bytes, whatever the schema asks for.
\<close>

text \<open>In an instance at \<open>ptr\<close> a field is aligned exactly if the memory is.\<close>

lemma field_aligned_iff:
  fixes ptr :: addr
  assumes lay: "layout S ps" and p: "(f, T) \<in> set ps" and ext: "unat ptr + unat (allocate_size S) < 2 ^ 64"
  shows "unat (ty_align T) dvd unat (ptr + 8) + unat (f_offset f) \<longleftrightarrow> unat (ty_align T) dvd unat ptr"
proof -
  have pk: "packed 8 ps (unat (unaligned_allocate_size S))" "unat (unaligned_allocate_size S) \<le> unat (allocate_size S)"
    using lay by (simp_all add: layout_def)
  have "8 \<le> unat (allocate_size S)" using packed_le [OF pk(1)] pk(2) by simp
  then have "unat (ptr + 8) = unat ptr + 8" using ext by (subst unat_add_ok) simp_all
  then have "unat (ptr + 8) + unat (f_offset f) = unat ptr + abs_off f" by (simp add: abs_off_def)
  moreover have "unat (ty_align T) dvd abs_off f" using lay p by (fastforce simp: layout_def list_all_iff)
  ultimately show ?thesis by (simp add: dvd_add_left_iff)
qed

lemma create_with_arena_at:
  "create_array (allocate_size S) P m = Inr (ptr, P1, m1) \<Longrightarrow>
   \<exists>P' m'. create_with_arena create_array build dtor pool S P m = Inr (ptr + 8, P', m')"
  by (simp add: create_with_arena_def place_instance_def Let_def run_in_pool_def)

lemma create_with_metadata_arena_at:
  "create_with_metadata_arena create_array build dtor pool M P m = Inr (ds, P', m') \<Longrightarrow> meta_schema M = Some S \<Longrightarrow>
   create_array (allocate_size S) P m = Inr (ptr, P1, m1) \<Longrightarrow> ds = ptr + 8"
  by (auto simp: create_with_metadata_arena_def place_with_metadata_def Let_def bind_cxx_eq_Inr run_in_pool_def)

text \<open>C36. In a protobuf arena an instance is created where the arena's array starts, with and without
  metadata, and each of its fields is aligned as its type demands exactly if the array happens to be: the alignment of
  the schema is never passed on. Since an arena aligns to 8 bytes, fields with a stricter alignment can be misaligned.\<close>

theorem arena_misaligns_fields:
  assumes "schema_args_ok ts" and "create_array (allocate_size (register_all ts Schema)) P m = Inr (ptr, P1, m1)"
    and "unat ptr + unat (allocate_size (register_all ts Schema)) < 2 ^ 64"
  shows "\<exists>ps :: (Field \<times> cpp_type) list. map (\<lambda>(f, T). (f_name f, T)) ps = ts \<and>
    (\<exists>P' m'. create_with_arena create_array build dtor pool (register_all ts Schema) P m = Inr (ptr + 8, P', m')) \<and>
    (\<forall>ms ds P' m'. create_with_metadata_arena create_array build dtor pool
        \<lparr>metadatas = ms, meta_schema = Some (register_all ts Schema)\<rparr> P m = Inr (ds, P', m') \<longrightarrow> ds = ptr + 8) \<and>
    list_all (\<lambda>(f, T). unat (ty_align T) dvd unat (ptr + 8) + unat (f_offset f) \<longleftrightarrow> unat (ty_align T) dvd unat ptr) ps"
proof -
  obtain ps where lay: "layout (register_all ts Schema) ps" and ps: "map (\<lambda>(f, T). (f_name f, T)) ps = ts"
    using assms(1) by (rule schema_layout)
  have al: "list_all (\<lambda>(f, T). unat (ty_align T) dvd unat (ptr + 8) + unat (f_offset f) \<longleftrightarrow> unat (ty_align T) dvd unat ptr) ps"
    using field_aligned_iff [OF lay _ assms(3)] by (auto simp: list_all_iff)
  show ?thesis
  proof (intro exI [of _ ps] conjI allI impI)
    fix ms ds P' m'
    assume "create_with_metadata_arena create_array build dtor pool
        \<lparr>metadatas = ms, meta_schema = Some (register_all ts Schema)\<rparr> P m = Inr (ds, P', m')"
    from create_with_metadata_arena_at [OF this _ assms(2)] show "ds = ptr + 8" by simp
  qed (rule ps al create_with_arena_at [where create_array = create_array, OF assms(2)])+
qed

text \<open>An arena whose next free byte is at 1032.\<close>

definition sample_arena :: "size_t \<Rightarrow> pool \<Rightarrow> mem \<Rightarrow> (addr \<times> pool \<times> mem) cxx" where
  "sample_arena n P m = Inr (1032, P, m)"

theorem arena_misaligns_fields_witness:
  "\<exists>ps :: (Field \<times> cpp_type) list. map (\<lambda>(f, T). (f_name f, T)) ps = sample_fields \<and>
    list_all (\<lambda>(f, T). unat (ty_align T) dvd unat (1032 + 8 :: addr) + unat (f_offset f) \<longleftrightarrow> unat (ty_align T) dvd 1032) ps"
proof -
  obtain ps where "layout (register_all sample_fields Schema) ps"
    and sz: "unat (allocate_size (register_all sample_fields Schema)) \<le> 2 ^ 59"
    using sample_args_ok by (rule schema_layout)
  have "unat (1032 :: addr) + unat (allocate_size (register_all sample_fields Schema)) < 2 ^ 64" using sz by simp
  from arena_misaligns_fields [where create_array = sample_arena and P = "StaticMemoryPool 1024" and m = one_block_mem
      and ptr = 1032 and ?P1.0 = "StaticMemoryPool 1024" and ?m1.0 = one_block_mem
      and build = idle_builder and dtor = of_nat and pool = 1, OF sample_args_ok _ this]
  show ?thesis by (auto simp: sample_arena_def)
qed

end
