(* ===== verification/Struct_Fields.thy ===== *)
theory Struct_Fields
  imports Struct_Arena
begin

text \<open>
  Access to the fields of an instance of a dynamic struct through accessors found by name
  (\<open>BaseSchema::get_field\<close>, \<open>DynamicStruct::get\<close>, \<open>brpc/dynamic_struct.h\<close>, \<open>.hpp\<close>): a program that writes and reads
  fields by name sees a map from names to values.
\<close>

subsection \<open>A client of the accessors\<close>

definition store_bytes :: "addr \<Rightarrow> byte list \<Rightarrow> (addr \<Rightarrow> byte) \<Rightarrow> addr \<Rightarrow> byte" where
  "store_bytes p bs b = (\<lambda>x. if unat (x - p) < length bs then bs ! unat (x - p) else b x)"

definition load_bytes :: "addr \<Rightarrow> nat \<Rightarrow> (addr \<Rightarrow> byte) \<Rightarrow> byte list" where
  "load_bytes p n b = map (\<lambda>i. b (p + word_of_nat i)) [0..<n]"

text \<open>\<open>*ds->get<T>(schema.get_field(name)) = value\<close>, with the bytes of the value.\<close>

definition write_field :: "schema \<Rightarrow> addr \<Rightarrow> string \<times> byte list \<Rightarrow> (addr \<Rightarrow> byte) \<Rightarrow> (addr \<Rightarrow> byte) cxx" where
  "write_field S ds = (\<lambda>(name, val) b.
     bind_cxx (get_field name S) (\<lambda>acc. Inr (store_bytes (ds_get ds acc) val b)))"

definition read_field :: "schema \<Rightarrow> addr \<Rightarrow> string \<Rightarrow> nat \<Rightarrow> (addr \<Rightarrow> byte) \<Rightarrow> byte list cxx" where
  "read_field S ds name n b = bind_cxx (get_field name S) (\<lambda>acc. Inr (load_bytes (ds_get ds acc) n b))"

fun write_fields :: "schema \<Rightarrow> addr \<Rightarrow> (string \<times> byte list) list \<Rightarrow> (addr \<Rightarrow> byte) \<Rightarrow> (addr \<Rightarrow> byte) cxx" where
  "write_fields S ds [] b = Inr b"
| "write_fields S ds (w # ws) b = bind_cxx (write_field S ds w b) (write_fields S ds ws)"

text \<open>The values of the fields \<open>ts\<close> by name.\<close>

definition struct_view :: "(string \<times> cpp_type) list \<Rightarrow> addr \<Rightarrow> (addr \<Rightarrow> byte) \<Rightarrow> string \<rightharpoonup> byte list" where
  "struct_view ts ds b name =
     (case map_of ts name of
        None \<Rightarrow> None
      | Some T \<Rightarrow> (case read_field (register_all ts Schema) ds name (unat (ty_size T)) b of
            Inl e \<Rightarrow> None | Inr bs \<Rightarrow> Some bs))"

definition value_ok :: "(string \<times> cpp_type) list \<Rightarrow> string \<times> byte list \<Rightarrow> bool" where
  "value_ok ts = (\<lambda>(name, val). case map_of ts name of None \<Rightarrow> False | Some T \<Rightarrow> length val = unat (ty_size T))"

text \<open>The addresses of the bytes of a field.\<close>

definition field_bytes :: "(string \<times> cpp_type) list \<Rightarrow> addr \<Rightarrow> string \<Rightarrow> nat set" where
  "field_bytes ts ds name =
     (case (map_of ts name, get_field name (register_all ts Schema)) of
        (Some T, Inr acc) \<Rightarrow> {unat (ds_get ds acc)..<unat (ds_get ds acc) + unat (ty_size T)}
      | _ \<Rightarrow> {})"

subsection \<open>Bytes\<close>

lemma store_bytes_at: "unat p + length bs \<le> 2 ^ 64 \<Longrightarrow> i < length bs \<Longrightarrow> store_bytes p bs b (p + word_of_nat i) = bs ! i"
  by (simp add: store_bytes_def unat_word_of_nat_64)

lemma store_bytes_away:
  assumes "unat p + length bs \<le> 2 ^ 64" "unat x < unat p \<or> unat p + length bs \<le> unat x"
  shows "store_bytes p bs b x = b x"
proof -
  have "unat (x - p) = (if unat p \<le> unat x then unat x - unat p else unat x + 2 ^ 64 - unat p)"
    using unat_sub_if' [of x p] by simp
  then have "length bs \<le> unat (x - p)" using assms by (auto split: if_splits)
  then show ?thesis by (simp add: store_bytes_def)
qed

lemma load_store_same: "unat p + length bs \<le> 2 ^ 64 \<Longrightarrow> load_bytes p (length bs) (store_bytes p bs b) = bs"
  by (intro nth_equalityI) (simp_all add: load_bytes_def store_bytes_at)

lemma load_store_apart:
  assumes "unat p + length bs \<le> 2 ^ 64" "unat q + n < 2 ^ 64"
    "unat p + length bs \<le> unat q \<or> unat q + n \<le> unat p"
  shows "load_bytes q n (store_bytes p bs b) = load_bytes q n b"
proof -
  have "unat (q + word_of_nat i) = unat q + i" if "i < n" for i
    using assms(2) that by (subst unat_add_ok) (simp_all add: unat_word_of_nat_64)
  then show ?thesis using assms(1,3) by (auto simp: load_bytes_def intro!: store_bytes_away)
qed

subsection \<open>Where the fields are\<close>

lemma field_address:
  fixes ptr :: addr
  assumes lay: "layout S ps" and p: "(f, T) \<in> set ps" and ext: "unat ptr + unat (allocate_size S) < 2 ^ 64"
  shows "unat (ds_get (ptr + 8) (FieldAccessor_of f)) = unat ptr + abs_off f"
    and "8 \<le> abs_off f" "abs_off f + unat (ty_size T) \<le> unat (allocate_size S)"
proof -
  have pk: "packed 8 ps (unat (unaligned_allocate_size S))" "unat (unaligned_allocate_size S) \<le> unat (allocate_size S)"
    using lay by (simp_all add: layout_def)
  then show b: "8 \<le> abs_off f" "abs_off f + unat (ty_size T) \<le> unat (allocate_size S)"
    using packed_sorted [OF pk(1)] p by fastforce+
  have 8: "unat (ptr + 8) = unat ptr + 8" using ext b by (subst unat_add_ok) simp_all
  then have "unat (ptr + 8 + f_offset f) = unat ptr + abs_off f"
    using ext b by (subst unat_add_ok) (simp_all add: abs_off_def)
  then show "unat (ds_get (ptr + 8) (FieldAccessor_of f)) = unat ptr + abs_off f"
    by (simp add: ds_get_def FieldAccessor_of_def)
qed

lemma sorted_wrt_either: "sorted_wrt R xs \<Longrightarrow> x \<in> set xs \<Longrightarrow> y \<in> set xs \<Longrightarrow> x \<noteq> y \<Longrightarrow> R x y \<or> R y x"
  by (induction xs) auto

lemma fields_apart:
  assumes "layout S ps" "(f, T) \<in> set ps" "(g, U) \<in> set ps" "f_name f \<noteq> f_name g"
  shows "abs_off f + unat (ty_size T) \<le> abs_off g \<or> abs_off g + unat (ty_size U) \<le> abs_off f"
proof -
  have "packed 8 ps (unat (unaligned_allocate_size S))" using assms(1) by (simp add: layout_def)
  from sorted_wrt_either [OF conjunct1 [OF packed_sorted [OF this]] assms(2,3)] show ?thesis using assms(4) by auto
qed

subsection \<open>Writing a field\<close>

lemma named_field:
  assumes "map (\<lambda>(f, T). (f_name f, T)) ps = ts" "map_of ts name = Some T"
  obtains f where "(f, T) \<in> set ps" "f_name f = name"
proof -
  have "(name, T) \<in> set (map (\<lambda>(f, T). (f_name f, T)) ps)" unfolding assms(1) using assms(2) by (rule map_of_SomeD)
  then show ?thesis using that by auto
qed

lemma write_field_view:
  assumes ok: "schema_args_ok ts" and ext: "unat ptr + unat (allocate_size (register_all ts Schema)) < 2 ^ 64"
    and val: "value_ok ts (name, val)"
  shows "\<exists>b'. write_field (register_all ts Schema) (ptr + 8) (name, val) b = Inr b' \<and>
    struct_view ts (ptr + 8) b' = (struct_view ts (ptr + 8) b)(name \<mapsto> val) \<and>
    (\<forall>x. unat x \<notin> field_bytes ts (ptr + 8) name \<longrightarrow> b' x = b x) \<and>
    field_bytes ts (ptr + 8) name \<subseteq> {unat ptr + 8..<unat ptr + unat (allocate_size (register_all ts Schema))}"
proof -
  let ?S = "register_all ts Schema"
  obtain ps :: "(Field \<times> cpp_type) list" where lay: "layout ?S ps" and ps: "map (\<lambda>(f, T). (f_name f, T)) ps = ts"
    using ok by (rule schema_layout)
  obtain T where T: "map_of ts name = Some T" and len: "length val = unat (ty_size T)"
    using val by (auto simp: value_ok_def split: option.splits)
  obtain f where f: "(f, T) \<in> set ps" "f_name f = name" using ps T by (rule named_field)
  note af = field_address [OF lay f(1) ext]
  let ?p = "ds_get (ptr + 8) (FieldAccessor_of f)"
  have fit: "unat ?p + length val \<le> 2 ^ 64" using af ext len by simp
  let ?b = "store_bytes ?p val b"
  have "write_field ?S (ptr + 8) (name, val) b = Inr ?b"
    using layout_get_field [OF lay f(1)] f(2) by (simp add: write_field_def)
  moreover have "struct_view ts (ptr + 8) ?b n = ((struct_view ts (ptr + 8) b)(name \<mapsto> val)) n" for n
  proof (cases "map_of ts n")
    case None
    then show ?thesis using T by (auto simp: struct_view_def)
  next
    case (Some U)
    obtain g where g: "(g, U) \<in> set ps" "f_name g = n" using ps Some by (rule named_field)
    note ag = field_address [OF lay g(1) ext]
    have r: "read_field ?S (ptr + 8) n (unat (ty_size U)) c = Inr (load_bytes (ds_get (ptr + 8) (FieldAccessor_of g)) (unat (ty_size U)) c)" for c
      using layout_get_field [OF lay g(1)] g(2) by (simp add: read_field_def)
    show ?thesis
    proof (cases "n = name")
      case True
      then have "U = T" using Some T by simp
      have "get_field name ?S = Inr (FieldAccessor_of f)" using layout_get_field [OF lay f(1)] f(2) by simp
      then show ?thesis using True Some \<open>U = T\<close> load_store_same [OF fit, of b] len
        by (simp add: struct_view_def read_field_def)
    next
      case False
      then have "load_bytes (ds_get (ptr + 8) (FieldAccessor_of g)) (unat (ty_size U)) ?b =
          load_bytes (ds_get (ptr + 8) (FieldAccessor_of g)) (unat (ty_size U)) b"
        using fields_apart [OF lay f(1) g(1)] f(2) g(2) af ag ext len by (intro load_store_apart [OF fit]) auto
      then show ?thesis using False Some by (simp add: struct_view_def r)
    qed
  qed
  moreover have fb: "field_bytes ts (ptr + 8) name = {unat ?p..<unat ?p + length val}"
    using layout_get_field [OF lay f(1)] f(2) T len by (simp add: field_bytes_def)
  moreover have "?b x = b x" if "unat x \<notin> field_bytes ts (ptr + 8) name" for x
    using that by (intro store_bytes_away [OF fit]) (auto simp: fb)
  moreover have "field_bytes ts (ptr + 8) name \<subseteq> {unat ptr + 8..<unat ptr + unat (allocate_size ?S)}"
    using af len by (auto simp: fb)
  ultimately show ?thesis by (intro exI [of _ ?b]) auto
qed

text \<open>C6. A program that writes fields of an instance by name sees a map from names to values: after any
  sequence of writes each field has the value written last or the one it had, whatever the other writes did. Only the bytes of
  the fields written may change: the other fields, the padding between and after the fields and everything outside the
  instance stay, in particular the hidden schema pointer before the fields, as every field lies after it and inside the instance.\<close>

theorem struct_fields_are_a_map:
  assumes "schema_args_ok ts" and "unat ptr + unat (allocate_size (register_all ts Schema)) < 2 ^ 64"
    and "list_all (value_ok ts) ws"
  shows "\<exists>b'. write_fields (register_all ts Schema) (ptr + 8) ws b = Inr b' \<and>
    struct_view ts (ptr + 8) b' = struct_view ts (ptr + 8) b ++ map_of (rev ws) \<and>
    (\<forall>x. unat x \<notin> (\<Union>w \<in> set ws. field_bytes ts (ptr + 8) (fst w)) \<longrightarrow> b' x = b x) \<and>
    (\<Union>w \<in> set ws. field_bytes ts (ptr + 8) (fst w)) \<subseteq>
      {unat ptr + 8..<unat ptr + unat (allocate_size (register_all ts Schema))}"
  using assms(3)
proof (induction ws arbitrary: b)
  case (Cons w ws)
  obtain name val where w: "w = (name, val)" by (rule prod.exhaust)
  obtain b1 where b1: "write_field (register_all ts Schema) (ptr + 8) w b = Inr b1"
    "struct_view ts (ptr + 8) b1 = (struct_view ts (ptr + 8) b)(name \<mapsto> val)"
    "\<forall>x. unat x \<notin> field_bytes ts (ptr + 8) name \<longrightarrow> b1 x = b x"
    "field_bytes ts (ptr + 8) name \<subseteq> {unat ptr + 8..<unat ptr + unat (allocate_size (register_all ts Schema))}"
    using write_field_view [OF assms(1,2), of name val b] Cons.prems unfolding w by auto
  have "list_all (value_ok ts) ws" using Cons.prems by simp
  then obtain b2 where b2: "write_fields (register_all ts Schema) (ptr + 8) ws b1 = Inr b2"
    "struct_view ts (ptr + 8) b2 = struct_view ts (ptr + 8) b1 ++ map_of (rev ws)"
    "\<forall>x. unat x \<notin> (\<Union>w \<in> set ws. field_bytes ts (ptr + 8) (fst w)) \<longrightarrow> b2 x = b1 x"
    "(\<Union>w \<in> set ws. field_bytes ts (ptr + 8) (fst w)) \<subseteq>
      {unat ptr + 8..<unat ptr + unat (allocate_size (register_all ts Schema))}"
    using Cons.IH by blast
  have "struct_view ts (ptr + 8) b2 = struct_view ts (ptr + 8) b ++ map_of (rev (w # ws))"
    unfolding b2(2) b1(2) by (simp add: w map_add_def fun_eq_iff split: option.splits)
  moreover have "\<forall>x. unat x \<notin> (\<Union>w \<in> set (w # ws). field_bytes ts (ptr + 8) (fst w)) \<longrightarrow> b2 x = b x"
    using b1(3) b2(3) by (simp add: w)
  moreover have "(\<Union>w \<in> set (w # ws). field_bytes ts (ptr + 8) (fst w)) \<subseteq>
      {unat ptr + 8..<unat ptr + unat (allocate_size (register_all ts Schema))}" using b1(4) b2(4) by (simp add: w)
  ultimately show ?case using b1(1) b2(1) by (intro exI [of _ b2]) simp
qed simp

theorem struct_fields_are_a_map_witness:
  "\<exists>b'. write_fields (register_all sample_fields Schema) (1024 + 8) [(''age'', [1, 2, 3, 4])] (\<lambda>_. 0) = Inr b' \<and>
    struct_view sample_fields (1024 + 8) b' =
      struct_view sample_fields (1024 + 8) (\<lambda>_. 0) ++ map_of (rev [(''age'', [1, 2, 3, 4])])"
proof -
  obtain ps :: "(Field \<times> cpp_type) list" where "unat (allocate_size (register_all sample_fields Schema)) \<le> 2 ^ 59"
    using sample_args_ok by (rule schema_layout)
  then have "unat (1024 :: addr) + unat (allocate_size (register_all sample_fields Schema)) < 2 ^ 64" by simp
  moreover have "list_all (value_ok sample_fields) [(''age'', [1, 2, 3, 4])]"
    by (simp add: value_ok_def sample_fields_def int_T_def)
  ultimately show ?thesis using struct_fields_are_a_map [OF sample_args_ok] by blast
qed

end
