(* ===== verification/Struct_Reuse.thy ===== *)
theory Struct_Reuse
  imports Struct_Lifetime Struct_Fields
begin

text \<open>
  A pool of reusable instances over two requests (\<open>ReuseDynamicStructPool\<close>, \<open>brpc/dynamic_struct.hpp\<close>): the
  metadata taken from the pool of one request rebuilds it, with as many instances, for the next.
\<close>

subsection \<open>Enough metadata\<close>

text \<open>Every entry of the constructor list has its slot, and the slot is set where the entry uses it.\<close>

definition slots_fit :: "addr list \<Rightarrow> entry list \<Rightarrow> bool" where
  "slots_fit ms es \<longleftrightarrow> length es \<le> length ms \<and> (\<forall>i < length es. needs_metadata (es ! i) \<longrightarrow> ms ! i \<noteq> nullptr)"

lemma with_metadata_loop_runs:
  assumes "k + length es \<le> length ms" "\<And>i. i < length es \<Longrightarrow> needs_metadata (es ! i) \<Longrightarrow> ms ! (k + i) \<noteq> nullptr"
  shows "\<exists>s'. with_metadata_loop build dtor ptr pool ms k es s = Inr s'"
  using assms
proof (induction es arbitrary: k s)
  case (Cons e es)
  have "\<exists>s'. with_metadata_loop build dtor ptr pool ms (Suc k) es (call_entry build dtor ptr pool (ms ! k) e s) = Inr s'"
    using Cons.prems(1) Cons.prems(2) [of "Suc _"] by (intro Cons.IH) simp_all
  then show ?case using Cons.prems(1) Cons.prems(2) [of 0] by auto
qed simp

lemma slots_fit_construct:
  "slots_fit ms (with_meta_constructor S) \<Longrightarrow> \<exists>s'. construct_with_metadata_all build dtor ptr pool ms S s = Inr s'"
  using with_metadata_loop_runs [of 0 "with_meta_constructor S" ms]
  by (simp add: construct_with_metadata_all_def slots_fit_def)

text \<open>Without trivial fields the entries are those of the fields, one each.\<close>

lemma entries_nontrivial:
  "list_all (\<lambda>(f, T). \<not> ty_trivial T) ps \<Longrightarrow> entries kind ps = map (\<lambda>(f, T). (f_offset f, ty_size T, kind T)) ps"
proof (induction ps rule: rev_induct)
  case (snoc p ps)
  then show ?case by (simp add: entries_snoc add_entry_def split_beta)
qed (simp add: entries_def)

lemma fresh_slots_fit:
  assumes lay: "layout S ps" and nt: "list_all (\<lambda>(f, T). \<not> ty_trivial T) ps" and mk: "\<And>t i. mk t i \<noteq> nullptr"
  shows "slots_fit (create_metadatas mk S) (with_meta_constructor S)"
proof -
  have es: "with_meta_constructor S = map (\<lambda>(f, T). (f_offset f, ty_size T, with_metadata_fn T)) ps"
    and cr: "metadata_creator S = map (\<lambda>(f, T). if ty_use_metadata T then Some (ty_id T) else None) ps"
    using lay entries_nontrivial [OF nt] by (simp_all add: layout_def)
  show ?thesis unfolding slots_fit_def es
    by (auto simp: create_metadatas_def cr nth_enumerate_eq split_beta needs_metadata_def with_metadata_fn_def mk
        split: if_splits)
qed

subsection \<open>Placing an instance\<close>

definition instance_placed :: "(Field \<times> cpp_type) list \<Rightarrow> pool \<Rightarrow> mem \<Rightarrow> addr \<times> pool \<times> mem \<Rightarrow> bool" where
  "instance_placed ps P m = (\<lambda>(ds, P', m'). pool_inv P' m' \<and> used_region P m \<subseteq> used_region P' m' \<and>
     instance_region (ds, ps) \<subseteq> used_region P' m' \<and> instance_region (ds, ps) \<inter> used_region P m = {} \<and>
     list_all (\<lambda>(f, T). unat (ty_align T) dvd unat ds + unat (f_offset f)) ps)"

lemma field_extent_inside:
  fixes ptr :: addr
  assumes "layout S ps" "p \<in> set ps" "unat ptr + unat (allocate_size S) < 2 ^ 64"
  shows "field_extent (ptr + 8) p \<subseteq> extent ptr (unat (allocate_size S))"
proof -
  obtain f T where p: "p = (f, T)" by (rule prod.exhaust)
  note a = field_address [OF assms(1) assms(2) [unfolded p] assms(3)]
  have "unat (ptr + 8) = unat ptr + 8" using a(2,3) assms(3) by (subst unat_add_ok) simp_all
  then show ?thesis using a(2,3) by (auto simp: p field_extent_def extent_def abs_off_def)
qed

context aligned_allocator
begin

lemma place_with_metadata_post:
  assumes inv: "pool_inv P m" and lay: "layout S ps" and sz: "unat (allocate_size S) \<le> 2 ^ 59"
    and fit: "slots_fit (metadatas M) (with_meta_constructor S)" and M: "meta_schema M = Some S"
  shows "post_cxx {Bad_alloc, Terminate} (instance_placed ps P m) (place_with_metadata alloc build dtor pool M P m)"
proof -
  obtain k where k: "allocate_align S = 2 ^ k" "3 \<le> k" "k < 16" using lay by (auto simp: layout_def)
  have uk: "unat (allocate_align S) = 2 ^ k" using k by (simp add: unat_pow2)
  then have ua: "unat (ucast (allocate_align S) :: 16 word) = 2 ^ k" using k(3)
    by (simp only: unsigned_ucast_eq) (simp add: take_bit_nat_eq_self)
  then have a: "(ucast (allocate_align S) :: 16 word) = 2 ^ k" using k by (intro word_unat_eq_iff [THEN iffD2]) (simp add: unat_pow2)
  show ?thesis unfolding place_with_metadata_def M option.case Let_def
  proof (rule post_bind [OF alloc_post [OF inv a k(3) sz]], clarify)
    fix ptr P1 m1
    assume inv1: "pool_inv P1 m1" and dv: "unat (ucast (allocate_align S) :: 16 word) dvd unat ptr"
      and fr: "fresh_buffer P m ptr (unat (allocate_size S)) P1 m1"
    obtain s where s: "construct_with_metadata_all build dtor (ptr + 8) pool (metadatas M) S ((exec_start m1)\<lparr>x_bytes := store_pointer ptr (schema_self S) (bytes m1)\<rparr>) = Inr s"
      using slots_fit_construct [OF fit] by blast
    define P' m' where "P' = fst (run_in_pool (ptr + 8) P1 m1 s)" and "m' = snd (run_in_pool (ptr + 8) P1 m1 s)"
    have same: "pool_inv P' m'" "used_region P' m' = used_region P1 m1"
      using inv1 pool_inv_cong [of m' m1 P' P1] used_region_cong [of m' m1 P' P1]
      by (simp_all add: P'_def m'_def run_in_pool_def)
    have ext: "unat ptr + unat (allocate_size S) < 2 ^ 64" using fr by (simp add: fresh_buffer_def)
    have "instance_region (ptr + 8, ps) \<subseteq> extent ptr (unat (allocate_size S))"
      using field_extent_inside [OF lay _ ext] by (auto simp: instance_region_def)
    then have reg: "instance_region (ptr + 8, ps) \<subseteq> used_region P1 m1" "instance_region (ptr + 8, ps) \<inter> used_region P m = {}"
      using fr unfolding fresh_buffer_def by blast+
    have "unat (ty_align T) dvd unat (ptr + 8) + unat (f_offset f)" if "(f, T) \<in> set ps" for f T
    proof -
      have "unat (ty_align T) dvd unat (allocate_align S)" using lay that by (fastforce simp: layout_def list_all_iff)
      then have "unat (ty_align T) dvd unat ptr" using dv ua uk by (metis dvd_trans)
      then show ?thesis using field_aligned_iff [OF lay that ext] by simp
    qed
    then have al: "list_all (\<lambda>(f, T). unat (ty_align T) dvd unat (ptr + 8) + unat (f_offset f)) ps" by (auto simp: list_all_iff)
    have "instance_placed ps P m (ptr + 8, P', m')"
      using same reg al fr unfolding instance_placed_def prod.case fresh_buffer_def by (intro conjI) simp_all
    then show "post_cxx {Bad_alloc, Terminate} (instance_placed ps P m)
        (bind_cxx (construct_with_metadata_all build dtor (ptr + 8) pool (metadatas M) S ((exec_start m1)\<lparr>x_bytes := store_pointer ptr (schema_self S) (bytes m1)\<rparr>))
          (\<lambda>s. Inr (ptr + 8, run_in_pool (ptr + 8) P1 m1 s)))"
      by (simp add: s P'_def m'_def)
  qed
qed

end

subsection \<open>Several instances\<close>

definition instances_placed :: "(Field \<times> cpp_type) list \<Rightarrow> pool \<Rightarrow> mem \<Rightarrow> addr list \<times> pool \<times> mem \<Rightarrow> bool" where
  "instances_placed ps P m = (\<lambda>(dss, P', m'). pool_inv P' m' \<and> used_region P m \<subseteq> used_region P' m' \<and>
     instances_apart (map (\<lambda>ds. (ds, ps)) dss) \<and>
     list_all (\<lambda>ds. instance_region (ds, ps) \<subseteq> used_region P' m' \<and> instance_region (ds, ps) \<inter> used_region P m = {} \<and>
       list_all (\<lambda>(f, T). unat (ty_align T) dvd unat ds + unat (f_offset f)) ps) dss)"

lemma instances_placed_Cons:
  assumes one: "instance_placed ps P m (ds, P1, m1)" and more: "instances_placed ps P1 m1 (dss, P2, m2)"
  shows "instances_placed ps P m (ds # dss, P2, m2)"
proof -
  have a: "instance_region (ds, ps) \<subseteq> used_region P1 m1" "instance_region (ds, ps) \<inter> used_region P m = {}"
    "used_region P m \<subseteq> used_region P1 m1" "list_all (\<lambda>(f, T). unat (ty_align T) dvd unat ds + unat (f_offset f)) ps"
    using one by (simp_all add: instance_placed_def)
  have b: "instance_region (d, ps) \<subseteq> used_region P2 m2" "instance_region (d, ps) \<inter> used_region P1 m1 = {}"
    "list_all (\<lambda>(f, T). unat (ty_align T) dvd unat d + unat (f_offset f)) ps"
    if "d \<in> set dss" for d using more that by (auto simp: instances_placed_def list_all_iff)
  have c: "used_region P1 m1 \<subseteq> used_region P2 m2" "pool_inv P2 m2" "instances_apart (map (\<lambda>ds. (ds, ps)) dss)"
    using more by (simp_all add: instances_placed_def)
  have "instance_region (ds, ps) \<inter> instance_region (d, ps) = {}" if "d \<in> set dss" for d using a(1) b(2) [OF that] by blast
  then have "instances_apart (map (\<lambda>ds. (ds, ps)) (ds # dss))" using c(3) by (auto simp: instances_apart_def)
  moreover have "instance_region (d, ps) \<subseteq> used_region P2 m2 \<and> instance_region (d, ps) \<inter> used_region P m = {} \<and>
      list_all (\<lambda>(f, T). unat (ty_align T) dvd unat d + unat (f_offset f)) ps" if "d \<in> set (ds # dss)" for d
  proof (cases "d = ds")
    case True
    then show ?thesis using a c(1) by blast
  next
    case False
    then have "d \<in> set dss" using that by simp
    from b [OF this] a(3) show ?thesis by blast
  qed
  moreover have "used_region P m \<subseteq> used_region P2 m2" using a(3) c(1) by (rule subset_trans)
  ultimately show ?thesis using c(2) unfolding instances_placed_def prod.case list_all_iff by blast
qed

context operator_new
begin

lemma create_instances_post:
  assumes "layout S ps" "unat (allocate_size S) \<le> 2 ^ 59" "slots_fit (metadatas M) (with_meta_constructor S)" "meta_schema M = Some S"
  shows "pool_inv P m \<Longrightarrow> post_cxx {Bad_alloc, Terminate} (\<lambda>(dss, s). length dss = n \<and> instances_placed ps P m (dss, s))
    (create_instances nw build dtor pool M n P m)"
proof (induction n arbitrary: P m)
  case 0
  then show ?case by (simp add: instances_placed_def instances_apart_def)
next
  case (Suc n)
  have one: "post_cxx {Bad_alloc, Terminate} (instance_placed ps P m) (create_with_metadata nw build dtor pool M P m)"
    unfolding create_with_metadata_def by (rule serial.place_with_metadata_post [OF Suc.prems assms])
  show ?case unfolding create_instances.simps
  proof (rule post_bind [OF one], clarify)
    fix ds P1 m1
    assume p: "instance_placed ps P m (ds, P1, m1)"
    then have "pool_inv P1 m1" by (simp add: instance_placed_def)
    note more = Suc.IH [OF this]
    show "post_cxx {Bad_alloc, Terminate} (\<lambda>(dss, s). length dss = Suc n \<and> instances_placed ps P m (dss, s))
        (bind_cxx (create_instances nw build dtor pool M n P1 m1) (\<lambda>(dss, P2, m2). Inr (ds # dss, P2, m2)))"
      by (rule post_bind [OF more]) (auto intro: instances_placed_Cons [OF p])
  qed
qed

end

subsection \<open>From one request to the next\<close>

text \<open>What a manager of reusable objects does at the end of a request: take the metadata, then build the pool anew in
  a memory pool.\<close>

definition recycle_pool ::
  "new_fun \<Rightarrow> builder \<Rightarrow> (nat \<Rightarrow> addr) \<Rightarrow> addr \<Rightarrow> (nat \<Rightarrow> nat \<Rightarrow> addr) \<Rightarrow> (nat \<Rightarrow> addr \<Rightarrow> addr \<Rightarrow> size_t) \<Rightarrow> reuse_pool \<Rightarrow>
   pool \<Rightarrow> mem \<Rightarrow> (reuse_pool \<times> pool \<times> mem) cxx" where
  "recycle_pool nw build dtor pool mk upd R P m =
     bind_cxx (update_allocation_metadata mk upd R \<lparr>metadatas = [], meta_schema = None\<rparr>) (\<lambda>(sz, M, n).
       ReuseDynamicStructPool nw build dtor pool M n P m)"

text \<open>C7. For a schema without trivial fields a pool of reusable instances is rebuilt from its own metadata
  with the same number of instances, and fails only when memory runs out: the new instances have every field aligned,
  lie in memory of the pool that was not in use before, do not overlap, and none is handed out yet.\<close>

theorem reuse_pool_recycled:
  assumes "operator_new nw" and "pool_inv P m" and "schema_args_ok ts" and "list_all (\<lambda>(n, T). \<not> ty_trivial T) ts"
    and "\<And>t i. mk t i \<noteq> nullptr" and "r_schema R = register_all ts Schema"
  shows "\<exists>ps. map (\<lambda>(f, T). (f_name f, T)) ps = ts \<and>
    post_cxx {Bad_alloc, Terminate} (\<lambda>(R', P', m'). r_schema R' = r_schema R \<and> r_use_num R' = 0 \<and>
      length (r_ds_vec R') = length (r_ds_vec R) \<and> instances_placed ps P m (r_ds_vec R', P', m'))
    (recycle_pool nw build dtor pool mk upd R P m)"
proof -
  let ?S = "register_all ts Schema"
  obtain ps where lay: "layout ?S ps" and ps: "map (\<lambda>(f, T). (f_name f, T)) ps = ts"
    and sz: "unat (allocate_size ?S) \<le> 2 ^ 59" using assms(3) by (rule schema_layout)
  have nt: "list_all (\<lambda>(f, T). \<not> ty_trivial T) ps" using assms(4) by (auto simp: ps [symmetric] list_all_iff)
  let ?M = "\<lparr>metadatas = create_metadatas mk ?S, meta_schema = Some ?S\<rparr>"
  have "slots_fit (metadatas ?M) (with_meta_constructor ?S)" using fresh_slots_fit [OF lay nt assms(5)] by simp
  from operator_new.create_instances_post [OF assms(1) lay sz this _ assms(2)]
  have made: "post_cxx {Bad_alloc, Terminate}
      (\<lambda>(dss, s). length dss = length (r_ds_vec R) \<and> instances_placed ps P m (dss, s))
      (create_instances nw build dtor pool ?M (length (r_ds_vec R)) P m)" by simp
  obtain sz where "update_allocation_metadata mk upd R \<lparr>metadatas = [], meta_schema = None\<rparr> = Inr (sz, ?M, length (r_ds_vec R))"
    using fresh_metadata [OF assms(3,6)] by blast
  then have "recycle_pool nw build dtor pool mk upd R P m =
      bind_cxx (create_instances nw build dtor pool ?M (length (r_ds_vec R)) P m)
        (\<lambda>(dss, P', m'). Inr (\<lparr>r_schema = ?S, r_ds_vec = dss, r_use_num = 0\<rparr>, P', m'))"
    by (simp add: recycle_pool_def ReuseDynamicStructPool_def)
  moreover have "post_cxx {Bad_alloc, Terminate} (\<lambda>(R', P', m'). r_schema R' = r_schema R \<and> r_use_num R' = 0 \<and>
      length (r_ds_vec R') = length (r_ds_vec R) \<and> instances_placed ps P m (r_ds_vec R', P', m')) \<dots>"
    by (rule post_bind [OF made]) (auto simp: assms(6))
  ultimately show ?thesis using ps by (intro exI [of _ ps]) simp
qed

definition text_fields :: "(string \<times> cpp_type) list" where
  "text_fields = [(''name'', string_T), (''tag'', pool_string_T)]"

definition text_pool :: reuse_pool where
  "text_pool = \<lparr>r_schema = register_all text_fields Schema, r_ds_vec = [4104, 8200], r_use_num = 1\<rparr>"

theorem reuse_pool_recycled_witness:
  "\<exists>ps. map (\<lambda>(f, T). (f_name f, T)) ps = text_fields \<and>
    post_cxx {Bad_alloc, Terminate} (\<lambda>(R', P', m'). r_schema R' = r_schema text_pool \<and> r_use_num R' = 0 \<and>
      length (r_ds_vec R') = length (r_ds_vec text_pool) \<and> instances_placed ps (StaticMemoryPool 1024) empty_mem (r_ds_vec R', P', m'))
    (recycle_pool bump_new idle_builder of_nat 1 (\<lambda>_ _. 64) (\<lambda>_ _ _. 1) text_pool (StaticMemoryPool 1024) empty_mem)"
proof (rule reuse_pool_recycled [OF bump.operator_new_axioms StaticMemoryPool_inv(1) [OF heap_ok_empty]])
  show "unat (1024 :: size_t) \<le> 2 ^ 60" by simp
  show "schema_args_ok text_fields"
    by (simp add: schema_args_ok_def text_fields_def layout_size_def) (simp add: pool_string_T_def string_T_def)
  show "list_all (\<lambda>(n, T). \<not> ty_trivial T) text_fields" by (simp add: text_fields_def pool_string_T_def string_T_def)
qed (simp_all add: text_pool_def)

end
