(* ===== verification/Construct_Helper.thy ===== *)
theory Construct_Helper
  imports Prelude
begin

text \<open>
  \<open>example/brpc/helper.h\<close> and \<open>helper.hpp\<close>: compile-time decisions about constructing objects with
  an allocator (\<open>AllocatorConstructHelper\<close>), and the small run-time helpers \<open>ConditionalDeleter\<close>,
  \<open>Pointer\<close>, \<open>Aligned\<close> and \<open>ReleasedSharedPtrDeleter\<close>. C++ types are values of \<open>cty\<close> (without
  top-level cv qualifiers, which the code removes first); the standard traits are a record of
  functions, a parameter of every definition.
\<close>

subsection \<open>Types and traits\<close>

datatype cty =
    Class nat
  | Pair cty cty
  | Tuple "cty list"
  | LRef cty
  | CRef cty
  | RRef cty
  | Allocator_arg
  | Piecewise
  | NeverUsed

record traits =
  uses_allocator :: "cty \<Rightarrow> cty \<Rightarrow> bool"
  is_constructible :: "cty \<Rightarrow> cty list \<Rightarrow> bool"
  is_convertible :: "cty \<Rightarrow> cty \<Rightarrow> bool"
  allocator_checker :: "cty \<Rightarrow> bool"
  rebind :: "cty \<Rightarrow> cty \<Rightarrow> cty"

fun FirstType :: "cty \<Rightarrow> cty" where
  "FirstType (Pair f s) = f"
| "FirstType (RRef (Pair f s)) = RRef f"
| "FirstType (LRef (Pair f s)) = LRef f"
| "FirstType (CRef (Pair f s)) = CRef f"
| "FirstType _ = NeverUsed"

fun SecondType :: "cty \<Rightarrow> cty" where
  "SecondType (Pair f s) = s"
| "SecondType (RRef (Pair f s)) = RRef s"
| "SecondType (LRef (Pair f s)) = LRef s"
| "SecondType (CRef (Pair f s)) = CRef s"
| "SecondType _ = NeverUsed"

subsection \<open>Arguments that already carry the allocator\<close>

fun AllocatorPrefixed :: "traits \<Rightarrow> cty \<Rightarrow> cty list \<Rightarrow> bool" where
  "AllocatorPrefixed tr T (tag # a # args) \<longleftrightarrow>
     uses_allocator tr T a \<and> is_convertible tr tag Allocator_arg \<and> allocator_checker tr a"
| "AllocatorPrefixed tr T _ \<longleftrightarrow> False"

fun AllocatorSuffixed :: "traits \<Rightarrow> cty \<Rightarrow> cty list \<Rightarrow> bool" where
  "AllocatorSuffixed tr T [] \<longleftrightarrow> False"
| "AllocatorSuffixed tr T [a] \<longleftrightarrow> uses_allocator tr T a \<and> allocator_checker tr a"
| "AllocatorSuffixed tr T (a # args) \<longleftrightarrow> AllocatorSuffixed tr T args"

definition AllocatorApplied :: "traits \<Rightarrow> cty \<Rightarrow> cty list \<Rightarrow> bool" where
  "AllocatorApplied tr T args \<longleftrightarrow> AllocatorPrefixed tr T args \<or> AllocatorSuffixed tr T args"

subsection \<open>Constructible\<close>

record constructible =
  PREFIXED :: bool
  SUFFIXED :: bool
  USES_ALLOCATOR :: bool
  cvalue :: bool

definition not_constructible :: constructible where
  "not_constructible = \<lparr>PREFIXED = False, SUFFIXED = False, USES_ALLOCATOR = False, cvalue = False\<rparr>"

text \<open>\<open>PairConstructible\<close> and \<open>PairCopyOrMoveConstructible\<close> as pairs (\<open>value\<close>, \<open>USES_ALLOCATOR\<close>),
  over the answers \<open>cf\<close> and \<open>cs\<close> of \<open>Constructible\<close> for the types of the two elements.\<close>

fun PairConstructible ::
  "(cty list \<Rightarrow> constructible) \<Rightarrow> (cty list \<Rightarrow> constructible) \<Rightarrow> cty list \<Rightarrow> bool \<times> bool" where
  "PairConstructible cf cs [] =
     (let v = cvalue (cf []) \<or> cvalue (cs []) in (v, v \<and> (USES_ALLOCATOR (cf []) \<or> USES_ALLOCATOR (cs []))))"
| "PairConstructible cf cs [ff] =
     (let v = cvalue (cf [ff]) \<or> cvalue (cs []) in (v, v \<and> (USES_ALLOCATOR (cf [ff]) \<or> USES_ALLOCATOR (cs []))))"
| "PairConstructible cf cs [Tuple fs, Tuple ss] =
     (let v = cvalue (cf fs) \<or> cvalue (cs ss) in (v, v \<and> (USES_ALLOCATOR (cf fs) \<or> USES_ALLOCATOR (cs ss))))"
| "PairConstructible cf cs [ff, ss] =
     (let v = cvalue (cf [ff]) \<or> cvalue (cs [ss]) in (v, v \<and> (USES_ALLOCATOR (cf [ff]) \<or> USES_ALLOCATOR (cs [ss]))))"
| "PairConstructible cf cs _ = (False, False)"

fun PairCopyOrMoveConstructible ::
  "(cty list \<Rightarrow> constructible) \<Rightarrow> (cty list \<Rightarrow> constructible) \<Rightarrow> cty list \<Rightarrow> bool \<times> bool" where
  "PairCopyOrMoveConstructible cf cs [pp] =
     (let ff = FirstType pp; ss = SecondType pp; v = cvalue (cf [ff]) \<and> cvalue (cs [ss])
      in (v, v \<and> (USES_ALLOCATOR (cf [ff]) \<or> USES_ALLOCATOR (cs [ss]))))"
| "PairCopyOrMoveConstructible cf cs _ = (False, False)"

primrec depth :: "cty \<Rightarrow> nat" where
  "depth (Class n) = 1"
| "depth (Pair f s) = Suc (depth f + depth s)"
| "depth (Tuple ts) = 1"
| "depth (LRef t) = Suc (depth t)"
| "depth (CRef t) = Suc (depth t)"
| "depth (RRef t) = Suc (depth t)"
| "depth Allocator_arg = 1"
| "depth Piecewise = 1"
| "depth NeverUsed = 0"

lemma depth_parts: "T \<noteq> NeverUsed \<Longrightarrow> depth (FirstType T) < depth T \<and> depth (SecondType T) < depth T"
proof -
  have "depth (FirstType T) \<le> depth T - 1 \<and> depth (SecondType T) \<le> depth T - 1"
    by (cases T rule: FirstType.cases) auto
  moreover have "T \<noteq> NeverUsed \<Longrightarrow> 0 < depth T" by (cases T) auto
  ultimately show "T \<noteq> NeverUsed \<Longrightarrow> ?thesis" by fastforce
qed

function Constructible :: "traits \<Rightarrow> cty \<Rightarrow> cty \<Rightarrow> cty list \<Rightarrow> constructible" where
  "Constructible tr U A args =
     (if U = NeverUsed then not_constructible
      else let AA = rebind tr A U;
               applied = AllocatorApplied tr U args;
               front = is_constructible tr U (Allocator_arg # AA # args);
               prefixed = (uses_allocator tr U AA \<and> \<not> applied \<and> front);
               suffixed = (uses_allocator tr U AA \<and> \<not> applied \<and> \<not> front \<and> is_constructible tr U (args @ [AA]));
               cf = Constructible tr (FirstType U) AA;
               cs = Constructible tr (SecondType U) AA;
               pc = PairConstructible cf cs args;
               pm = PairCopyOrMoveConstructible cf cs args;
               uses = (prefixed \<or> suffixed \<or> snd pc \<or> snd pm)
           in \<lparr>PREFIXED = prefixed, SUFFIXED = suffixed, USES_ALLOCATOR = uses,
               cvalue = uses \<or> fst pc \<or> fst pm \<or> is_constructible tr U args\<rparr>)"
  by pat_completeness auto
termination
  by (relation "measure (\<lambda>(tr, U, A, args). depth U)") (auto simp: depth_parts)

declare Constructible.simps [simp del]

subsection \<open>construct\<close>

text \<open>The constructor calls that \<open>construct\<close> makes: a direct call with its argument types, for a
  pair the calls for the two elements. \<open>None\<close> means that no overload is viable, which is a
  compile-time error.\<close>

datatype built = Direct cty "cty list" | Both built built

definition pair_value :: "traits \<Rightarrow> cty \<Rightarrow> cty \<Rightarrow> cty list \<Rightarrow> bool" where
  "pair_value tr P A args =
     fst (PairConstructible (Constructible tr (FirstType P) A) (Constructible tr (SecondType P) A) args)"

definition copy_value :: "traits \<Rightarrow> cty \<Rightarrow> cty \<Rightarrow> cty list \<Rightarrow> bool" where
  "copy_value tr P A args =
     fst (PairCopyOrMoveConstructible (Constructible tr (FirstType P) A) (Constructible tr (SecondType P) A) args)"

definition both :: "built option \<Rightarrow> built option \<Rightarrow> built option" where
  "both x y = (case (x, y) of (Some a, Some b) \<Rightarrow> Some (Both a b) | _ \<Rightarrow> None)"

text \<open>The parameter type \<open>Args&&\<close> for the deduced types \<open>Args\<close>: references collapse, and a value stands for an rvalue.\<close>

fun fwd :: "cty \<Rightarrow> cty" where
  "fwd (LRef t) = LRef t"
| "fwd (CRef t) = CRef t"
| "fwd (RRef t) = RRef t"
| "fwd t = RRef t"

text \<open>Overload resolution, over the deduced types of the arguments: the overloads for pairs take a fixed number of
  arguments and are more specialised than the variadic ones. Of those, the first two are enabled by a test on \<open>Args&&\<close>,
  the third by one on \<open>Args\<close>; when it is viable beside one of them the call is ambiguous. The piecewise overload is
  enabled by a test on the concatenated element arguments, and its elements only when they are constructible.\<close>

definition construct_plain :: "traits \<Rightarrow> cty \<Rightarrow> cty \<Rightarrow> cty list \<Rightarrow> built option" where
  "construct_plain tr U A args =
     (let c = Constructible tr U A (map fwd args);
          direct = (\<not> USES_ALLOCATOR (Constructible tr U A args) \<and> \<not> pair_value tr U A args)
      in if direct then (if PREFIXED c \<or> SUFFIXED c then None else Some (Direct U (map fwd args)))
         else if PREFIXED c then Some (Direct U (Allocator_arg # A # map fwd args))
         else if SUFFIXED c then Some (Direct U (map fwd args @ [A]))
         else None)"

function construct :: "traits \<Rightarrow> cty \<Rightarrow> cty \<Rightarrow> cty list \<Rightarrow> built option" where
  "construct tr U A args =
     (if U = NeverUsed then None
      else case args of
        [] \<Rightarrow> if pair_value tr U A []
              then both (construct tr (FirstType U) A []) (construct tr (SecondType U) A [])
              else construct_plain tr U A args
      | [x] \<Rightarrow> if copy_value tr U A [x]
              then both (construct tr (FirstType U) A [FirstType x]) (construct tr (SecondType U) A [SecondType x])
              else if pair_value tr U A [x]
              then both (construct tr (FirstType U) A [x]) (construct tr (SecondType U) A [])
              else construct_plain tr U A args
      | [x, y] \<Rightarrow> if pair_value tr U A [x, y]
              then both (construct tr (FirstType U) A [x]) (construct tr (SecondType U) A [y])
              else construct_plain tr U A args
      | [Piecewise, Tuple fs, Tuple ss] \<Rightarrow>
              if pair_value tr U A (fs @ ss)
              then both (if cvalue (Constructible tr (FirstType U) A fs) then construct tr (FirstType U) A fs else None)
                        (if cvalue (Constructible tr (SecondType U) A ss) then construct tr (SecondType U) A ss else None)
              else construct_plain tr U A args
      | _ \<Rightarrow> construct_plain tr U A args)"
  by pat_completeness auto
termination
  by (relation "measure (\<lambda>(tr, U, A, args). depth U)") (auto simp: depth_parts)

declare construct.simps [simp del]

subsection \<open>ConditionalDeleter\<close>

text \<open>Actions of deleters: a call of the deallocation function \<open>F\<close> on the deallocator, or
  \<open>delete\<close>.\<close>

datatype release = Dealloc addr addr | Delete addr

record conditional_deleter =
  deallocator :: addr

definition conditional_delete :: "conditional_deleter \<Rightarrow> addr \<Rightarrow> release list" where
  "conditional_delete d ptr = (if deallocator d \<noteq> nullptr then [Dealloc (deallocator d) ptr] else [])"

definition conditional_own :: "conditional_deleter \<Rightarrow> bool" where
  "conditional_own d \<longleftrightarrow> deallocator d \<noteq> nullptr"

record default_deleter =
  need_delete :: bool

definition default_delete :: "default_deleter \<Rightarrow> addr \<Rightarrow> release list" where
  "default_delete d ptr = (if need_delete d then [Delete ptr] else [])"

definition default_own :: "default_deleter \<Rightarrow> bool" where
  "default_own d \<longleftrightarrow> need_delete d"

subsection \<open>Pointer\<close>

text \<open>\<open>up\<close> is the conversion from \<open>U&\<close> to \<open>T&\<close>, a function on addresses.\<close>

record pointer_box =
  p_object :: addr

definition pointer_deref :: "(addr \<Rightarrow> addr) \<Rightarrow> pointer_box \<Rightarrow> addr cxx" where
  "pointer_deref up p = (if p_object p = nullptr then Inl Null_deref else Inr (up (p_object p)))"

definition pointer_arrow :: "(addr \<Rightarrow> addr) \<Rightarrow> pointer_box \<Rightarrow> addr cxx" where
  "pointer_arrow up p = (if p_object p = nullptr then Inl Null_deref else Inr (up (p_object p)))"

definition pointer_to_T :: "(addr \<Rightarrow> addr) \<Rightarrow> pointer_box \<Rightarrow> addr cxx" where
  "pointer_to_T up p = (if p_object p = nullptr then Inl Null_deref else Inr (up (p_object p)))"

definition pointer_to_U :: "pointer_box \<Rightarrow> addr" where
  "pointer_to_U p = p_object p"

definition pointer_destroy :: "pointer_box \<Rightarrow> release list" where
  "pointer_destroy p = (if p_object p = nullptr then [] else [Delete (p_object p)])"

definition pointer_eq :: "pointer_box \<Rightarrow> pointer_box \<Rightarrow> bool" where
  "pointer_eq p q \<longleftrightarrow> p_object p = p_object q"

definition pointer_ne :: "pointer_box \<Rightarrow> pointer_box \<Rightarrow> bool" where
  "pointer_ne p q \<longleftrightarrow> \<not> pointer_eq p q"

subsection \<open>Released shared pointers\<close>

text \<open>The control block of a \<open>shared_ptr\<close>, as far as the deleter uses it: \<open>_M_release\<close> disposes of
  the object when the count drops to zero.\<close>

record counted =
  use_count :: nat
  disposed :: nat

definition add_ref_copy :: "counted \<Rightarrow> counted" where
  "add_ref_copy c = c\<lparr>use_count := use_count c + 1\<rparr>"

definition release_count :: "counted \<Rightarrow> counted" where
  "release_count c = c\<lparr>use_count := use_count c - 1,
     disposed := disposed c + (if use_count c = 1 then 1 else 0)\<rparr>"

text \<open>The deleter either has no control block and deletes, or disposes through the block.\<close>

definition released_delete :: "counted option \<Rightarrow> addr \<Rightarrow> release list \<times> counted option" where
  "released_delete sc ptr =
     (case sc of None \<Rightarrow> ([Delete ptr], None) | Some c \<Rightarrow> ([], Some (release_count (add_ref_copy c))))"

definition releasable :: "counted option \<Rightarrow> bool" where
  "releasable sc \<longleftrightarrow> sc = None"

definition release_shared_ptr ::
  "(addr \<Rightarrow> addr \<times> counted option) \<Rightarrow> addr \<Rightarrow> addr \<times> counted option" where
  "release_shared_ptr internal_release sp = internal_release sp"

subsection \<open>Aligned\<close>

text \<open>\<open>Aligned<T, A>\<close> holds its object at offset 0 and is aligned to \<open>A\<close>, or to the alignment of \<open>T\<close> where that
  is stricter; \<open>ctor\<close> is the constructor of \<open>T\<close>. The accessors return references, given here with what is
  written through them.\<close>

record 'a aligned_box =
  box_object :: 'a

definition Aligned_new :: "('c \<Rightarrow> 'a) \<Rightarrow> 'c \<Rightarrow> 'a aligned_box" where
  "Aligned_new ctor xs = \<lparr>box_object = ctor xs\<rparr>"

definition Aligned_get :: "'a aligned_box \<Rightarrow> 'a" where
  "Aligned_get b = box_object b"

definition Aligned_write :: "'a \<Rightarrow> 'a aligned_box \<Rightarrow> 'a aligned_box" where
  "Aligned_write x b = b\<lparr>box_object := x\<rparr>"

definition Aligned_align :: "nat \<Rightarrow> nat \<Rightarrow> nat" where
  "Aligned_align alignof_T A = max alignof_T A"

definition Aligned_size :: "nat \<Rightarrow> nat \<Rightarrow> nat \<Rightarrow> nat" where
  "Aligned_size sizeof_T alignof_T A =
     (let a = Aligned_align alignof_T A in (sizeof_T + a - 1) div a * a)"

lemma Aligned_get_write: "Aligned_get (Aligned_write x b) = x" "Aligned_get (Aligned_new ctor xs) = ctor xs"
  by (simp_all add: Aligned_get_def Aligned_write_def Aligned_new_def)

text \<open>Neighbours in an array of such boxes never touch the same line of \<open>A\<close> bytes.\<close>

lemma Aligned_array_separate:
  assumes "0 < sizeof_T" "alignof_T dvd A" "0 < A" "A dvd base" "i \<noteq> j" "x < sizeof_T" "y < sizeof_T"
  shows "(base + i * Aligned_size sizeof_T alignof_T A + x) div A \<noteq> (base + j * Aligned_size sizeof_T alignof_T A + y) div A"
proof -
  have "alignof_T \<le> A" using assms(2,3) by (rule dvd_imp_le)
  then have a: "Aligned_align alignof_T A = A" by (simp add: Aligned_align_def)
  define k where "k = (sizeof_T + A - 1) div A"
  have size: "Aligned_size sizeof_T alignof_T A = k * A" by (simp add: Aligned_size_def a k_def)
  have "sizeof_T \<le> k * A"
  proof -
    have "(sizeof_T + A - 1) mod A < A" using assms(3) by simp
    moreover have "k * A + (sizeof_T + A - 1) mod A = sizeof_T + A - 1" unfolding k_def by (rule div_mult_mod_eq)
    ultimately show ?thesis by linarith
  qed
  then have off: "x div A < k" "y div A < k" using assms(3,6,7) by (simp_all add: less_mult_imp_div_less)
  obtain b where b: "base = A * b" using assms(4) by (rule dvdE)
  have line: "(base + n * (k * A) + z) div A = b + n * k + z div A" for n z
  proof -
    have "base + n * (k * A) + z = (b + n * k) * A + z" by (simp add: b algebra_simps)
    then show ?thesis using assms(3) by simp
  qed
  have "i * k + x div A \<noteq> j * k + y div A"
  proof
    assume "i * k + x div A = j * k + y div A"
    then have "(i * k + x div A) div k = (j * k + y div A) div k" by simp
    then show False using off assms(5) by simp
  qed
  then show ?thesis by (simp add: size line)
qed

end
