(* ===== verification/Helper_Theorems.thy ===== *)
theory Helper_Theorems
  imports Construct_Helper
begin

text \<open>
  What \<open>AllocatorConstructHelper\<close> decides: the contract of \<open>Constructible\<close> for types that are no
  pairs, type correctness of the calls \<open>construct\<close> makes, the propagation of the allocator to every element of nested pairs, and the two places where
  pairs are treated other than documented.
\<close>

subsection \<open>Supporting facts\<close>

definition plain_type :: "cty \<Rightarrow> bool" where
  "plain_type U \<longleftrightarrow> U \<noteq> NeverUsed \<and> FirstType U = NeverUsed \<and> SecondType U = NeverUsed"

lemma Constructible_NeverUsed [simp]: "Constructible tr NeverUsed A args = not_constructible"
  by (simp add: Constructible.simps)

lemma PairConstructible_none:
  "PairConstructible (\<lambda>_. not_constructible) (\<lambda>_. not_constructible) args = (False, False)"
  by (cases "(\<lambda>_ :: cty list. not_constructible, \<lambda>_ :: cty list. not_constructible, args)" rule: PairConstructible.cases)
    (auto simp: not_constructible_def)

lemma PairCopy_none:
  "PairCopyOrMoveConstructible (\<lambda>_. not_constructible) (\<lambda>_. not_constructible) args = (False, False)"
  by (cases "(\<lambda>_ :: cty list. not_constructible, \<lambda>_ :: cty list. not_constructible, args)" rule: PairCopyOrMoveConstructible.cases)
    (auto simp: not_constructible_def)

lemma Constructible_fun_NeverUsed: "Constructible tr NeverUsed A = (\<lambda>_. not_constructible)"
  by (rule ext) simp

lemma plain_pair_values: "plain_type U \<Longrightarrow> \<not> pair_value tr U A args \<and> \<not> copy_value tr U A args"
  by (simp add: pair_value_def copy_value_def plain_type_def Constructible_fun_NeverUsed PairConstructible_none PairCopy_none)

lemma plain_Constructible:
  fixes tr A args
  assumes "plain_type U"
  defines "c \<equiv> Constructible tr U A args"
  shows "USES_ALLOCATOR c = (PREFIXED c \<or> SUFFIXED c)"
    and "cvalue c = (PREFIXED c \<or> SUFFIXED c \<or> is_constructible tr U args)"
    and "\<not> (PREFIXED c \<and> SUFFIXED c)"
  using assms(1) unfolding c_def plain_type_def
  by (auto simp: Constructible.simps [of tr U] Let_def Constructible_fun_NeverUsed PairConstructible_none PairCopy_none)

lemma plain_construct: "plain_type U \<Longrightarrow> construct tr U A args = construct_plain tr U A args"
proof -
  assume U: "plain_type U"
  then have "U \<noteq> NeverUsed" by (simp add: plain_type_def)
  then show ?thesis using plain_pair_values [OF U] by (subst construct.simps) (auto split: list.splits cty.splits)
qed

lemma Suffixed_last:
  "AllocatorSuffixed tr T args \<longleftrightarrow>
   args \<noteq> [] \<and> uses_allocator tr T (last args) \<and> allocator_checker tr (last args)"
  by (induction tr T args rule: AllocatorSuffixed.induct) auto

text \<open>\<open>rebind_alloc\<close> forgets what the allocator was bound to before.\<close>

definition rebind_law :: "traits \<Rightarrow> bool" where
  "rebind_law tr \<longleftrightarrow> (\<forall>A U V. rebind tr (rebind tr A U) V = rebind tr A V)"

lemma Constructible_rebind:
  assumes "rebind_law tr"
  shows "Constructible tr U (rebind tr A V) args = Constructible tr U A args"
  using assms by (subst (1 2) Constructible.simps) (simp add: rebind_law_def)

text \<open>Nested pairs of classes, each default constructible with or without the allocator.\<close>

primrec elements_ok :: "traits \<Rightarrow> cty \<Rightarrow> cty \<Rightarrow> bool" where
  "elements_ok tr A (Class n) \<longleftrightarrow> cvalue (Constructible tr (Class n) A [])"
| "elements_ok tr A (Pair f s) \<longleftrightarrow> elements_ok tr A f \<and> elements_ok tr A s"
| "elements_ok tr A (Tuple ts) \<longleftrightarrow> False"
| "elements_ok tr A (LRef t) \<longleftrightarrow> False"
| "elements_ok tr A (CRef t) \<longleftrightarrow> False"
| "elements_ok tr A (RRef t) \<longleftrightarrow> False"
| "elements_ok tr A Allocator_arg \<longleftrightarrow> False"
| "elements_ok tr A Piecewise \<longleftrightarrow> False"
| "elements_ok tr A NeverUsed \<longleftrightarrow> False"

text \<open>What should be built: each class with the allocator in front, at the back, or not at all.\<close>

primrec elementwise :: "traits \<Rightarrow> cty \<Rightarrow> cty \<Rightarrow> built" where
  "elementwise tr A (Class n) =
     (let c = Constructible tr (Class n) A []
      in if PREFIXED c then Direct (Class n) [Allocator_arg, A]
         else if SUFFIXED c then Direct (Class n) [A] else Direct (Class n) [])"
| "elementwise tr A (Pair f s) = Both (elementwise tr A f) (elementwise tr A s)"
| "elementwise tr A (Tuple ts) = Direct (Tuple ts) []"
| "elementwise tr A (LRef t) = Direct (LRef t) []"
| "elementwise tr A (CRef t) = Direct (CRef t) []"
| "elementwise tr A (RRef t) = Direct (RRef t) []"
| "elementwise tr A Allocator_arg = Direct Allocator_arg []"
| "elementwise tr A Piecewise = Direct Piecewise []"
| "elementwise tr A NeverUsed = Direct NeverUsed []"

lemma elements_value:
  assumes "rebind_law tr"
  shows "elements_ok tr A U \<Longrightarrow> cvalue (Constructible tr U A [])"
proof (induction U)
  case (Pair f s)
  then have "cvalue (Constructible tr f A [])" by simp
  then show ?case
    by (subst Constructible.simps) (simp add: Let_def Constructible_rebind [OF assms])
qed simp_all

lemma elementwise_construct:
  assumes "rebind_law tr"
  shows "elements_ok tr A U \<Longrightarrow> construct tr U A [] = Some (elementwise tr A U)"
proof (induction U)
  case (Class n)
  have "plain_type (Class n)" by (simp add: plain_type_def)
  then show ?case using plain_pair_values [of "Class n" tr A "[]"] plain_Constructible(1) [of "Class n" tr A "[]"]
    by (auto simp: plain_construct construct_plain_def Let_def)
next
  case (Pair f s)
  then have "cvalue (Constructible tr f A [])" using elements_value [OF assms] by simp
  then have "pair_value tr (Pair f s) A []" by (simp add: pair_value_def)
  then show ?case using Pair by (subst construct.simps) (simp add: both_def)
qed simp_all

text \<open>Type soundness: what an object of nested pairs is made from, its element types, and the constructor calls
  that exist. The allocator passed on converts to the rebound one the predicates ask for.\<close>

datatype source = From_nothing | From_copy | From_move

primrec source_args :: "source \<Rightarrow> cty \<Rightarrow> cty list" where
  "source_args From_nothing T = []"
| "source_args From_copy T = [CRef T]"
| "source_args From_move T = [T]"

fun all_elements :: "(cty \<Rightarrow> bool) \<Rightarrow> cty \<Rightarrow> bool" where
  "all_elements P (Class n) \<longleftrightarrow> P (Class n)"
| "all_elements P (Pair f s) \<longleftrightarrow> all_elements P f \<and> all_elements P s"
| "all_elements P _ \<longleftrightarrow> False"

primrec built_type :: "built \<Rightarrow> cty" where
  "built_type (Direct T args) = T"
| "built_type (Both a b) = Pair (built_type a) (built_type b)"

primrec well_typed :: "traits \<Rightarrow> built \<Rightarrow> bool" where
  "well_typed tr (Direct T args) \<longleftrightarrow> is_constructible tr T args"
| "well_typed tr (Both a b) \<longleftrightarrow> well_typed tr a \<and> well_typed tr b"

definition allocator_law :: "traits \<Rightarrow> cty \<Rightarrow> bool" where
  "allocator_law tr A \<longleftrightarrow>
     (\<forall>U args. is_constructible tr U (Allocator_arg # rebind tr A U # args) \<longrightarrow> is_constructible tr U (Allocator_arg # A # args)) \<and>
     (\<forall>U args. is_constructible tr U (args @ [rebind tr A U]) \<longrightarrow> is_constructible tr U (args @ [A]))"

text \<open>The traits do not tell \<open>X\<close> from \<open>X&&\<close>, as the standard ones do not.\<close>

definition forward_law :: "traits \<Rightarrow> bool" where
  "forward_law tr \<longleftrightarrow>
     (\<forall>U xs ys. map fwd xs = map fwd ys \<longrightarrow> is_constructible tr U xs = is_constructible tr U ys) \<and>
     (\<forall>T a. uses_allocator tr T (fwd a) = uses_allocator tr T a) \<and>
     (\<forall>a b. is_convertible tr (fwd a) b = is_convertible tr a b) \<and> (\<forall>a. allocator_checker tr (fwd a) = allocator_checker tr a)"

lemma fwd_fwd [simp]: "fwd (fwd t) = fwd t"
  by (cases t rule: fwd.cases) simp_all

lemma is_constructible_fwd:
  assumes "forward_law tr"
  shows "is_constructible tr U (pre @ map fwd args @ post) = is_constructible tr U (pre @ args @ post)"
proof -
  have "map fwd (pre @ map fwd args @ post) = map fwd (pre @ args @ post)" by simp
  then show ?thesis using assms unfolding forward_law_def by blast
qed

lemma AllocatorApplied_fwd:
  assumes "forward_law tr"
  shows "AllocatorApplied tr U (map fwd args) = AllocatorApplied tr U args"
proof -
  have "AllocatorPrefixed tr U (map fwd args) = AllocatorPrefixed tr U args"
    using assms by (cases "(tr, U, args)" rule: AllocatorPrefixed.cases) (simp_all add: forward_law_def)
  moreover have "AllocatorSuffixed tr U (map fwd args) = AllocatorSuffixed tr U args"
    using assms by (auto simp: Suffixed_last last_map forward_law_def)
  ultimately show ?thesis by (simp add: AllocatorApplied_def)
qed

lemma plain_Constructible_fwd:
  assumes "plain_type U" "forward_law tr"
  shows "Constructible tr U A (map fwd args) = Constructible tr U A args"
proof -
  note f = is_constructible_fwd [OF assms(2)]
  have "is_constructible tr U (map fwd args) = is_constructible tr U args" using f [of U "[]" args "[]"] by simp
  moreover have "is_constructible tr U (a # b # map fwd args) = is_constructible tr U (a # b # args)" for a b
    using f [of U "[a, b]" args "[]"] by simp
  moreover have "is_constructible tr U (map fwd args @ [a]) = is_constructible tr U (args @ [a])" for a
    using f [of U "[]" args "[a]"] by simp
  ultimately show ?thesis using assms(1) unfolding plain_type_def
    by (subst (1 2) Constructible.simps)
      (simp add: Let_def AllocatorApplied_fwd [OF assms(2)] Constructible_fun_NeverUsed PairConstructible_none PairCopy_none)
qed

lemma elements_constructible:
  assumes "rebind_law tr"
  shows "all_elements (\<lambda>T. cvalue (Constructible tr T A (source_args src T))) U \<Longrightarrow>
    cvalue (Constructible tr U A (source_args src U))"
proof (induction U)
  case (Pair f s)
  then show ?case
    by (subst Constructible.simps) (cases src; simp add: Let_def Constructible_rebind [OF assms])
qed simp_all

lemma construct_class_typed:
  assumes "allocator_law tr A" and "forward_law tr" and "cvalue (Constructible tr (Class n) A args)"
  shows "\<exists>b. construct tr (Class n) A args = Some b \<and> built_type b = Class n \<and> well_typed tr b"
proof -
  have U: "plain_type (Class n)" by (simp add: plain_type_def)
  note f = plain_Constructible_fwd [OF U assms(2)] and g = is_constructible_fwd [OF assms(2)]
  have i: "is_constructible tr (Class n) (map fwd args) = is_constructible tr (Class n) args"
    "is_constructible tr (Class n) (Allocator_arg # A # map fwd args) = is_constructible tr (Class n) (Allocator_arg # A # args)"
    "is_constructible tr (Class n) (map fwd args @ [A]) = is_constructible tr (Class n) (args @ [A])"
    using g [of "Class n" "[]" args "[]"] g [of "Class n" "[Allocator_arg, A]" args "[]"] g [of "Class n" "[]" args "[A]"] by simp_all
  have c: "PREFIXED (Constructible tr (Class n) A args) \<Longrightarrow> is_constructible tr (Class n) (Allocator_arg # rebind tr A (Class n) # args)"
    "SUFFIXED (Constructible tr (Class n) A args) \<Longrightarrow> is_constructible tr (Class n) (args @ [rebind tr A (Class n)])"
    by (simp_all add: Constructible.simps Let_def)
  show ?thesis using assms(1,3) c i plain_Constructible [OF U, of tr A args] plain_pair_values [OF U, of tr A args]
    by (auto simp: plain_construct [OF U] construct_plain_def Let_def allocator_law_def f)
qed

lemma construct_pair:
  assumes "cvalue (Constructible tr f A (source_args src f))" "cvalue (Constructible tr s A (source_args src s))"
  shows "construct tr (Pair f s) A (source_args src (Pair f s)) =
    both (construct tr f A (source_args src f)) (construct tr s A (source_args src s))"
  using assms by (cases src; subst construct.simps) (simp_all add: pair_value_def copy_value_def)

subsection \<open>Properties\<close>

text \<open>For a type that is no pair, \<open>Constructible\<close> and \<open>construct\<close> agree with the
  documentation: at most one of the two protocols applies, \<open>value\<close> holds when one does or when
  \<open>T(Args...)\<close> exists, and \<open>construct\<close> calls the constructor with the allocator in front, at the
  back, or with the arguments as they are.\<close>

theorem plain_contract:
  assumes "plain_type U" and "forward_law tr"
  shows "cvalue (Constructible tr U A args) =
      (USES_ALLOCATOR (Constructible tr U A args) \<or> is_constructible tr U args) \<and>
    USES_ALLOCATOR (Constructible tr U A args) = (PREFIXED (Constructible tr U A args) \<noteq> SUFFIXED (Constructible tr U A args)) \<and>
    construct tr U A args = Some (Direct U
      (if PREFIXED (Constructible tr U A args) then Allocator_arg # A # map fwd args
       else if SUFFIXED (Constructible tr U A args) then map fwd args @ [A] else map fwd args))"
  using plain_Constructible [OF assms(1), of tr A args] plain_pair_values [OF assms(1), of tr A args]
  by (auto simp: plain_construct [OF assms(1)] construct_plain_def Let_def plain_Constructible_fwd [OF assms])

definition vector_traits :: traits where
  "vector_traits = \<lparr>uses_allocator = (\<lambda>T A. T = Class 0), is_constructible = (\<lambda>T args. T = Class 0 \<and> map fwd args \<in> {[], [fwd (Class 9)]} \<or> T = Class 1 \<and> args = []),
     is_convertible = (\<lambda>x y. fwd x = fwd y), allocator_checker = (\<lambda>A. fwd A = fwd (Class 9)), rebind = (\<lambda>A U. A)\<rparr>"

lemma vector_traits_default: "k < 2 \<Longrightarrow> cvalue (Constructible vector_traits (Class k) (Class 9) [])"
  using plain_Constructible(2) [of "Class k" vector_traits "Class 9" "[]"]
  by (auto simp: plain_type_def vector_traits_def less_2_cases_iff)

lemma vector_traits_forward: "forward_law vector_traits"
  by (auto simp: forward_law_def vector_traits_def dest: map_eq_imp_length_eq)

theorem plain_contract_witness:
  "cvalue (Constructible vector_traits (Class 0) (Class 9) []) =
      (USES_ALLOCATOR (Constructible vector_traits (Class 0) (Class 9) []) \<or> is_constructible vector_traits (Class 0) []) \<and>
    USES_ALLOCATOR (Constructible vector_traits (Class 0) (Class 9) []) =
      (PREFIXED (Constructible vector_traits (Class 0) (Class 9) []) \<noteq> SUFFIXED (Constructible vector_traits (Class 0) (Class 9) [])) \<and>
    construct vector_traits (Class 0) (Class 9) [] = Some (Direct (Class 0)
      (if PREFIXED (Constructible vector_traits (Class 0) (Class 9) []) then Allocator_arg # Class 9 # []
       else if SUFFIXED (Constructible vector_traits (Class 0) (Class 9) []) then [] @ [Class 9] else []))"
  using plain_contract [OF _ vector_traits_forward, of "Class 0" "Class 9" "[]"] by (simp add: plain_type_def)

text \<open>C40. Default, copy and move construction of nested pairs is type correct: when every element class
  is constructible with the allocator, \<open>construct\<close> has a viable overload, what it builds has the requested type, and every
  constructor call it makes exists.\<close>

theorem construct_type_sound:
  assumes "rebind_law tr" and "allocator_law tr A" and "forward_law tr"
    and "all_elements (\<lambda>T. cvalue (Constructible tr T A (source_args src T))) U"
  shows "\<exists>b. construct tr U A (source_args src U) = Some b \<and> built_type b = U \<and> well_typed tr b"
  using assms(4)
proof (induction U)
  case (Class n)
  then show ?case by (simp add: construct_class_typed [OF assms(2,3)])
next
  case (Pair f s)
  then show ?case using construct_pair [of tr f A src s] elements_constructible [OF assms(1), of A src]
    by (auto simp: both_def)
qed simp_all

theorem construct_type_sound_witness:
  "\<exists>b. construct vector_traits (Pair (Class 1) (Pair (Class 0) (Class 1))) (Class 9)
      (source_args From_nothing (Pair (Class 1) (Pair (Class 0) (Class 1)))) = Some b \<and>
    built_type b = Pair (Class 1) (Pair (Class 0) (Class 1)) \<and> well_typed vector_traits b"
proof (rule construct_type_sound)
  show "rebind_law vector_traits" by (simp add: rebind_law_def vector_traits_def)
  show "allocator_law vector_traits (Class 9)" by (simp add: allocator_law_def vector_traits_def)
  show "forward_law vector_traits" by (rule vector_traits_forward)
  show "all_elements (\<lambda>T. cvalue (Constructible vector_traits T (Class 9) (source_args From_nothing T)))
      (Pair (Class 1) (Pair (Class 0) (Class 1)))" by (simp add: vector_traits_default)
qed

text \<open>Default construction of nested pairs reaches every element: each class that can take the
  allocator gets it, by the protocol it supports.\<close>

theorem nested_pairs_get_allocator:
  assumes "rebind_law tr" and "elements_ok tr A U"
  shows "construct tr U A [] = Some (elementwise tr A U)"
  by (rule elementwise_construct [OF assms])

theorem nested_pairs_get_allocator_witness:
  "construct vector_traits (Pair (Class 1) (Pair (Class 0) (Class 1))) (Class 9) [] =
     Some (elementwise vector_traits (Class 9) (Pair (Class 1) (Pair (Class 0) (Class 1))))"
proof (rule nested_pairs_get_allocator)
  show "rebind_law vector_traits" by (simp add: rebind_law_def vector_traits_def)
  show "elements_ok vector_traits (Class 9) (Pair (Class 1) (Pair (Class 0) (Class 1)))" by (simp add: vector_traits_default)
qed

text \<open>A pair counts as constructible as soon as one of its elements is: \<open>value\<close> is true for a
  pair whose first element has a default constructor and whose second has none, although the pair
  itself has none and no allocator is involved.\<close>

theorem pair_value_half:
  assumes "rebind_law tr" and "is_constructible tr (Class a) []" and "\<not> is_constructible tr (Class b) []"
    and "\<not> uses_allocator tr (Class a) (rebind tr A (Class a))" and "\<not> uses_allocator tr (Class b) (rebind tr A (Class b))"
    and "\<not> uses_allocator tr (Pair (Class a) (Class b)) (rebind tr A (Pair (Class a) (Class b)))"
  shows "cvalue (Constructible tr (Pair (Class a) (Class b)) A []) \<and>
    \<not> USES_ALLOCATOR (Constructible tr (Pair (Class a) (Class b)) A []) \<and>
    \<not> cvalue (Constructible tr (Class b) A [])"
proof -
  have fs: "Constructible tr (Class n) A [] = \<lparr>PREFIXED = False, SUFFIXED = False, USES_ALLOCATOR = False,
      cvalue = is_constructible tr (Class n) []\<rparr>" if "\<not> uses_allocator tr (Class n) (rebind tr A (Class n))" for n
    using that by (subst Constructible.simps)
      (simp add: Let_def Constructible_fun_NeverUsed not_constructible_def)
  show ?thesis using assms(2-)
    by (subst (1 2) Constructible.simps) (simp add: Let_def Constructible_rebind [OF assms(1)] fs)
qed

theorem pair_value_half_witness:
  "cvalue (Constructible vector_traits (Pair (Class 1) (Class 2)) (Class 9) []) \<and>
    \<not> USES_ALLOCATOR (Constructible vector_traits (Pair (Class 1) (Class 2)) (Class 9) []) \<and>
    \<not> cvalue (Constructible vector_traits (Class 2) (Class 9) [])"
  by (rule pair_value_half) (simp_all add: rebind_law_def vector_traits_def)

end
