(* ===== verification/Split_Str.thy ===== *)
theory Split_Str
  imports Prelude
begin

text \<open>
  \<open>split_new_v1\<close> (\<open>example/brpc/util/split_str.h\<close>): the tokens of a line between delimiter
  characters, converted by \<open>boost::lexical_cast\<close>, which is a parameter. For a
  number type the code catches \<open>std::invalid_argument\<close> and then continues the loop without
  moving on.
\<close>

subsection \<open>Searching\<close>

text \<open>\<open>std::string::npos\<close> is \<open>None\<close>.\<close>

definition find_first_not_of :: "string \<Rightarrow> string \<Rightarrow> nat \<Rightarrow> nat option" where
  "find_first_not_of line delims pos =
     (let k = pos + length (takeWhile (\<lambda>c. c \<in> set delims) (drop pos line))
      in if k < length line then Some k else None)"

definition find_first_of :: "string \<Rightarrow> string \<Rightarrow> nat \<Rightarrow> nat option" where
  "find_first_of line delims pos =
     (let k = pos + length (takeWhile (\<lambda>c. c \<notin> set delims) (drop pos line))
      in if k < length line then Some k else None)"

definition substr :: "string \<Rightarrow> nat \<Rightarrow> nat \<Rightarrow> string" where
  "substr line pos n = take n (drop pos line)"

subsection \<open>split\_new\_v1\<close>

text \<open>
  The outcome of \<open>boost::lexical_cast\<close>: a value, \<open>boost::bad_lexical_cast\<close> (a
  \<open>std::bad_cast\<close>), or \<open>std::invalid_argument\<close>, the exception the code expects.
\<close>

datatype 'a cast_result = Cast 'a | Bad_lexical_cast | Invalid_argument

text \<open>What \<open>is_number_type<T>\<close> and \<open>is_string_type<T>\<close> say of the token type.\<close>

datatype token_type = Number_type | String_type | Other_type

text \<open>What one iteration appends. \<open>Diverges\<close> is the \<open>continue\<close> of the handler: \<open>begin\<close> has not
  moved, so the same iteration repeats for ever.\<close>

definition token_values :: "token_type \<Rightarrow> 'a cast_result \<Rightarrow> 'a list cxx" where
  "token_values T r =
     (case T of
        Number_type \<Rightarrow>
          (case r of Cast v \<Rightarrow> Inr [v] | Bad_lexical_cast \<Rightarrow> Inl (Throws ''boost::bad_lexical_cast'')
           | Invalid_argument \<Rightarrow> Inl Diverges)
      | String_type \<Rightarrow>
          (case r of Cast v \<Rightarrow> Inr [v] | Bad_lexical_cast \<Rightarrow> Inl (Throws ''boost::bad_lexical_cast'')
           | Invalid_argument \<Rightarrow> Inl (Throws ''std::invalid_argument''))
      | Other_type \<Rightarrow> Inr [])"

function split_loop ::
  "token_type \<Rightarrow> (string \<Rightarrow> 'a cast_result) \<Rightarrow> string \<Rightarrow> string \<Rightarrow> nat option \<Rightarrow> 'a list \<Rightarrow> int \<Rightarrow>
   (int \<times> 'a list) cxx" where
  "split_loop T cast line delims None tokens n = Inr (n, tokens)"
| "split_loop T cast line delims (Some b) tokens n =
     (if length line < b then Inl (Throws ''std::out_of_range'')
      else let e = (case find_first_of line delims b of None \<Rightarrow> length line | Some e \<Rightarrow> e)
           in case token_values T (cast (substr line b (e - b))) of
                Inl err \<Rightarrow> Inl err
              | Inr vs \<Rightarrow> split_loop T cast line delims (find_first_not_of line delims e) (tokens @ vs) (n + 1))"
  by pat_completeness auto

definition split_new_v1 ::
  "token_type \<Rightarrow> (string \<Rightarrow> 'a cast_result) \<Rightarrow> string \<Rightarrow> string \<Rightarrow> 'a list \<Rightarrow> (int \<times> 'a list) cxx" where
  "split_new_v1 T cast line delims tokens =
     split_loop T cast line delims (find_first_not_of line delims 0) tokens 0"

text \<open>The reference: maximal runs of characters that are no delimiters.\<close>

function tokens_of :: "string \<Rightarrow> string \<Rightarrow> string list" where
  "tokens_of delims s =
     (let s' = dropWhile (\<lambda>c. c \<in> set delims) s
      in if s' = [] then []
         else takeWhile (\<lambda>c. c \<notin> set delims) s' # tokens_of delims (dropWhile (\<lambda>c. c \<notin> set delims) s'))"
  by pat_completeness auto

fun cast_all :: "token_type \<Rightarrow> (string \<Rightarrow> 'a cast_result) \<Rightarrow> string list \<Rightarrow> 'a list cxx" where
  "cast_all T cast [] = Inr []"
| "cast_all T cast (t # ts) =
     bind_cxx (token_values T (cast t)) (\<lambda>vs. bind_cxx (cast_all T cast ts) (\<lambda>ws. Inr (vs @ ws)))"

subsection \<open>Termination\<close>

lemma dropWhile_shorter: "s \<noteq> [] \<Longrightarrow> P (hd s) \<Longrightarrow> length (dropWhile P s) < length s"
  by (cases s) (auto simp: length_dropWhile_le less_Suc_eq_le)

termination tokens_of
proof (relation "measure (length \<circ> snd)")
  fix delims s s'
  assume s': "s' = dropWhile (\<lambda>c. c \<in> set delims) s" "s' \<noteq> []"
  then have "\<exists>x \<in> set s. \<not> x \<in> set delims" by (auto simp: dropWhile_eq_Nil_conv)
  then have "hd s' \<notin> set delims" using hd_dropWhile [of "\<lambda>c. c \<in> set delims" s] s' by simp
  then have "length (dropWhile (\<lambda>c. c \<notin> set delims) s') < length s'" using s'(2) by (intro dropWhile_shorter)
  also have "\<dots> \<le> length s" using s'(1) by (simp add: length_dropWhile_le)
  finally show "((delims, dropWhile (\<lambda>c. c \<notin> set delims) s'), delims, s) \<in> measure (length \<circ> snd)" by simp
qed simp

lemma find_first_not_of_Some:
  "find_first_not_of line delims p = Some k \<Longrightarrow> p \<le> k \<and> k < length line \<and> line ! k \<notin> set delims"
proof -
  assume *: "find_first_not_of line delims p = Some k"
  let ?P = "\<lambda>c. c \<in> set delims"
  have k: "k = p + length (takeWhile ?P (drop p line))" "k < length line"
    using * by (auto simp: find_first_not_of_def Let_def split: if_splits)
  then have "length (takeWhile ?P (drop p line)) < length (drop p line)" by simp
  then have "\<not> ?P (drop p line ! length (takeWhile ?P (drop p line)))" by (rule nth_length_takeWhile)
  then show ?thesis using k by simp
qed

definition token_end :: "string \<Rightarrow> string \<Rightarrow> nat \<Rightarrow> nat" where
  "token_end line delims b = (case find_first_of line delims b of None \<Rightarrow> length line | Some e \<Rightarrow> e)"

lemma token_end_eq:
  "b \<le> length line \<Longrightarrow> token_end line delims b = b + length (takeWhile (\<lambda>c. c \<notin> set delims) (drop b line))"
proof -
  assume b: "b \<le> length line"
  have "length (takeWhile (\<lambda>c. c \<notin> set delims) (drop b line)) \<le> length line - b"
    using length_takeWhile_le [of _ "drop b line"] by simp
  then show ?thesis using b by (auto simp: token_end_def find_first_of_def Let_def)
qed

termination split_loop
proof (relation "measure (\<lambda>(T, cast, line, delims, b, tokens, n). case b of None \<Rightarrow> 0 | Some b \<Rightarrow>
    Suc (2 * (length line - b) + (if line ! b \<in> set delims then 1 else 0)))")
  fix T and cast :: "string \<Rightarrow> 'a cast_result" and line delims b tokens n e vs
  assume b: "\<not> length line < b" and e: "e = (case find_first_of line delims b of None \<Rightarrow> length line | Some e \<Rightarrow> e)"
  have te: "e = b + length (takeWhile (\<lambda>c. c \<notin> set delims) (drop b line))"
    using token_end_eq [of b line delims] b e by (simp add: token_end_def)
  show "((T, cast, line, delims, find_first_not_of line delims e, tokens @ vs, n + 1), T, cast, line, delims, Some b, tokens, n)
    \<in> measure (\<lambda>(T, cast, line, delims, b, tokens, n). case b of None \<Rightarrow> 0 | Some b \<Rightarrow>
    Suc (2 * (length line - b) + (if line ! b \<in> set delims then 1 else 0)))"
  proof (cases "find_first_not_of line delims e")
    case (Some k)
    note k = find_first_not_of_Some [OF Some]
    then have bl: "b < length line" using te by linarith
    show ?thesis
    proof (cases "line ! b \<in> set delims")
      case True
      then show ?thesis using k te Some bl by auto
    next
      case False
      then have "b < e" using te bl by (simp add: Cons_nth_drop_Suc [symmetric])
      then have "length line - k < length line - b" using k by linarith
      then show ?thesis using k Some False by simp
    qed
  qed simp
qed simp

declare tokens_of.simps [simp del] split_loop.simps(2) [simp del]

subsection \<open>Equivalence with the reference\<close>

lemma find_first_not_of_drop:
  "find_first_not_of line delims p = None \<Longrightarrow> dropWhile (\<lambda>c. c \<in> set delims) (drop p line) = []"
  "find_first_not_of line delims p = Some k \<Longrightarrow> dropWhile (\<lambda>c. c \<in> set delims) (drop p line) = drop k line"
proof -
  let ?P = "\<lambda>c. c \<in> set delims"
  have d: "dropWhile ?P (drop p line) = drop (p + length (takeWhile ?P (drop p line))) line"
    by (simp add: dropWhile_eq_drop add.commute)
  show "find_first_not_of line delims p = None \<Longrightarrow> dropWhile ?P (drop p line) = []"
    "find_first_not_of line delims p = Some k \<Longrightarrow> dropWhile ?P (drop p line) = drop k line"
    unfolding d by (auto simp: find_first_not_of_def Let_def split: if_splits)
qed

lemma tokens_of_drop:
  "find_first_not_of line delims p = None \<Longrightarrow> tokens_of delims (drop p line) = []"
  "find_first_not_of line delims p = Some k \<Longrightarrow>
   tokens_of delims (drop p line) =
     substr line k (token_end line delims k - k) # tokens_of delims (drop (token_end line delims k) line)"
proof -
  show "find_first_not_of line delims p = None \<Longrightarrow> tokens_of delims (drop p line) = []"
    using find_first_not_of_drop(1) [of line delims p] by (subst tokens_of.simps) (simp add: Let_def)
  assume k: "find_first_not_of line delims p = Some k"
  let ?Q = "\<lambda>c. c \<notin> set delims"
  have kl: "k < length line" using find_first_not_of_Some [OF k] by simp
  then have e: "token_end line delims k = k + length (takeWhile ?Q (drop k line))" by (simp add: token_end_eq)
  have "tokens_of delims (drop p line) = takeWhile ?Q (drop k line) # tokens_of delims (dropWhile ?Q (drop k line))"
    using find_first_not_of_drop(2) [OF k] kl by (subst tokens_of.simps) (simp add: Let_def)
  also have "takeWhile ?Q (drop k line) = substr line k (token_end line delims k - k)"
    by (simp add: e substr_def takeWhile_eq_take [symmetric])
  also have "dropWhile ?Q (drop k line) = drop (token_end line delims k) line"
    by (simp add: e dropWhile_eq_drop add.commute)
  finally show "tokens_of delims (drop p line) =
      substr line k (token_end line delims k - k) # tokens_of delims (drop (token_end line delims k) line)" .
qed

lemma split_loop_eq:
  "split_loop T cast line delims (find_first_not_of line delims p) ts n =
   bind_cxx (cast_all T cast (tokens_of delims (drop p line)))
     (\<lambda>vs. Inr (n + int (length (tokens_of delims (drop p line))), ts @ vs))"
proof (induction "length line - p" arbitrary: p ts n rule: less_induct)
  case less
  show ?case
  proof (cases "find_first_not_of line delims p")
    case None
    then show ?thesis by (simp add: tokens_of_drop(1))
  next
    case (Some k)
    note k = find_first_not_of_Some [OF Some]
    let ?e = "token_end line delims k"
    have e: "?e = k + length (takeWhile (\<lambda>c. c \<notin> set delims) (drop k line))" using k by (simp add: token_end_eq)
    have "k < ?e" using k by (simp add: e Cons_nth_drop_Suc [symmetric])
    then have "length line - ?e < length line - p" using k by linarith
    note IH = less [OF this]
    show ?thesis using k
      by (simp add: Some split_loop.simps(2) tokens_of_drop(2) [OF Some] token_end_def [symmetric] IH Let_def bind_cxx_def
          split: sum.splits)
  qed
qed

lemma split_new_v1_eq:
  "split_new_v1 T cast line delims ts =
   bind_cxx (cast_all T cast (tokens_of delims line)) (\<lambda>vs. Inr (int (length (tokens_of delims line)), ts @ vs))"
  using split_loop_eq [of T cast line delims 0 ts 0] by (simp add: split_new_v1_def)

lemma cast_all_Cast [simp]: "cast_all String_type Cast ts = Inr ts"
  by (induction ts) (simp_all add: token_values_def)

lemma split_strings: "split_new_v1 String_type Cast line delims [] = Inr (int (length (tokens_of delims line)), tokens_of delims line)"
  by (simp add: split_new_v1_eq)

lemma cast_all_map:
  "(\<And>t. t \<in> set ts \<Longrightarrow> cast t = Cast (f t)) \<Longrightarrow> cast_all Number_type cast ts = Inr (map f ts)"
  by (induction ts) (simp_all add: token_values_def)

lemma cast_all_bad:
  "cast t = Bad_lexical_cast \<Longrightarrow> t \<in> set ts \<Longrightarrow> \<forall>u \<in> set ts. cast u \<noteq> Invalid_argument \<Longrightarrow>
   cast_all Number_type cast ts = Inl (Throws ''boost::bad_lexical_cast'')"
  by (induction ts) (auto simp: token_values_def split: cast_result.splits)

lemma tokens_of_no_delims: "t \<in> set (tokens_of delims s) \<Longrightarrow> t \<noteq> [] \<and> set t \<inter> set delims = {}"
proof (induction delims s rule: tokens_of.induct)
  case (1 delims s)
  show ?case
  proof (cases "dropWhile (\<lambda>c. c \<in> set delims) s")
    case Nil
    then show ?thesis using 1(2) by (subst (asm) tokens_of.simps) (simp add: Let_def)
  next
    case (Cons a r)
    then have "a \<notin> set delims" using hd_dropWhile [of "\<lambda>c. c \<in> set delims" s] by fastforce
    moreover have "tokens_of delims s = takeWhile (\<lambda>c. c \<notin> set delims) (a # r) #
        tokens_of delims (dropWhile (\<lambda>c. c \<notin> set delims) (a # r))"
      using Cons by (subst tokens_of.simps) (simp add: Let_def)
    ultimately show ?thesis using 1(1) [OF Cons [symmetric]] 1(2) by (auto dest: set_takeWhileD)
  qed
qed

text \<open>Joining tokens with one delimiter and splitting gives the tokens back.\<close>

fun join_with :: "char \<Rightarrow> string list \<Rightarrow> string" where
  "join_with d [] = []"
| "join_with d [t] = t"
| "join_with d (t # u # ts) = t @ d # join_with d (u # ts)"

lemma tokens_of_token:
  assumes "t \<noteq> []" "d \<notin> set t"
  shows "tokens_of [d] t = [t]" "tokens_of [d] (t @ d # r) = t # tokens_of [d] r"
proof -
  have h: "dropWhile (\<lambda>c. c = d) (t @ r') = t @ r'" for r' using assms by (cases t) auto
  have t: "takeWhile (\<lambda>c. c \<noteq> d) (t @ d # r) = t" "dropWhile (\<lambda>c. c \<noteq> d) (t @ d # r) = d # r"
    using assms(2) by (induction t) auto
  have t': "takeWhile (\<lambda>c. c \<noteq> d) t = t" "dropWhile (\<lambda>c. c \<noteq> d) t = []"
    using assms(2) by (induction t) auto
  have n: "tokens_of [d] [] = []" by (subst tokens_of.simps) simp
  show "tokens_of [d] t = [t]" using h [of "[]"] assms(1) n by (subst tokens_of.simps) (simp add: t' del: dropWhile_eq_self_iff)
  have "tokens_of [d] (d # r) = tokens_of [d] r"
    by (subst (1 2) tokens_of.simps) simp
  then show "tokens_of [d] (t @ d # r) = t # tokens_of [d] r"
    using h [of "d # r"] t assms(1) by (subst tokens_of.simps) simp
qed

lemma tokens_of_join:
  "(\<And>t. t \<in> set ts \<Longrightarrow> t \<noteq> [] \<and> d \<notin> set t) \<Longrightarrow> tokens_of [d] (join_with d ts) = ts"
proof (induction d ts rule: join_with.induct)
  case (1 d)
  show ?case by (subst tokens_of.simps) simp
qed (simp_all add: tokens_of_token)

end
