(* ===== verification/File_Dict.thy ===== *)
theory File_Dict
  imports Split_Str Binary_Float
begin

text \<open>
  The dictionary classes of \<open>example/brpc/plugins/dict\<close>: the interface \<open>DictBase\<close>, its two
  file-backed implementations \<open>CommonFileDict<K, V, std::map>\<close> and \<open>OfferBidRatio\<close>, and the
  registration of both for the same file (\<open>common/dicts.cpp\<close>). The conversions
  \<open>boost::lexical_cast<T>\<close> are arguments; the file system is an argument too.
\<close>

subsection \<open>Files\<close>

text \<open>
  What \<open>stat\<close> and \<open>std::ifstream\<close> see under a path: nothing, something that is no regular
  file, a regular file that cannot be opened for reading, or a readable regular file with its
  modification time and contents.
\<close>

datatype file_node = Missing | Not_regular int | Unreadable int | Regular int string

type_synonym file_system = "string \<Rightarrow> file_node"

text \<open>The values \<open>std::getline\<close> leaves in \<open>line\<close> until \<open>eof()\<close>: the last one is the text after
  the last newline, empty when the file ends with a newline.\<close>

fun getlines :: "string \<Rightarrow> string list" where
  "getlines [] = [[]]"
| "getlines (c # cs) =
     (if c = CHR 0x0A then [] # getlines cs
      else case getlines cs of [] \<Rightarrow> [[c]] | l # ls \<Rightarrow> (c # l) # ls)"

definition lexical_cast :: "(string \<Rightarrow> 'a cast_result) \<Rightarrow> string \<Rightarrow> 'a cxx" where
  "lexical_cast cast s =
     (case cast s of Cast v \<Rightarrow> Inr v | Bad_lexical_cast \<Rightarrow> Inl (Throws ''boost::bad_lexical_cast'')
      | Invalid_argument \<Rightarrow> Inl (Throws ''std::invalid_argument''))"

fun fold_cxx :: "('a \<Rightarrow> 's \<Rightarrow> 's cxx) \<Rightarrow> 'a list \<Rightarrow> 's \<Rightarrow> 's cxx" where
  "fold_cxx f [] s = Inr s"
| "fold_cxx f (x # xs) s = bind_cxx (f x s) (fold_cxx f xs)"

subsection \<open>DictBase\<close>

text \<open>The virtual functions of \<open>DictBase\<close>, and the constructor that takes the file name.\<close>

record 'd dict_class =
  construct :: "string \<Rightarrow> 'd"
  init :: "'d \<Rightarrow> bool \<times> 'd"
  load :: "file_system \<Rightarrow> 'd \<Rightarrow> (bool \<times> 'd) cxx"
  get_cur_file :: "'d \<Rightarrow> string"

subsection \<open>CommonFileDict\<close>

record ('k, 'v) CommonFileDict =
  common_dict_file :: string
  key_value_mapping :: "'k \<Rightarrow> 'v option"

definition CommonFileDict_new :: "string \<Rightarrow> ('k, 'v) CommonFileDict" where
  "CommonFileDict_new file = \<lparr>common_dict_file = file, key_value_mapping = Map.empty\<rparr>"

definition CommonFileDict_init :: "('k, 'v) CommonFileDict \<Rightarrow> bool \<times> ('k, 'v) CommonFileDict" where
  "CommonFileDict_init d = (True, d)"

definition common_line ::
  "(string \<Rightarrow> 'k cast_result) \<Rightarrow> (string \<Rightarrow> 'v cast_result) \<Rightarrow> string \<Rightarrow> ('k \<Rightarrow> 'v option) \<Rightarrow> ('k \<Rightarrow> 'v option) cxx" where
  "common_line castK castV line m =
     (if line = [] then Inr m
      else bind_cxx (split_new_v1 String_type Cast line [CHR 0x09] []) (\<lambda>(n, items).
           if length items < 2 then Inr m
           else bind_cxx (lexical_cast castK (items ! 0)) (\<lambda>key.
                bind_cxx (lexical_cast castV (items ! 1)) (\<lambda>value. Inr (m(key \<mapsto> value))))))"

definition CommonFileDict_load ::
  "(string \<Rightarrow> 'k cast_result) \<Rightarrow> (string \<Rightarrow> 'v cast_result) \<Rightarrow> file_system \<Rightarrow> ('k, 'v) CommonFileDict \<Rightarrow>
   (bool \<times> ('k, 'v) CommonFileDict) cxx" where
  "CommonFileDict_load castK castV fs d =
     (case fs (common_dict_file d) of
        Missing \<Rightarrow> Inr (False, d)
      | Not_regular t \<Rightarrow> Inr (False, d)
      | Unreadable t \<Rightarrow> Inr (False, d)
      | Regular t content \<Rightarrow>
          bind_cxx (fold_cxx (common_line castK castV) (getlines content) (key_value_mapping d))
            (\<lambda>m. Inr (True, d\<lparr>key_value_mapping := m\<rparr>)))"

definition CommonFileDict_get_key :: "'v \<Rightarrow> ('k, 'v) CommonFileDict \<Rightarrow> 'k \<Rightarrow> 'v" where
  "CommonFileDict_get_key V d key = (case key_value_mapping d key of Some v \<Rightarrow> v | None \<Rightarrow> V)"

definition CommonFileDict_get_cur_file :: "('k, 'v) CommonFileDict \<Rightarrow> string" where
  "CommonFileDict_get_cur_file d = common_dict_file d"

definition CommonFileDict_class ::
  "(string \<Rightarrow> 'k cast_result) \<Rightarrow> (string \<Rightarrow> 'v cast_result) \<Rightarrow> ('k, 'v) CommonFileDict dict_class" where
  "CommonFileDict_class castK castV =
     \<lparr>construct = CommonFileDict_new, init = CommonFileDict_init, load = CommonFileDict_load castK castV,
      get_cur_file = CommonFileDict_get_cur_file\<rparr>"

subsection \<open>OfferBidRatio\<close>

text \<open>A \<open>double\<close>: a finite value, or an infinity or NaN (\<open>None\<close>), which no integer type holds.\<close>

type_synonym double = "bfloat option"

definition int64_of_double :: "double \<Rightarrow> 64 word cxx" where
  "int64_of_double d =
     (case d of None \<Rightarrow> Inl Undefined_conversion
      | Some x \<Rightarrow> if - (2 ^ 63) \<le> fl_trunc x \<and> fl_trunc x < 2 ^ 63 then Inr (word_of_int (fl_trunc x))
                  else Inl Undefined_conversion)"

record OfferBidRatio =
  offer_dict_file :: string
  offer_exp_ratio :: "64 word \<Rightarrow> double option"

definition OfferBidRatio_new :: "string \<Rightarrow> OfferBidRatio" where
  "OfferBidRatio_new file = \<lparr>offer_dict_file = file, offer_exp_ratio = Map.empty\<rparr>"

definition OfferBidRatio_init :: "OfferBidRatio \<Rightarrow> bool \<times> OfferBidRatio" where
  "OfferBidRatio_init d = (True, d)"

text \<open>\<open>std::map::emplace\<close> keeps an entry that is already there.\<close>

definition emplace :: "('k \<Rightarrow> 'v option) \<Rightarrow> 'k \<Rightarrow> 'v \<Rightarrow> ('k \<Rightarrow> 'v option)" where
  "emplace m k v = (case m k of None \<Rightarrow> m(k \<mapsto> v) | Some u \<Rightarrow> m)"

definition offer_line ::
  "(string \<Rightarrow> double cast_result) \<Rightarrow> string \<Rightarrow> (64 word \<Rightarrow> double option) \<Rightarrow> (64 word \<Rightarrow> double option) cxx" where
  "offer_line castD line m =
     (if line = [] then Inr m
      else bind_cxx (split_new_v1 Number_type castD line [CHR 0x09] []) (\<lambda>(n, items).
           if length items < 2 then Inr m
           else bind_cxx (int64_of_double (items ! 0)) (\<lambda>key. Inr (emplace m key (items ! 1)))))"

definition OfferBidRatio_load ::
  "(string \<Rightarrow> double cast_result) \<Rightarrow> file_system \<Rightarrow> OfferBidRatio \<Rightarrow> (bool \<times> OfferBidRatio) cxx" where
  "OfferBidRatio_load castD fs d =
     (case fs (offer_dict_file d) of
        Missing \<Rightarrow> Inr (False, d)
      | Not_regular t \<Rightarrow> Inr (False, d)
      | Unreadable t \<Rightarrow> Inr (False, d)
      | Regular t content \<Rightarrow>
          bind_cxx (fold_cxx (offer_line castD) (getlines content) (offer_exp_ratio d))
            (\<lambda>m. Inr (True, d\<lparr>offer_exp_ratio := m\<rparr>)))"

definition OfferBidRatio_get_key :: "OfferBidRatio \<Rightarrow> 64 word \<Rightarrow> double" where
  "OfferBidRatio_get_key d key =
     (case offer_exp_ratio d key of Some v \<Rightarrow> v | None \<Rightarrow> Some \<lparr>mant = 0, expo = 0\<rparr>)"

definition OfferBidRatio_get_cur_file :: "OfferBidRatio \<Rightarrow> string" where
  "OfferBidRatio_get_cur_file d = offer_dict_file d"

definition OfferBidRatio_class :: "(string \<Rightarrow> double cast_result) \<Rightarrow> OfferBidRatio dict_class" where
  "OfferBidRatio_class castD =
     \<lparr>construct = OfferBidRatio_new, init = OfferBidRatio_init, load = OfferBidRatio_load castD,
      get_cur_file = OfferBidRatio_get_cur_file\<rparr>"

subsection \<open>The registered dictionaries\<close>

text \<open>The two classes \<open>dicts.cpp\<close> registers, behind \<open>std::shared_ptr<DictBase>\<close>.\<close>

datatype dict_object = Offer OfferBidRatio | Common "(64 word, double) CommonFileDict"

definition object_init :: "dict_object \<Rightarrow> bool \<times> dict_object" where
  "object_init x =
     (case x of Offer d \<Rightarrow> map_prod id Offer (OfferBidRatio_init d)
      | Common d \<Rightarrow> map_prod id Common (CommonFileDict_init d))"

definition object_load ::
  "(string \<Rightarrow> 64 word cast_result) \<Rightarrow> (string \<Rightarrow> double cast_result) \<Rightarrow> file_system \<Rightarrow> dict_object \<Rightarrow>
   (bool \<times> dict_object) cxx" where
  "object_load castI castD fs x =
     (case x of Offer d \<Rightarrow> map_sum id (map_prod id Offer) (OfferBidRatio_load castD fs d)
      | Common d \<Rightarrow> map_sum id (map_prod id Common) (CommonFileDict_load castI castD fs d))"

definition object_cur_file :: "dict_object \<Rightarrow> string" where
  "object_cur_file x =
     (case x of Offer d \<Rightarrow> OfferBidRatio_get_cur_file d | Common d \<Rightarrow> CommonFileDict_get_cur_file d)"

definition object_class ::
  "(string \<Rightarrow> 64 word cast_result) \<Rightarrow> (string \<Rightarrow> double cast_result) \<Rightarrow> (string \<Rightarrow> dict_object) \<Rightarrow>
   dict_object dict_class" where
  "object_class castI castD mk =
     \<lparr>construct = mk, init = object_init, load = object_load castI castD, get_cur_file = object_cur_file\<rparr>"

subsection \<open>The DictBase contract\<close>

text \<open>
  What the dictionary manager relies on: a freshly constructed dictionary names the file it was
  constructed with, and neither \<open>init\<close> nor \<open>load\<close> changes that name.
\<close>

locale dict_base =
  fixes C :: "'d dict_class"
  assumes construct_file: "get_cur_file C (construct C file) = file"
    and init_file: "get_cur_file C (snd (init C d)) = get_cur_file C d"
    and load_file: "load C fs d = Inr (b, d') \<Longrightarrow> get_cur_file C d' = get_cur_file C d"
begin

text \<open>A dictionary that is constructed, initialised and loaded still names its file.\<close>

lemma fresh_loaded_file:
  "load C fs (snd (init C (construct C file))) = Inr (b, d) \<Longrightarrow> get_cur_file C d = file"
  by (metis construct_file init_file load_file)

end

text \<open>The classes of the program also report success from \<open>init\<close>.\<close>

locale dict_base_true = dict_base +
  assumes init_true: "fst (init C d)"

lemma common_load_file:
  "CommonFileDict_load castK castV fs d = Inr (b, d') \<Longrightarrow> common_dict_file d' = common_dict_file d"
  by (auto simp: CommonFileDict_load_def bind_cxx_eq_Inr split: file_node.splits)

lemma offer_load_file:
  "OfferBidRatio_load castD fs d = Inr (b, d') \<Longrightarrow> offer_dict_file d' = offer_dict_file d"
  by (auto simp: OfferBidRatio_load_def bind_cxx_eq_Inr split: file_node.splits)

interpretation common: dict_base_true "CommonFileDict_class castK castV"
  by unfold_locales
    (auto simp: CommonFileDict_class_def CommonFileDict_new_def CommonFileDict_init_def
      CommonFileDict_get_cur_file_def dest: common_load_file)

interpretation offer: dict_base_true "OfferBidRatio_class castD"
  by unfold_locales
    (auto simp: OfferBidRatio_class_def OfferBidRatio_new_def OfferBidRatio_init_def
      OfferBidRatio_get_cur_file_def dest: offer_load_file)

lemmas object_defs = object_class_def object_init_def object_load_def object_cur_file_def
  OfferBidRatio_get_cur_file_def CommonFileDict_get_cur_file_def OfferBidRatio_init_def CommonFileDict_init_def
  OfferBidRatio_new_def CommonFileDict_new_def

lemma map_sum_eq_Inr: "map_sum f g m = Inr y \<longleftrightarrow> (\<exists>x. m = Inr x \<and> y = g x)"
  by (cases m) auto

lemma object_load_file:
  "object_load castI castD fs x = Inr (b, x') \<Longrightarrow> object_cur_file x' = object_cur_file x"
  by (auto simp: object_defs map_sum_eq_Inr split: dict_object.splits dest: offer_load_file common_load_file)

interpretation offer_object: dict_base_true "object_class castI castD (\<lambda>f. Offer (OfferBidRatio_new f))"
  by unfold_locales (auto simp: object_class_def object_load_file, auto simp: object_defs split: dict_object.splits)

interpretation common_object: dict_base_true "object_class castI castD (\<lambda>f. Common (CommonFileDict_new f))"
  by unfold_locales (auto simp: object_class_def object_load_file, auto simp: object_defs split: dict_object.splits)

subsection \<open>Files of key/value lines\<close>

definition entry_line :: "string \<times> string \<Rightarrow> string" where
  "entry_line e = join_with (CHR 0x09) [fst e, snd e]"

definition dict_text :: "(string \<times> string) list \<Rightarrow> string" where
  "dict_text es = join_with (CHR 0x0A) (map entry_line es)"

definition plain_token :: "string \<Rightarrow> bool" where
  "plain_token t \<longleftrightarrow> t \<noteq> [] \<and> CHR 0x09 \<notin> set t \<and> CHR 0x0A \<notin> set t"

lemma getlines_nonempty [simp]: "getlines s \<noteq> []"
  by (cases s) (auto split: list.splits)

lemma getlines_no_newline: "CHR 0x0A \<notin> set l \<Longrightarrow> getlines l = [l]"
  by (induction l) auto

lemma getlines_append: "CHR 0x0A \<notin> set l \<Longrightarrow> getlines (l @ CHR 0x0A # s) = l # getlines s"
  by (induction l) (auto split: list.splits)

lemma getlines_join:
  "ls \<noteq> [] \<Longrightarrow> (\<And>l. l \<in> set ls \<Longrightarrow> CHR 0x0A \<notin> set l) \<Longrightarrow> getlines (join_with (CHR 0x0A) ls) = ls"
proof (induction "CHR 0x0A" ls rule: join_with.induct)
  case (2 t)
  then show ?case by (simp add: getlines_no_newline)
next
  case (3 t u ts)
  then show ?case by (simp add: getlines_append)
qed simp

lemma fold_cxx_getlines:
  assumes "\<And>m. f [] m = Inr m" and "\<And>e. e \<in> set es \<Longrightarrow> CHR 0x0A \<notin> set (entry_line e)"
  shows "fold_cxx f (getlines (dict_text es)) m = fold_cxx f (map entry_line es) m"
proof (cases "es = []")
  case True
  then show ?thesis using assms(1) by (simp add: dict_text_def)
next
  case False
  then show ?thesis using assms(2) by (subst dict_text_def, subst getlines_join) auto
qed

lemma entry_tokens:
  "plain_token (fst e) \<Longrightarrow> plain_token (snd e) \<Longrightarrow> tokens_of [CHR 0x09] (entry_line e) = [fst e, snd e]"
  unfolding entry_line_def by (rule tokens_of_join) (auto simp: plain_token_def)

lemma entry_line_plain:
  "plain_token (fst e) \<Longrightarrow> plain_token (snd e) \<Longrightarrow> entry_line e \<noteq> [] \<and> CHR 0x0A \<notin> set (entry_line e)"
  by (auto simp: entry_line_def plain_token_def)

lemma common_line_entry:
  assumes "plain_token (fst e)" "plain_token (snd e)" "castK (fst e) = Cast k" "castV (snd e) = Cast v"
  shows "common_line castK castV (entry_line e) m = Inr (m(k \<mapsto> v))"
  using entry_line_plain [OF assms(1,2)] assms
  by (simp add: common_line_def split_strings entry_tokens lexical_cast_def)

lemma offer_line_entry:
  assumes "plain_token (fst e)" "plain_token (snd e)" "castD (fst e) = Cast d" "int64_of_double d = Inr k"
    "castD (snd e) = Cast v"
  shows "offer_line castD (entry_line e) m = Inr (emplace m k v)"
  using entry_line_plain [OF assms(1,2)] assms
  by (simp add: offer_line_def split_new_v1_eq entry_tokens token_values_def)

lemma fold_common_entries:
  assumes "\<And>e. e \<in> set es \<Longrightarrow> plain_token (fst e) \<and> plain_token (snd e) \<and>
    castK (fst e) = Cast (kf e) \<and> castV (snd e) = Cast (vf e)"
  shows "fold_cxx (common_line castK castV) (map entry_line es) m =
    Inr (m ++ map_of (rev (map (\<lambda>e. (kf e, vf e)) es)))"
  using assms by (induction es arbitrary: m) (simp_all add: common_line_entry map_add_def fun_eq_iff split: option.splits)

lemma fold_offer_entries:
  assumes "\<And>e. e \<in> set es \<Longrightarrow> plain_token (fst e) \<and> plain_token (snd e) \<and>
    (\<exists>d. castD (fst e) = Cast d \<and> int64_of_double d = Inr (kf e)) \<and> castD (snd e) = Cast (vf e)"
  shows "fold_cxx (offer_line castD) (map entry_line es) m = Inr (map_of (map (\<lambda>e. (kf e, vf e)) es) ++ m)"
  using assms
proof (induction es arbitrary: m)
  case (Cons e es)
  then obtain d where d: "castD (fst e) = Cast d" "int64_of_double d = Inr (kf e)"
    using Cons(2) [of e] by (meson list.set_intros(1))
  have "offer_line castD (entry_line e) m = Inr (emplace m (kf e) (vf e))"
    using Cons(2) [of e] d by (auto intro!: offer_line_entry)
  moreover have "map_of (map (\<lambda>e. (kf e, vf e)) es) ++ emplace m (kf e) (vf e) =
      (map_of (map (\<lambda>e. (kf e, vf e)) (e # es)) ++ m)"
    by (auto simp: emplace_def map_add_def fun_eq_iff split: option.splits)
  ultimately show ?case using Cons by (simp add: fun_upd_def)
qed simp

lemma common_load_text:
  assumes "fs (common_dict_file d) = Regular t (dict_text es)"
    and "\<And>e. e \<in> set es \<Longrightarrow> plain_token (fst e) \<and> plain_token (snd e) \<and>
    castK (fst e) = Cast (kf e) \<and> castV (snd e) = Cast (vf e)"
  shows "CommonFileDict_load castK castV fs d =
    Inr (True, d\<lparr>key_value_mapping := key_value_mapping d ++ map_of (rev (map (\<lambda>e. (kf e, vf e)) es))\<rparr>)"
proof -
  have "fold_cxx (common_line castK castV) (getlines (dict_text es)) m =
      Inr (m ++ map_of (rev (map (\<lambda>e. (kf e, vf e)) es)))" for m
    by (subst fold_cxx_getlines) (auto simp: common_line_def fold_common_entries assms(2) entry_line_plain)
  then show ?thesis by (simp add: CommonFileDict_load_def assms(1))
qed

lemma offer_load_text:
  assumes "fs (offer_dict_file d) = Regular t (dict_text es)"
    and "\<And>e. e \<in> set es \<Longrightarrow> plain_token (fst e) \<and> plain_token (snd e) \<and>
    (\<exists>d. castD (fst e) = Cast d \<and> int64_of_double d = Inr (kf e)) \<and> castD (snd e) = Cast (vf e)"
  shows "OfferBidRatio_load castD fs d =
    Inr (True, d\<lparr>offer_exp_ratio := map_of (map (\<lambda>e. (kf e, vf e)) es) ++ offer_exp_ratio d\<rparr>)"
proof -
  have "fold_cxx (offer_line castD) (getlines (dict_text es)) m = Inr (map_of (map (\<lambda>e. (kf e, vf e)) es) ++ m)" for m
    using assms(2) by (subst fold_cxx_getlines) (simp add: offer_line_def, simp add: entry_line_plain, rule fold_offer_entries)
  then show ?thesis by (simp add: OfferBidRatio_load_def assms(1))
qed

end
