(* ===== verification/Dict_Manager.thy ===== *)
theory Dict_Manager
  imports File_Dict
begin

text \<open>
  \<open>DictManager\<close> (\<open>example/brpc/plugins/dict/dict_manager.h\<close>, \<open>.cpp\<close>): registration of the
  dictionaries, the parallel load at start-up with its thread, and the hourly check that is to
  reload a dictionary whose file has changed. The virtual functions of the dictionary objects
  are a \<^typ>\<open>'d dict_class\<close>; the clock, the file system, the scheduling of the loader threads
  and Boost's property trees are arguments.
\<close>

subsection \<open>State\<close>

record DictConfig =
  file_path :: string
  conf_dict_name :: string
  generator_name :: string

record 'd DictHander =
  dict_name :: string
  dict_file_path :: string
  dicts :: "'d option list"
  cur_index :: int
  cfunc :: "unit \<Rightarrow> 'd option"
  modify_time :: int
  load_finish_time :: int

record 'd DictManager =
  dict_config_vect :: "DictConfig list"
  dict_hander_vect :: "'d DictHander option list"

text \<open>\<open>std::make_shared<DictHander>()\<close> zero-initialises the members.\<close>

definition DictHander_new :: "'d DictHander" where
  "DictHander_new = \<lparr>dict_name = [], dict_file_path = [], dicts = [None, None], cur_index = 0,
     cfunc = (\<lambda>_. None), modify_time = 0, load_finish_time = 0\<rparr>"

definition slot :: "'d DictHander \<Rightarrow> int \<Rightarrow> 'd option cxx" where
  "slot h i = (if 0 \<le> i \<and> nat i < length (dicts h) then Inr (dicts h ! nat i) else Inl Invalid_access)"

definition set_slot :: "int \<Rightarrow> 'd option \<Rightarrow> 'd DictHander \<Rightarrow> 'd DictHander" where
  "set_slot i d h = h\<lparr>dicts := (dicts h)[nat i := d]\<rparr>"

subsection \<open>Modification times\<close>

text \<open>
  Modification times of the file system are in nanoseconds. The conversion subtracts
  \<open>file_clock::now()\<close> and adds \<open>system_clock::now()\<close>; the two calls happen at different moments
  and their distance is \<open>skew\<close>. \<open>to_time_t\<close> truncates to seconds.
\<close>

definition to_time_t :: "int \<Rightarrow> int" where
  "to_time_t ns = sgn ns * (\<bar>ns\<bar> div 1000000000)"

definition get_file_last_mtime :: "file_system \<Rightarrow> int \<Rightarrow> string \<Rightarrow> int" where
  "get_file_last_mtime fs skew file =
     (if file = [] then 0
      else case fs file of
             Missing \<Rightarrow> 0
           | Not_regular t \<Rightarrow> to_time_t (t + skew)
           | Unreadable t \<Rightarrow> to_time_t (t + skew)
           | Regular t content \<Rightarrow> to_time_t (t + skew))"

subsection \<open>Registration\<close>

definition register_dict ::
  "'d dict_class \<Rightarrow> string \<Rightarrow> string \<Rightarrow> 'd DictHander option \<Rightarrow> 'd DictManager \<Rightarrow> 'd DictManager" where
  "register_dict T name path info M =
     (case info of
        None \<Rightarrow> M
      | Some h \<Rightarrow>
          M\<lparr>dict_hander_vect := dict_hander_vect M @
             [Some (h\<lparr>dict_name := name, dict_file_path := path, modify_time := 0,
                      cfunc := (\<lambda>_. Some (construct T path))\<rparr>)]\<rparr>)"

text \<open>\<open>DEFINE_DICT_REGISTER_BASE\<close>: a constructor function makes a handler and registers it.\<close>

definition DEFINE_DICT_REGISTER_BASE :: "'d dict_class \<Rightarrow> string \<Rightarrow> string \<Rightarrow> 'd DictManager \<Rightarrow> 'd DictManager" where
  "DEFINE_DICT_REGISTER_BASE T path name M = register_dict T name path (Some DictHander_new) M"

definition DictManager_new :: "'d DictManager" where
  "DictManager_new = \<lparr>dict_config_vect = [], dict_hander_vect = []\<rparr>"

definition offer_bid_ratio_path :: string where
  "offer_bid_ratio_path = ''./conf/dicts/offer_bid_ratio.txt''"

text \<open>The two registrations of \<open>common/dicts.cpp\<close>, which run before \<open>main\<close>.\<close>

definition registered_dicts ::
  "(string \<Rightarrow> 64 word cast_result) \<Rightarrow> (string \<Rightarrow> double cast_result) \<Rightarrow> dict_object DictManager" where
  "registered_dicts castI castD =
     DEFINE_DICT_REGISTER_BASE (object_class castI castD (\<lambda>f. Common (CommonFileDict_new f)))
       offer_bid_ratio_path ''common_dict_info_offer''
       (DEFINE_DICT_REGISTER_BASE (object_class castI castD (\<lambda>f. Offer (OfferBidRatio_new f)))
         offer_bid_ratio_path ''offer_bid_ratio'' DictManager_new)"

subsection \<open>The periodic check\<close>

text \<open>What one iteration of the inner loop of \<open>check\<close> sees: the clock, the file system and the
  clock skew, and the clock again after a load.\<close>

record check_env =
  now_t :: int
  files :: file_system
  skew :: int
  finish_t :: int

definition check_one :: "'d dict_class \<Rightarrow> check_env \<Rightarrow> 'd DictHander option \<Rightarrow> 'd DictHander option cxx" where
  "check_one C env dict =
     (case dict of
        None \<Rightarrow> Inr None
      | Some h \<Rightarrow>
          bind_cxx (slot h (cur_index h)) (\<lambda>cur.
          case cur of
            None \<Rightarrow> Inr (Some h)
          | Some cur_dict \<Rightarrow>
              bind_cxx (slot h (1 - cur_index h)) (\<lambda>bg.
              let bg_idx = 1 - cur_index h;
                  h1 = (if bg \<noteq> None \<and> now_t env - load_finish_time h > 300 then set_slot bg_idx None h else h);
                  new_mtime = get_file_last_mtime (files env) (skew env) (get_cur_file C cur_dict)
              in if new_mtime = modify_time h1 then Inr (Some h1)
                 else let h2 = set_slot bg_idx None h1
                      in case cfunc h2 () of
                           None \<Rightarrow> Inl Null_deref
                         | Some new_dict \<Rightarrow>
                             (case init C new_dict of (ok, d1) \<Rightarrow>
                                if ok then Inr (Some h2)
                                else bind_cxx (load C (files env) d1) (\<lambda>(loaded, d2).
                                     if \<not> loaded then Inr (Some h2)
                                     else Inr (Some ((set_slot bg_idx (Some d2) h2)\<lparr>modify_time := new_mtime,
                                            load_finish_time := finish_t env, cur_index := bg_idx\<rparr>)))))))"

text \<open>One pass over the handlers; the \<open>n\<close>-th iteration sees the \<open>n\<close>-th environment.\<close>

fun check_pass ::
  "'d dict_class \<Rightarrow> (nat \<Rightarrow> check_env) \<Rightarrow> nat \<Rightarrow> 'd DictHander option list \<Rightarrow> 'd DictHander option list cxx" where
  "check_pass C env n [] = Inr []"
| "check_pass C env n (d # ds) =
     bind_cxx (check_one C (env n) d) (\<lambda>d'. bind_cxx (check_pass C env (Suc n) ds) (\<lambda>ds'. Inr (d' # ds')))"

text \<open>The first \<open>k\<close> rounds of the endless loop. An exception ends the process.\<close>

fun check :: "'d dict_class \<Rightarrow> (nat \<Rightarrow> nat \<Rightarrow> check_env) \<Rightarrow> nat \<Rightarrow> 'd DictHander option list \<Rightarrow> 'd DictHander option list cxx" where
  "check C env 0 ds = Inr ds"
| "check C env (Suc k) ds = bind_cxx (noexcept_cxx (check_pass C (env k) 0 ds)) (check C env k)"

subsection \<open>Loading at start-up\<close>

text \<open>
  \<open>load_dict_by_thread\<close> ends without a \<open>return\<close> statement once the current dictionary is not
  null; \<open>falls_through\<close> says that the compiled code nevertheless returns to the scheduler.
  The result is what the thread writes to \<open>load_args->ret\<close>, and the handler.
\<close>

definition load_dict_by_thread ::
  "'d dict_class \<Rightarrow> bool \<Rightarrow> file_system \<Rightarrow> int \<Rightarrow> 'd DictHander \<Rightarrow> (int \<times> 'd DictHander) cxx" where
  "load_dict_by_thread C falls_through fs sk h =
     bind_cxx (slot h (cur_index h)) (\<lambda>cur_one.
     case cur_one of
       None \<Rightarrow> Inr (- 1, h)
     | Some d \<Rightarrow>
         let h1 = h\<lparr>modify_time := get_file_last_mtime fs sk (get_cur_file C d)\<rparr>
         in bind_cxx (load C fs d) (\<lambda>(ok, d').
            let h2 = set_slot (cur_index h1) (Some d') h1; ret = (if ok then 0 else - 1)
            in if falls_through then Inr (ret, h2) else Inl Missing_return))"

text \<open>
  When a loader thread writes its result: before the starting thread stores the result of
  \<open>bthread_start_background\<close> in the same variable, after that, or only after the starting
  thread has left the join loop, if it does not wait for this thread.
\<close>

datatype ret_write = Before_store | After_store | After_exit

record schedule =
  start_ret :: int
  ret_write :: ret_write
  load_files :: file_system
  load_skew :: int

record load_arg =
  arg_ret :: int
  unfinished :: bool

definition sync_load_one ::
  "'d dict_class \<Rightarrow> bool \<Rightarrow> schedule \<Rightarrow> 'd DictHander option \<Rightarrow> ('d DictHander option \<times> load_arg list) cxx" where
  "sync_load_one C falls_through s info =
     (case info of
        None \<Rightarrow> Inr (None, [])
      | Some h \<Rightarrow>
          bind_cxx (slot h (cur_index h)) (\<lambda>_.
          if dict_file_path h = [] then Inr (Some h, [])
          else case cfunc h () of
                 None \<Rightarrow> Inr (Some (set_slot (cur_index h) None h), [])
               | Some d \<Rightarrow>
                   let h1 = set_slot (cur_index h) (Some (snd (init C d))) h
                   in if start_ret s \<noteq> 0 then Inr (Some h1, [\<lparr>arg_ret = start_ret s, unfinished = False\<rparr>])
                      else bind_cxx (noexcept_cxx (load_dict_by_thread C falls_through (load_files s) (load_skew s) h1))
                             (\<lambda>(ret, h2). Inr (Some h2,
                               [\<lparr>arg_ret = (if ret_write s = Before_store then start_ret s else ret),
                                 unfinished = (ret_write s = After_exit)\<rparr>]))))"

fun sync_load_all ::
  "'d dict_class \<Rightarrow> bool \<Rightarrow> (nat \<Rightarrow> schedule) \<Rightarrow> nat \<Rightarrow> 'd DictHander option list \<Rightarrow>
   ('d DictHander option list \<times> load_arg list) cxx" where
  "sync_load_all C falls_through s n [] = Inr ([], [])"
| "sync_load_all C falls_through s n (d # ds) =
     bind_cxx (sync_load_one C falls_through (s n) d) (\<lambda>(d', args).
     bind_cxx (sync_load_all C falls_through s (Suc n) ds) (\<lambda>(ds', args'). Inr (d' # ds', args @ args')))"

text \<open>The join loop returns at the first failure. The threads behind it are not waited for and
  write to \<open>load_args\<close>, which is gone by then.\<close>

fun join_all :: "load_arg list \<Rightarrow> int cxx" where
  "join_all [] = Inr 0"
| "join_all (a # as) =
     (if arg_ret a \<noteq> 0 then (if list_ex unfinished as then Inl Invalid_access else Inr (- 1)) else join_all as)"

definition parallel_sync_load ::
  "'d dict_class \<Rightarrow> bool \<Rightarrow> (nat \<Rightarrow> schedule) \<Rightarrow> 'd DictManager \<Rightarrow> (int \<times> 'd DictManager) cxx" where
  "parallel_sync_load C falls_through s M =
     (if dict_hander_vect M = [] then Inr (0, M)
      else bind_cxx (sync_load_all C falls_through s 0 (dict_hander_vect M)) (\<lambda>(ds, args).
           let load_args = args @ replicate (length (dict_hander_vect M) - length args) \<lparr>arg_ret = 0, unfinished = False\<rparr>
           in bind_cxx (join_all load_args) (\<lambda>ret. Inr (ret, M\<lparr>dict_hander_vect := ds\<rparr>))))"

text \<open>\<open>run\<close> does not use the result of the load; \<open>thread_started\<close> says whether
  \<open>std::thread\<close> could start the check thread.\<close>

definition run ::
  "'d dict_class \<Rightarrow> bool \<Rightarrow> (nat \<Rightarrow> schedule) \<Rightarrow> bool \<Rightarrow> bool \<Rightarrow> 'd DictManager \<Rightarrow> (int \<times> 'd DictManager) cxx" where
  "run C falls_through s thread_started is_wait_all_done M =
     bind_cxx (parallel_sync_load C falls_through s M) (\<lambda>(ret, M').
     if thread_started then Inr (0, M') else Inr (- 1, M'))"

subsection \<open>Lookup and configuration\<close>

text \<open>\<open>GET_DICT\<close>: the current dictionary of a handler.\<close>

definition GET_DICT :: "'d DictHander option \<Rightarrow> 'd option cxx" where
  "GET_DICT info = (case info of None \<Rightarrow> Inl Null_deref | Some h \<Rightarrow> slot h (cur_index h))"

definition get_dict_info :: "string \<Rightarrow> 'd DictManager \<Rightarrow> 'd option cxx" where
  "get_dict_info name M = Inl Missing_return"

text \<open>The functions of \<open>boost::property_tree\<close> the program calls.\<close>

record 't ptree_lib =
  read_xml :: "string \<Rightarrow> 't cxx"
  get_child :: "'t \<Rightarrow> string \<Rightarrow> 't cxx"
  get_string :: "'t \<Rightarrow> string \<Rightarrow> string cxx"
  children :: "'t \<Rightarrow> (string \<times> 't) list"
  data :: "'t \<Rightarrow> string"

definition read_dict_config :: "'t ptree_lib \<Rightarrow> string \<times> 't \<Rightarrow> DictConfig list \<Rightarrow> DictConfig list cxx" where
  "read_dict_config L dict confs =
     (if fst dict = ''dict'' then
        bind_cxx (get_string L (snd dict) ''file'') (\<lambda>f.
        bind_cxx (get_string L (snd dict) ''name'') (\<lambda>n.
        bind_cxx (get_string L (snd dict) ''type'') (\<lambda>t.
          Inr (confs @ [\<lparr>file_path = f, conf_dict_name = n, generator_name = t\<rparr>]))))
      else Inr confs)"

definition DictManager_initialize :: "'t ptree_lib \<Rightarrow> 'd DictManager \<Rightarrow> 'd DictManager cxx" where
  "DictManager_initialize L M =
     noexcept_cxx (bind_cxx (read_xml L ''config.xml'') (\<lambda>pt.
       bind_cxx (get_child L pt ''dicts'') (\<lambda>ds.
       bind_cxx (fold_cxx (read_dict_config L) (children L ds) (dict_config_vect M)) (\<lambda>confs.
         Inr (M\<lparr>dict_config_vect := confs\<rparr>)))))"

subsection \<open>Invariant of the check thread\<close>

definition hander_ok :: "'d DictHander \<Rightarrow> bool" where
  "hander_ok h \<longleftrightarrow> length (dicts h) = 2 \<and> cur_index h \<in> {0, 1}"

definition current :: "'d DictHander \<Rightarrow> 'd option" where
  "current h = dicts h ! nat (cur_index h)"

text \<open>A handler in service: a reader that follows \<open>GET_DICT\<close> finds a dictionary, and the handler
  can make new ones.\<close>

definition serving :: "'d DictHander option \<Rightarrow> bool" where
  "serving x = (case x of None \<Rightarrow> False | Some h \<Rightarrow> hander_ok h \<and> current h \<noteq> None \<and> cfunc h () \<noteq> None)"

lemma hander_ok_cases:
  "hander_ok h \<Longrightarrow> (\<And>a b. dicts h = [a, b] \<Longrightarrow> cur_index h = 0 \<Longrightarrow> P) \<Longrightarrow>
   (\<And>a b. dicts h = [a, b] \<Longrightarrow> cur_index h = 1 \<Longrightarrow> P) \<Longrightarrow> P"
  by (auto simp: hander_ok_def numeral_2_eq_2 length_Suc_conv)

lemma slot_current [simp]: "hander_ok h \<Longrightarrow> slot h (cur_index h) = Inr (current h)"
  by (auto simp: hander_ok_def slot_def current_def)

lemma slot_background: "hander_ok h \<Longrightarrow> slot h (1 - cur_index h) = Inr (dicts h ! nat (1 - cur_index h))"
  by (auto simp: hander_ok_def slot_def)

lemma set_slot_simps [simp]:
  "cur_index (set_slot i d h) = cur_index h" "cfunc (set_slot i d h) = cfunc h"
  "modify_time (set_slot i d h) = modify_time h" "load_finish_time (set_slot i d h) = load_finish_time h"
  "dict_file_path (set_slot i d h) = dict_file_path h" "dict_name (set_slot i d h) = dict_name h"
  "hander_ok (set_slot i d h) = hander_ok h" "set_slot i d (set_slot i e h) = set_slot i d h"
  by (simp_all add: set_slot_def hander_ok_def)

lemma current_set_background [simp]: "hander_ok h \<Longrightarrow> current (set_slot (1 - cur_index h) d h) = current h"
  by (auto simp: hander_ok_def current_def set_slot_def)

lemma current_set_current [simp]: "hander_ok h \<Longrightarrow> current (set_slot (cur_index h) d h) = d"
  by (auto simp: hander_ok_def current_def set_slot_def)

lemma current_other_fields [simp]:
  "current (h\<lparr>modify_time := t\<rparr>) = current h" "current (h\<lparr>load_finish_time := t\<rparr>) = current h"
  "hander_ok (h\<lparr>modify_time := t\<rparr>) = hander_ok h" "hander_ok (h\<lparr>load_finish_time := t\<rparr>) = hander_ok h"
  by (simp_all add: current_def hander_ok_def)

lemma check_one_serving:
  assumes "serving x" "check_one C env x = Inr x'"
  shows "serving x'"
proof -
  obtain h where h: "x = Some h" "hander_ok h" and f: "cfunc h () \<noteq> None" and c: "current h \<noteq> None"
    using assms(1) by (auto simp: serving_def split: option.splits)
  from h(2) show ?thesis
    by (rule hander_ok_cases)
      (use assms(2) h f c in \<open>auto simp: check_one_def slot_def current_def serving_def hander_ok_def set_slot_def Let_def
        bind_cxx_eq_Inr split: option.splits if_splits prod.splits\<close>)
qed

lemma check_pass_serving:
  "list_all serving ds \<Longrightarrow> check_pass C env n ds = Inr ds' \<Longrightarrow> list_all serving ds' \<and> length ds' = length ds"
  by (induction ds arbitrary: n ds') (auto simp: bind_cxx_eq_Inr dest: check_one_serving)

lemma check_serving:
  "list_all serving ds \<Longrightarrow> check C env k ds = Inr ds' \<Longrightarrow> list_all serving ds' \<and> length ds' = length ds"
proof (induction k arbitrary: ds)
  case (Suc k)
  then obtain ds1 where "check_pass C (env k) 0 ds = Inr ds1" "check C env k ds1 = Inr ds'"
    by (auto simp: bind_cxx_eq_Inr)
  with Suc.IH [of ds1] check_pass_serving [of ds C "env k" 0 ds1] Suc.prems(1) show ?case by simp
qed simp

text \<open>Two handlers that serve the same dictionary and would notice the same change.\<close>

definition same_service :: "'d DictHander option \<Rightarrow> 'd DictHander option \<Rightarrow> bool" where
  "same_service x y =
     (case (x, y) of (Some h, Some h') \<Rightarrow>
          current h' = current h \<and> cur_index h' = cur_index h \<and> modify_time h' = modify_time h \<and>
          cfunc h' () = cfunc h ()
      | _ \<Rightarrow> x = y)"

lemma same_service_trans: "same_service x y \<Longrightarrow> same_service y z \<Longrightarrow> same_service x z"
  by (auto simp: same_service_def split: option.splits)

context dict_base_true
begin

text \<open>\<open>check\<close> compares the result of \<open>init\<close> with 0, so a class whose \<open>init\<close> reports success is
  never reloaded.\<close>

lemma check_one_no_reload:
  assumes "serving x"
  shows "\<exists>x'. check_one C env x = Inr x' \<and> same_service x x'"
proof -
  obtain h where h: "x = Some h" "hander_ok h" and f: "cfunc h () \<noteq> None" and c: "current h \<noteq> None"
    using assms by (auto simp: serving_def split: option.splits)
  from f c obtain n d where n: "cfunc h () = Some n" and d: "current h = Some d" by auto
  obtain d1 where i: "init C n = (True, d1)" using init_true [of n] by (cases "init C n") simp
  show ?thesis
    using h(2) by (simp add: check_one_def h(1) slot_background d n i same_service_def Let_def)
qed

lemma check_pass_no_reload:
  "list_all serving ds \<Longrightarrow> \<exists>ds'. check_pass C env n ds = Inr ds' \<and> list_all2 same_service ds ds'"
proof (induction ds arbitrary: n)
  case (Cons x ds)
  then obtain x' where "check_one C (env n) x = Inr x'" "same_service x x'" using check_one_no_reload by fastforce
  moreover obtain ds' where "check_pass C env (Suc n) ds = Inr ds'" "list_all2 same_service ds ds'"
    using Cons.IH [of "Suc n"] Cons.prems by auto
  ultimately show ?case by simp
qed simp

lemma check_no_reload:
  "list_all serving ds \<Longrightarrow> \<exists>ds'. check C env k ds = Inr ds' \<and> list_all2 same_service ds ds'"
proof (induction k arbitrary: ds)
  case 0
  show ?case by (auto simp: same_service_def list.rel_refl split: option.splits intro!: list.rel_refl)
next
  case (Suc k)
  obtain ds1 where 1: "check_pass C (env k) 0 ds = Inr ds1" "list_all2 same_service ds ds1"
    using check_pass_no_reload [OF Suc.prems] by blast
  have "list_all serving ds1" using check_pass_serving [OF Suc.prems 1(1)] by simp
  then obtain ds' where 2: "check C env k ds1 = Inr ds'" "list_all2 same_service ds1 ds'"
    using Suc.IH by blast
  have "list_all2 same_service ds ds'"
    using list_all2_trans [OF _ 1(2) 2(2)] same_service_trans by blast
  then show ?case using 1(1) 2(1) by simp
qed

end

end
