(* ===== verification/Dict_Theorems.thy ===== *)
theory Dict_Theorems
  imports Dict_Manager
begin

text \<open>
  Properties of the dictionary plug-in: tokenising, loading, start-up and the periodic check.
\<close>

subsection \<open>Registered dictionaries\<close>

definition registered_hander :: "string \<Rightarrow> dict_object \<Rightarrow> dict_object DictHander" where
  "registered_hander name d = DictHander_new\<lparr>dict_name := name, dict_file_path := offer_bid_ratio_path,
     modify_time := 0, cfunc := (\<lambda>_. Some d)\<rparr>"

lemma registered_vect:
  "dict_hander_vect (registered_dicts castI castD) =
     [Some (registered_hander ''offer_bid_ratio'' (Offer (OfferBidRatio_new offer_bid_ratio_path))),
      Some (registered_hander ''common_dict_info_offer'' (Common (CommonFileDict_new offer_bid_ratio_path)))]"
  by (simp add: registered_dicts_def DEFINE_DICT_REGISTER_BASE_def register_dict_def DictManager_new_def
      object_class_def registered_hander_def DictHander_new_def)

lemma registered_hander_simps [simp]:
  "hander_ok (registered_hander name d)" "cur_index (registered_hander name d) = 0"
  "dict_file_path (registered_hander name d) \<noteq> []" "cfunc (registered_hander name d) () = Some d"
  by (simp_all add: registered_hander_def DictHander_new_def hander_ok_def offer_bid_ratio_path_def)

lemma object_class_simps [simp]:
  "snd (init (object_class castI castD mk) x) = x" "fst (init (object_class castI castD mk) x)"
  "load (object_class castI castD mk) = object_load castI castD"
  by (auto simp: object_defs split: dict_object.splits)

lemma load_thread_object:
  assumes "hander_ok h" "current h = Some d" "object_load castI castD fs d = Inr (ok, d')"
  shows "\<exists>h'. load_dict_by_thread (object_class castI castD mk) True fs sk h = Inr (if ok then 0 else - 1, h') \<and>
    hander_ok h' \<and> current h' = Some d'"
proof -
  let ?h = "h\<lparr>modify_time := get_file_last_mtime fs sk (get_cur_file (object_class castI castD mk) d)\<rparr>"
  have "current (set_slot (cur_index h) (Some d') ?h) = Some d'"
    using current_set_current [of ?h "Some d'"] assms(1) by simp
  then show ?thesis using assms
    by (intro exI [of _ "set_slot (cur_index h) (Some d') ?h"]) (simp add: load_dict_by_thread_def Let_def)
qed

text \<open>One handler of \<open>dicts.cpp\<close> goes through the start-up.\<close>

lemma sync_load_registered:
  assumes "start_ret s = 0" "object_load castI castD (load_files s) d = Inr (ok, d')"
  shows "\<exists>h'. sync_load_one (object_class castI castD mk) True s (Some (registered_hander name d)) =
    Inr (Some h', [\<lparr>arg_ret = (if ret_write s = Before_store \<or> ok then 0 else - 1), unfinished = (ret_write s = After_exit)\<rparr>]) \<and>
    hander_ok h' \<and> current h' = Some d'"
proof -
  let ?h = "set_slot 0 (Some d) (registered_hander name d)"
  have "current ?h = Some d" using current_set_current [of "registered_hander name d" "Some d"] by simp
  then obtain h' where "load_dict_by_thread (object_class castI castD mk) True (load_files s) (load_skew s) ?h =
      Inr (if ok then 0 else - 1, h')" "hander_ok h'" "current h' = Some d'"
    using load_thread_object [of ?h d castI castD "load_files s" ok d' mk "load_skew s"] assms(2) by auto
  then show ?thesis using assms(1) slot_current [of "registered_hander name d"]
    by (simp add: sync_load_one_def Let_def)
qed

text \<open>The whole start-up of the two dictionaries of \<open>dicts.cpp\<close>.\<close>

lemma startup_registered:
  assumes "start_ret (s 0) = 0" "start_ret (s 1) = 0"
    and "object_load castI castD (load_files (s 0)) (Offer (OfferBidRatio_new offer_bid_ratio_path)) = Inr (ok0, d0)"
    and "object_load castI castD (load_files (s 1)) (Common (CommonFileDict_new offer_bid_ratio_path)) = Inr (ok1, d1)"
  obtains M' where
    "parallel_sync_load (object_class castI castD mk) True s (registered_dicts castI castD) =
       bind_cxx (join_all
         [\<lparr>arg_ret = (if ret_write (s 0) = Before_store \<or> ok0 then 0 else - 1), unfinished = (ret_write (s 0) = After_exit)\<rparr>,
          \<lparr>arg_ret = (if ret_write (s 1) = Before_store \<or> ok1 then 0 else - 1), unfinished = (ret_write (s 1) = After_exit)\<rparr>])
        (\<lambda>ret. Inr (ret, M'))"
    "map GET_DICT (dict_hander_vect M') = [Inr (Some d0), Inr (Some d1)]"
    "list_all (\<lambda>x. \<exists>h. x = Some h \<and> hander_ok h) (dict_hander_vect M')"
proof -
  let ?C = "object_class castI castD mk" and ?M = "registered_dicts castI castD"
  obtain h0 where 0: "sync_load_one ?C True (s 0) (dict_hander_vect ?M ! 0) =
      Inr (Some h0, [\<lparr>arg_ret = (if ret_write (s 0) = Before_store \<or> ok0 then 0 else - 1), unfinished = (ret_write (s 0) = After_exit)\<rparr>])"
      "hander_ok h0" "current h0 = Some d0"
    using sync_load_registered [OF assms(1) assms(3), of mk "''offer_bid_ratio''"] by (auto simp: registered_vect)
  obtain h1 where 1: "sync_load_one ?C True (s 1) (dict_hander_vect ?M ! 1) =
      Inr (Some h1, [\<lparr>arg_ret = (if ret_write (s 1) = Before_store \<or> ok1 then 0 else - 1), unfinished = (ret_write (s 1) = After_exit)\<rparr>])"
      "hander_ok h1" "current h1 = Some d1"
    using sync_load_registered [OF assms(2) assms(4), of mk "''common_dict_info_offer''"] by (auto simp: registered_vect)
  have "sync_load_all ?C True s 0 (dict_hander_vect ?M) = Inr ([Some h0, Some h1],
      [\<lparr>arg_ret = (if ret_write (s 0) = Before_store \<or> ok0 then 0 else - 1), unfinished = (ret_write (s 0) = After_exit)\<rparr>,
       \<lparr>arg_ret = (if ret_write (s 1) = Before_store \<or> ok1 then 0 else - 1), unfinished = (ret_write (s 1) = After_exit)\<rparr>])"
    using 0(1) 1(1) by (simp add: registered_vect)
  moreover have "dict_hander_vect ?M \<noteq> []" "length (dict_hander_vect ?M) = 2" by (simp_all add: registered_vect)
  ultimately show thesis
    using 0(2,3) 1(2,3) by (intro that [of "?M\<lparr>dict_hander_vect := [Some h0, Some h1]\<rparr>"])
      (simp_all add: parallel_sync_load_def Let_def GET_DICT_def del: join_all.simps)
qed

subsection \<open>Tokenising\<close>

text \<open>
  C27: whatever the conversion does, \<open>split_new_v1\<close> appends the conversions of the
  maximal delimiter-free runs of the line in order, returns how many runs there are, and fails
  exactly as the first conversion that fails does.
\<close>

theorem split_equivalence:
  "split_new_v1 T cast line delims tokens =
   bind_cxx (cast_all T cast (tokens_of delims line))
     (\<lambda>vs. Inr (int (length (tokens_of delims line)), tokens @ vs))"
  by (rule split_new_v1_eq)

text \<open>
  \<open>boost::lexical_cast\<close> reports a malformed number as
  \<open>boost::bad_lexical_cast\<close>, never as \<open>std::invalid_argument\<close>. So the handler of
  \<open>split_new_v1\<close> is dead and one malformed number on a line of at least one more token
  leaves \<open>OfferBidRatio::load\<close> with an exception, whatever the rest of the file holds after it.
\<close>

theorem split_bad_number:
  assumes "\<And>u. castD u \<noteq> Invalid_argument"
    and "plain_token k" and "plain_token v" and "castD k = Bad_lexical_cast \<or> castD v = Bad_lexical_cast"
    and "fs (offer_dict_file d) = Regular t (entry_line (k, v) @ CHR 0x0A # rest)"
  shows "OfferBidRatio_load castD fs d = Inl (Throws ''boost::bad_lexical_cast'')"
proof -
  have "cast_all Number_type castD [k, v] = Inl (Throws ''boost::bad_lexical_cast'')"
    using assms(1,4) cast_all_bad [of castD k "[k, v]"] cast_all_bad [of castD v "[k, v]"] by auto
  then have "offer_line castD (entry_line (k, v)) m = Inl (Throws ''boost::bad_lexical_cast'')" for m
    using entry_tokens [of "(k, v)"] entry_line_plain [of "(k, v)"] assms(2,3)
    by (simp add: offer_line_def split_new_v1_eq del: cast_all.simps)
  moreover have "getlines (entry_line (k, v) @ CHR 0x0A # rest) = entry_line (k, v) # getlines rest"
    using entry_line_plain [of "(k, v)"] assms(2,3) by (simp add: getlines_append)
  ultimately show ?thesis by (simp add: OfferBidRatio_load_def assms(5))
qed

definition digit_cast :: "string \<Rightarrow> double cast_result" where
  "digit_cast t = (if t = ''1'' then Cast (Some \<lparr>mant = 1, expo = 0\<rparr>)
     else if t = ''2'' then Cast (Some \<lparr>mant = 2, expo = 0\<rparr>) else Bad_lexical_cast)"

theorem split_bad_number_witness:
  "OfferBidRatio_load digit_cast (\<lambda>_. Regular 0 ([CHR ''1'', CHR 0x09, CHR ''x'', CHR 0x0A] @ ''rest''))
     (OfferBidRatio_new ''f'') = Inl (Throws ''boost::bad_lexical_cast'')"
proof -
  have "entry_line (''1'', ''x'') @ CHR 0x0A # ''rest'' = [CHR ''1'', CHR 0x09, CHR ''x'', CHR 0x0A] @ ''rest''"
    by (simp add: entry_line_def)
  then show ?thesis
    using split_bad_number [of digit_cast "''1''" "''x''"
        "\<lambda>_. Regular 0 ([CHR ''1'', CHR 0x09, CHR ''x'', CHR 0x0A] @ ''rest'')" "OfferBidRatio_new ''f''" 0 "''rest''"]
    by (simp add: digit_cast_def plain_token_def)
qed

subsection \<open>Start-up\<close>

text \<open>The entries of a file are well formed: keys and values are plain tokens, keys read as the
  same integer through \<open>int64_t\<close> and through \<open>double\<close>, values as the same \<open>double\<close>.\<close>

definition good_entry ::
  "(string \<Rightarrow> 64 word cast_result) \<Rightarrow> (string \<Rightarrow> double cast_result) \<Rightarrow> (string \<Rightarrow> 64 word) \<Rightarrow>
   (string \<Rightarrow> double) \<Rightarrow> string \<times> string \<Rightarrow> bool" where
  "good_entry castI castD kf vf e \<longleftrightarrow>
     plain_token (fst e) \<and> plain_token (snd e) \<and> castI (fst e) = Cast (kf (fst e)) \<and>
     (case castD (fst e) of Cast d \<Rightarrow> int64_of_double d = Inr (kf (fst e)) | _ \<Rightarrow> False) \<and>
     castD (snd e) = Cast (vf (snd e))"

lemma good_entryD:
  "good_entry castI castD kf vf e \<Longrightarrow>
   plain_token (fst e) \<and> plain_token (snd e) \<and> castI (fst e) = Cast (kf (fst e)) \<and>
   (\<exists>d. castD (fst e) = Cast d \<and> int64_of_double d = Inr (kf (fst e))) \<and> castD (snd e) = Cast (vf (snd e))"
  by (cases "castD (fst e)") (auto simp: good_entry_def)

lemma object_load_good:
  assumes "\<forall>e \<in> set es. good_entry castI castD kf vf e"
    and "fs offer_bid_ratio_path = Regular t (dict_text es)"
  shows "object_load castI castD fs (Offer (OfferBidRatio_new offer_bid_ratio_path)) =
      Inr (True, Offer \<lparr>offer_dict_file = offer_bid_ratio_path,
        offer_exp_ratio = map_of (map (\<lambda>e. (kf (fst e), vf (snd e))) es)\<rparr>)" (is ?offer)
    and "object_load castI castD fs (Common (CommonFileDict_new offer_bid_ratio_path)) =
      Inr (True, Common \<lparr>common_dict_file = offer_bid_ratio_path,
        key_value_mapping = map_of (rev (map (\<lambda>e. (kf (fst e), vf (snd e))) es))\<rparr>)" (is ?common)
proof -
  note good = assms(1) [rule_format, THEN good_entryD]
  have "OfferBidRatio_load castD fs (OfferBidRatio_new offer_bid_ratio_path) =
      Inr (True, (OfferBidRatio_new offer_bid_ratio_path)\<lparr>offer_exp_ratio :=
        map_of (map (\<lambda>e. (kf (fst e), vf (snd e))) es) ++ offer_exp_ratio (OfferBidRatio_new offer_bid_ratio_path)\<rparr>)"
    using assms(2) good by (intro offer_load_text) (simp_all add: OfferBidRatio_new_def)
  then show ?offer by (simp add: object_load_def OfferBidRatio_new_def)
  have "CommonFileDict_load castI castD fs (CommonFileDict_new offer_bid_ratio_path) =
      Inr (True, (CommonFileDict_new offer_bid_ratio_path)\<lparr>key_value_mapping :=
        key_value_mapping (CommonFileDict_new offer_bid_ratio_path) ++
        map_of (rev (map (\<lambda>e. (kf (fst e), vf (snd e))) es))\<rparr>)"
    using assms(2) good by (intro common_load_text) (simp_all add: CommonFileDict_new_def)
  then show ?common by (simp add: object_load_def CommonFileDict_new_def)
qed

lemma startup_loaded:
  assumes "\<forall>e \<in> set es. good_entry castI castD kf vf e"
    and "\<forall>n. start_ret (s n) = 0" and "\<forall>n. \<exists>t. load_files (s n) offer_bid_ratio_path = Regular t (dict_text es)"
  shows "\<exists>M'. run (object_class castI castD mk) True s True w (registered_dicts castI castD) = Inr (0, M') \<and>
    map GET_DICT (dict_hander_vect M') =
     [Inr (Some (Offer \<lparr>offer_dict_file = offer_bid_ratio_path,
        offer_exp_ratio = map_of (map (\<lambda>e. (kf (fst e), vf (snd e))) es)\<rparr>)),
      Inr (Some (Common \<lparr>common_dict_file = offer_bid_ratio_path,
        key_value_mapping = map_of (rev (map (\<lambda>e. (kf (fst e), vf (snd e))) es))\<rparr>))]"
proof -
  obtain t0 t1 where f: "load_files (s 0) offer_bid_ratio_path = Regular t0 (dict_text es)"
    "load_files (s 1) offer_bid_ratio_path = Regular t1 (dict_text es)" using assms(3) by meson
  note L = object_load_good(1) [of es castI castD kf vf "load_files (s 0)" t0, OF assms(1) f(1)]
    object_load_good(2) [of es castI castD kf vf "load_files (s 1)" t1, OF assms(1) f(2)]
  show ?thesis
    by (rule startup_registered [of s castI castD True _ True, OF _ _ L(1) L(2), where mk = mk])
      (use assms(2) in \<open>auto simp: run_def\<close>)
qed

text \<open>
  C22: the two dictionaries of \<open>dicts.cpp\<close> are registered for the same file. When it
  is well formed, \<open>run\<close> succeeds whenever the loader threads write their results, and
  \<open>GET_DICT\<close> finds both dictionaries loaded: \<open>OfferBidRatio\<close> with the first value of every key,
  \<open>CommonFileDict\<close> with the last one.
\<close>

theorem startup_loads:
  assumes "\<forall>e \<in> set es. good_entry castI castD kf vf e"
    and "\<forall>n. start_ret (s n) = 0" and "\<forall>n. \<exists>t. load_files (s n) offer_bid_ratio_path = Regular t (dict_text es)"
  shows "\<exists>M'. run (object_class castI castD mk) True s True w (registered_dicts castI castD) = Inr (0, M') \<and>
    map GET_DICT (dict_hander_vect M') =
     [Inr (Some (Offer \<lparr>offer_dict_file = offer_bid_ratio_path,
        offer_exp_ratio = map_of (map (\<lambda>e. (kf (fst e), vf (snd e))) es)\<rparr>)),
      Inr (Some (Common \<lparr>common_dict_file = offer_bid_ratio_path,
        key_value_mapping = map_of (rev (map (\<lambda>e. (kf (fst e), vf (snd e))) es))\<rparr>))]"
  using assms by (rule startup_loaded)

definition int_cast :: "string \<Rightarrow> 64 word cast_result" where
  "int_cast t = (if t = ''1'' then Cast 1 else if t = ''2'' then Cast 2 else Bad_lexical_cast)"

definition digit_files :: file_system where
  "digit_files p = Regular 0 (dict_text [(''1'', ''1''), (''1'', ''2'')])"

definition digit_schedule :: "nat \<Rightarrow> schedule" where
  "digit_schedule n = \<lparr>start_ret = 0, ret_write = Before_store, load_files = digit_files, load_skew = 0\<rparr>"

theorem startup_loads_witness:
  "\<exists>M'. run (object_class int_cast digit_cast (\<lambda>f. Offer (OfferBidRatio_new f))) True digit_schedule True True
      (registered_dicts int_cast digit_cast) = Inr (0, M') \<and>
    map GET_DICT (dict_hander_vect M') =
     [Inr (Some (Offer \<lparr>offer_dict_file = offer_bid_ratio_path,
        offer_exp_ratio = [1 \<mapsto> Some \<lparr>mant = 1, expo = 0\<rparr>]\<rparr>)),
      Inr (Some (Common \<lparr>common_dict_file = offer_bid_ratio_path,
        key_value_mapping = [1 \<mapsto> Some \<lparr>mant = 2, expo = 0\<rparr>]\<rparr>))]"
  using startup_loads [of "[(''1'', ''1''), (''1'', ''2'')]" int_cast digit_cast "\<lambda>_. 1"
      "\<lambda>t. Some \<lparr>mant = (if t = ''1'' then 1 else 2), expo = 0\<rparr>" digit_schedule "\<lambda>f. Offer (OfferBidRatio_new f)" True]
  by (simp add: good_entry_def plain_token_def int_cast_def digit_cast_def int64_of_double_def fl_trunc_def
      digit_schedule_def digit_files_def)

text \<open>
  The two dictionaries answer every lookup alike when the file has no
  duplicate key (the absent ones with 0).
\<close>

theorem same_file_agree:
  assumes "\<forall>e \<in> set es. good_entry castI castD kf vf e"
    and "fs offer_bid_ratio_path = Regular t (dict_text es)"
    and "object_load castI castD fs (Offer (OfferBidRatio_new offer_bid_ratio_path)) = Inr (True, Offer d0)"
    and "object_load castI castD fs (Common (CommonFileDict_new offer_bid_ratio_path)) = Inr (True, Common d1)"
    and "distinct (map (kf \<circ> fst) es)"
  shows "OfferBidRatio_get_key d0 key = CommonFileDict_get_key (Some \<lparr>mant = 0, expo = 0\<rparr>) d1 key"
proof -
  have "map_of (rev (map (\<lambda>e. (kf (fst e), vf (snd e))) es)) = map_of (map (\<lambda>e. (kf (fst e), vf (snd e))) es)"
    using assms(5) by (intro map_of_inject_set [THEN iffD2]) (simp_all add: comp_def rev_map [symmetric])
  then show ?thesis
    using object_load_good [of es castI castD kf vf fs t, OF assms(1,2)] assms(3,4)
    by (simp add: OfferBidRatio_get_key_def CommonFileDict_get_key_def)
qed

theorem same_file_agree_witness:
  "OfferBidRatio_get_key \<lparr>offer_dict_file = offer_bid_ratio_path, offer_exp_ratio = [1 \<mapsto> Some \<lparr>mant = 2, expo = 0\<rparr>]\<rparr> 7 =
   CommonFileDict_get_key (Some \<lparr>mant = 0, expo = 0\<rparr>)
     \<lparr>common_dict_file = offer_bid_ratio_path, key_value_mapping = [1 \<mapsto> Some \<lparr>mant = 2, expo = 0\<rparr>]\<rparr> (7 :: 64 word)"
proof -
  have g: "\<forall>e \<in> set [(''1'', ''2'')]. good_entry int_cast digit_cast (\<lambda>_. 1)
      (\<lambda>t. Some \<lparr>mant = (if t = ''1'' then 1 else 2), expo = 0\<rparr>) e"
    by (simp add: good_entry_def plain_token_def int_cast_def digit_cast_def int64_of_double_def fl_trunc_def)
  let ?fs = "\<lambda>_. Regular 0 (dict_text [(''1'', ''2'')])"
  note L = object_load_good [of "[(''1'', ''2'')]" int_cast digit_cast "\<lambda>_. 1"
      "\<lambda>t. Some \<lparr>mant = (if t = ''1'' then 1 else 2), expo = 0\<rparr>" ?fs 0, OF g refl]
  show ?thesis
    by (rule same_file_agree [of "[(''1'', ''2'')]" int_cast digit_cast "\<lambda>_. 1"
      "\<lambda>t. Some \<lparr>mant = (if t = ''1'' then 1 else 2), expo = 0\<rparr>" ?fs 0, OF g refl])
      (use L in simp_all)
qed












text \<open>
  The file is missing. The load reports the failure only if some loader
  thread writes its result after the starting thread has stored that of
  \<open>bthread_start_background\<close> in the same variable; if the first thread does and the second one is still
  running, the join loop leaves it behind with a pointer to storage that is gone. In every
  other case \<open>run\<close> returns 0 and the service starts with two empty dictionaries.
\<close>

theorem missing_file_startup:
  assumes "\<forall>n. start_ret (s n) = 0" and "\<forall>n. load_files (s n) offer_bid_ratio_path = Missing"
  shows "\<exists>M'. parallel_sync_load (object_class castI castD mk) True s (registered_dicts castI castD) =
      (if ret_write (s 0) = Before_store then Inr (if ret_write (s 1) = Before_store then 0 else - 1, M')
       else if ret_write (s 1) = After_exit then Inl Invalid_access else Inr (- 1, M')) \<and>
    run (object_class castI castD mk) True s True w (registered_dicts castI castD) =
      (if ret_write (s 0) \<noteq> Before_store \<and> ret_write (s 1) = After_exit then Inl Invalid_access else Inr (0, M')) \<and>
    map GET_DICT (dict_hander_vect M') =
     [Inr (Some (Offer (OfferBidRatio_new offer_bid_ratio_path))),
      Inr (Some (Common (CommonFileDict_new offer_bid_ratio_path)))]"
proof -
  have L: "object_load castI castD (load_files (s n)) (Offer (OfferBidRatio_new offer_bid_ratio_path)) =
      Inr (False, Offer (OfferBidRatio_new offer_bid_ratio_path))"
    "object_load castI castD (load_files (s n)) (Common (CommonFileDict_new offer_bid_ratio_path)) =
      Inr (False, Common (CommonFileDict_new offer_bid_ratio_path))" for n
    using assms(2) by (simp_all add: object_load_def OfferBidRatio_load_def CommonFileDict_load_def
        OfferBidRatio_new_def CommonFileDict_new_def)
  obtain M' where M': "parallel_sync_load (object_class castI castD mk) True s (registered_dicts castI castD) =
       bind_cxx (join_all
         [\<lparr>arg_ret = (if ret_write (s 0) = Before_store \<or> False then 0 else - 1), unfinished = (ret_write (s 0) = After_exit)\<rparr>,
          \<lparr>arg_ret = (if ret_write (s 1) = Before_store \<or> False then 0 else - 1), unfinished = (ret_write (s 1) = After_exit)\<rparr>])
        (\<lambda>ret. Inr (ret, M'))"
    "map GET_DICT (dict_hander_vect M') = [Inr (Some (Offer (OfferBidRatio_new offer_bid_ratio_path))),
      Inr (Some (Common (CommonFileDict_new offer_bid_ratio_path)))]"
    by (rule startup_registered [of s castI castD False _ False, OF _ _ L(1) L(2), where mk = mk]) (use assms(1) in auto)
  show ?thesis by (intro exI [of _ M'] conjI M'(2)) (simp_all add: M'(1) run_def)
qed

theorem missing_file_startup_witness:
  "\<exists>M'. run (object_class int_cast digit_cast (\<lambda>f. Offer (OfferBidRatio_new f))) True
      (\<lambda>n. \<lparr>start_ret = 0, ret_write = Before_store, load_files = (\<lambda>_. Missing), load_skew = 0\<rparr>) True True
      (registered_dicts int_cast digit_cast) = Inr (0, M') \<and>
    map GET_DICT (dict_hander_vect M') =
     [Inr (Some (Offer (OfferBidRatio_new offer_bid_ratio_path))),
      Inr (Some (Common (CommonFileDict_new offer_bid_ratio_path)))]"
  using missing_file_startup [of "\<lambda>n. \<lparr>start_ret = 0, ret_write = Before_store, load_files = (\<lambda>_. Missing), load_skew = 0\<rparr>"
      int_cast digit_cast "\<lambda>f. Offer (OfferBidRatio_new f)" True] by auto

subsection \<open>The periodic check\<close>

lemma GET_DICT_current [simp]: "hander_ok h \<Longrightarrow> GET_DICT (Some h) = Inr (current h)"
  by (simp add: GET_DICT_def)

lemma GET_DICT_serving: "serving x \<Longrightarrow> \<exists>d. GET_DICT x = Inr (Some d)"
  by (auto simp: serving_def split: option.splits)

lemma GET_DICT_same: "serving x \<Longrightarrow> serving y \<Longrightarrow> same_service x y \<Longrightarrow> GET_DICT y = GET_DICT x"
  by (auto simp: serving_def same_service_def split: option.splits)

lemma GET_DICT_same_all:
  "list_all2 same_service ds ds' \<Longrightarrow> list_all serving ds \<Longrightarrow> list_all serving ds' \<Longrightarrow> map GET_DICT ds' = map GET_DICT ds"
  by (induction rule: list_all2_induct) (auto simp: GET_DICT_same)

text \<open>
  C24: for every dictionary class, every behaviour of the clock and the file
  system and every number of rounds, the check thread leaves each handler with a dictionary a reader
  can use.
\<close>

theorem check_keeps_serving:
  assumes "list_all serving ds" and "check C env k ds = Inr ds'"
  shows "list_all serving ds' \<and> list_all (\<lambda>x. \<exists>d. GET_DICT x = Inr (Some d)) ds' \<and> length ds' = length ds"
proof -
  have "list_all serving ds' \<and> length ds' = length ds" using check_serving [OF assms] .
  then show ?thesis by (auto simp: list_all_iff GET_DICT_serving)
qed

text \<open>
  C23: \<open>check\<close> tests \<open>new_dict->init() == 0\<close>, but the \<open>init\<close> of both
  registered classes returns \<open>true\<close>. However the files change, any number of rounds
  completes and every reader still gets the dictionary of the start-up.
\<close>

theorem hot_reload_never_happens:
  assumes "list_all serving ds"
  shows "\<exists>ds'. check (object_class castI castD (\<lambda>f. Offer (OfferBidRatio_new f))) env k ds = Inr ds' \<and>
    map GET_DICT ds' = map GET_DICT ds"
proof -
  obtain ds' where c: "check (object_class castI castD (\<lambda>f. Offer (OfferBidRatio_new f))) env k ds = Inr ds'"
    and s: "list_all2 same_service ds ds'"
    using offer_object.check_no_reload [OF assms] by blast
  then show ?thesis using GET_DICT_same_all [OF s assms] check_serving [OF assms c] by simp
qed

definition served_hander :: "dict_object DictHander" where
  "served_hander = (registered_hander ''offer_bid_ratio'' (Offer (OfferBidRatio_new ''f'')))
     \<lparr>dicts := [Some (Offer (OfferBidRatio_new ''f'')), None], modify_time := 5\<rparr>"

lemma served_hander_serving: "serving (Some served_hander)"
  by (simp add: serving_def served_hander_def hander_ok_def current_def registered_hander_def DictHander_new_def)

theorem hot_reload_never_happens_witness:
  "\<exists>ds'. check (object_class int_cast digit_cast (\<lambda>f. Offer (OfferBidRatio_new f)))
      (\<lambda>k n. \<lparr>now_t = 100000, files = digit_files, skew = 7000000000, finish_t = 100001\<rparr>) 24 [Some served_hander] = Inr ds' \<and>
    map GET_DICT ds' = [Inr (Some (Offer (OfferBidRatio_new ''f'')))]"
proof -
  have g: "GET_DICT (Some served_hander) = Inr (Some (Offer (OfferBidRatio_new ''f'')))"
    by (simp add: GET_DICT_def slot_def served_hander_def registered_hander_def DictHander_new_def)
  show ?thesis
    using hot_reload_never_happens [of "[Some served_hander]" int_cast digit_cast
        "\<lambda>k n. \<lparr>now_t = 100000, files = digit_files, skew = 7000000000, finish_t = 100001\<rparr>" 24]
    by (simp add: served_hander_serving g)
qed

text \<open>
  For a class whose \<open>init\<close> returns \<open>false\<close>, the value the check takes for
  success, a changed file that loads is published in the other slot: readers get the new dictionary
  from then on, the old one stays alive in its slot, and the next round within the same second
  finds nothing to do.
\<close>

theorem reload_double_buffer:
  assumes "hander_ok h" and "current h = Some d0" and "cfunc h () = Some n" and "init C n = (False, d1)"
    and "load C (files env) d1 = Inr (True, d2)" and "get_cur_file C d2 = get_cur_file C d0"
    and "get_file_last_mtime (files env) (skew env) (get_cur_file C d0) \<noteq> modify_time h"
    and "now_t env' - finish_t env \<le> 300" and "files env' = files env" and "skew env' = skew env"
  shows "\<exists>h'. check_one C env (Some h) = Inr (Some h') \<and> GET_DICT (Some h') = Inr (Some d2) \<and>
    dicts h' ! nat (cur_index h) = Some d0 \<and> check_one C env' (Some h') = Inr (Some h')"
proof -
  let ?t = "get_file_last_mtime (files env) (skew env) (get_cur_file C d0)"
  let ?h = "(set_slot (1 - cur_index h) (Some d2) h)\<lparr>modify_time := ?t, load_finish_time := finish_t env,
    cur_index := 1 - cur_index h\<rparr>"
  have 1: "check_one C env (Some h) = Inr (Some ?h)"
    using assms(1-7) by (simp add: check_one_def slot_background Let_def)
  have ok: "hander_ok ?h" "current ?h = Some d2" "dicts ?h ! nat (cur_index h) = Some d0"
    using assms(1,2) by (auto simp: hander_ok_def current_def set_slot_def)
  have "check_one C env' (Some ?h) = Inr (Some ?h)"
    using ok assms(6,8-10) slot_current [OF ok(1)] slot_background [OF ok(1)]
    by (simp add: check_one_def Let_def)
  then show ?thesis using 1 ok by (intro exI [of _ ?h]) simp
qed

text \<open>A dictionary class of the kind the check expects.\<close>

definition zero_class :: "nat dict_class" where
  "zero_class = \<lparr>construct = (\<lambda>_. 0), init = (\<lambda>d. (False, d)), load = (\<lambda>fs d. Inr (True, Suc d)), get_cur_file = (\<lambda>_. ''f'')\<rparr>"

definition zero_hander :: "nat DictHander" where
  "zero_hander = DictHander_new\<lparr>dicts := [Some 8, None], cfunc := (\<lambda>_. Some 0)\<rparr>"

definition zero_env :: check_env where
  "zero_env = \<lparr>now_t = 20, files = (\<lambda>_. Regular 9000000000 []), skew = 0, finish_t = 21\<rparr>"

theorem check_keeps_serving_witness:
  "\<exists>ds'. check zero_class (\<lambda>k n. zero_env) 1 [Some zero_hander] = Inr ds' \<and> length ds' = 1 \<and>
    list_all (\<lambda>x. \<exists>d. GET_DICT x = Inr (Some d)) ds'"
proof -
  have s: "list_all serving [Some zero_hander]"
    by (simp add: serving_def hander_ok_def current_def zero_hander_def DictHander_new_def)
  have "\<exists>ds'. check zero_class (\<lambda>k n. zero_env) 1 [Some zero_hander] = Inr ds'"
    by (simp add: check_one_def zero_class_def zero_hander_def zero_env_def DictHander_new_def slot_def set_slot_def
        get_file_last_mtime_def to_time_t_def Let_def)
  then show ?thesis using check_keeps_serving [OF s, of zero_class "\<lambda>k n. zero_env" 1] by auto
qed

theorem reload_double_buffer_witness:
  "\<exists>h'. check_one zero_class zero_env (Some zero_hander) = Inr (Some h') \<and> GET_DICT (Some h') = Inr (Some 1) \<and>
    dicts h' ! 0 = Some 8 \<and> check_one zero_class zero_env (Some h') = Inr (Some h')"
  using reload_double_buffer [of zero_hander 8 0 zero_class 0 zero_env 1 zero_env]
  by (simp add: hander_ok_def current_def zero_class_def zero_hander_def zero_env_def DictHander_new_def
      get_file_last_mtime_def to_time_t_def)

subsection \<open>Configuration\<close>

text \<open>What \<open>initialize\<close> does when \<open>get<std::string>\<close> finds exactly the elements \<open>elems\<close> says.\<close>

definition config_of :: "('t \<Rightarrow> string \<Rightarrow> string option) \<Rightarrow> string \<times> 't \<Rightarrow> DictConfig list" where
  "config_of elems c =
     (if fst c = ''dict'' then [\<lparr>file_path = the (elems (snd c) ''file''), conf_dict_name = the (elems (snd c) ''name''),
        generator_name = the (elems (snd c) ''type'')\<rparr>] else [])"

definition complete_dict :: "('t \<Rightarrow> string \<Rightarrow> string option) \<Rightarrow> string \<times> 't \<Rightarrow> bool" where
  "complete_dict elems c \<longleftrightarrow> fst c \<noteq> ''dict'' \<or>
     elems (snd c) ''file'' \<noteq> None \<and> elems (snd c) ''name'' \<noteq> None \<and> elems (snd c) ''type'' \<noteq> None"

lemma read_dict_config_complete:
  assumes "\<And>node key. get_string L node key =
      (case elems node key of None \<Rightarrow> Inl (Throws ''boost::property_tree::ptree_bad_path'') | Some v \<Rightarrow> Inr v)"
  shows "fold_cxx (read_dict_config L) cs confs =
     (if list_all (complete_dict elems) cs then Inr (confs @ concat (map (config_of elems) cs))
      else Inl (Throws ''boost::property_tree::ptree_bad_path''))"
proof (induction cs arbitrary: confs)
  case (Cons c cs)
  have "read_dict_config L c confs =
     (if complete_dict elems c then Inr (confs @ config_of elems c)
      else Inl (Throws ''boost::property_tree::ptree_bad_path''))"
    by (auto simp: read_dict_config_def assms complete_dict_def config_of_def split: option.splits)
  then show ?case by (simp add: Cons.IH)
qed simp

text \<open>
  \<open>initialize\<close> is \<open>noexcept\<close> and reads the path of a dictionary from the
  element \<open>file\<close>. It appends one configuration per \<open>dict\<close> element when all of them have the
  elements \<open>file\<close>, \<open>name\<close> and \<open>type\<close>, and ends the process when one lacks an element, which is the
  case for every dictionary of \<open>conf/dict/dict_config.xml\<close>: there the element is \<open>path\<close>.
\<close>

theorem initialize_outcome:
  assumes "\<And>node key. get_string L node key =
      (case elems node key of None \<Rightarrow> Inl (Throws ''boost::property_tree::ptree_bad_path'') | Some v \<Rightarrow> Inr v)"
    and "read_xml L ''config.xml'' = Inr pt" and "get_child L pt ''dicts'' = Inr ds"
  shows "DictManager_initialize L M =
    (if list_all (complete_dict elems) (children L ds)
     then Inr (M\<lparr>dict_config_vect := dict_config_vect M @ concat (map (config_of elems) (children L ds))\<rparr>)
     else Inl Terminate)"
  using assms by (simp add: DictManager_initialize_def read_dict_config_complete [OF assms(1)] noexcept_cxx_def)

text \<open>The tree of \<open>conf/dict/dict_config.xml\<close>, with its two elements.\<close>

datatype xml_tree = Xml string "(string \<times> xml_tree) list"

fun xml_kids :: "xml_tree \<Rightarrow> (string \<times> xml_tree) list" where
  "xml_kids (Xml d ks) = ks"

fun xml_data :: "xml_tree \<Rightarrow> string" where
  "xml_data (Xml d ks) = d"

definition xml_child :: "xml_tree \<Rightarrow> string \<Rightarrow> xml_tree cxx" where
  "xml_child x key = (case map_of (xml_kids x) key of None \<Rightarrow> Inl (Throws ''boost::property_tree::ptree_bad_path'') | Some y \<Rightarrow> Inr y)"

definition dict_config_xml :: xml_tree where
  "dict_config_xml = Xml [] [(''dicts'', Xml []
     [(''dict'', Xml [] [(''path'', Xml ''./dict/bid_ratio.txt'' []), (''name'', Xml ''bid_ratio.txt'' []), (''type'', Xml ''HashSetString'' [])]),
      (''dict'', Xml [] [(''path'', Xml ''./dict/stop_bid.txt'' []), (''name'', Xml ''stop_bid.txt'' []), (''type'', Xml ''HashSetString'' [])])])]"

definition xml_lib :: "xml_tree \<Rightarrow> xml_tree ptree_lib" where
  "xml_lib x = \<lparr>read_xml = (\<lambda>_. Inr x), get_child = xml_child, get_string = (\<lambda>y key. map_sum id xml_data (xml_child y key)),
     children = xml_kids, data = xml_data\<rparr>"

theorem initialize_outcome_witness:
  "DictManager_initialize (xml_lib dict_config_xml) (DictManager_new :: nat DictManager) = Inl Terminate"
proof -
  let ?ds = "snd (xml_kids dict_config_xml ! 0)"
  show ?thesis
    by (subst initialize_outcome [where pt = dict_config_xml and ds = ?ds
          and elems = "\<lambda>y key. map_option xml_data (map_of (xml_kids y) key)"])
      (simp_all add: xml_lib_def dict_config_xml_def xml_child_def complete_dict_def split: option.splits)
qed

end
