(* ===== verification/Dict_Readers.thy ===== *)
theory Dict_Readers
  imports Dict_Theorems
begin

text \<open>
  Readers of a dictionary beside the check thread. \<open>GET_DICT\<close> loads \<open>cur_index\<close> and then copies the shared
  pointer in that slot; between the two accesses the check may write. A round of the check on one handler is the
  sequence of its writes (\<open>check_trace\<close>); a reader sees the state before one of them for its first access and a
  later state for its second. Copying a shared pointer while another thread writes it is a data race.
\<close>

subsection \<open>The writes of a round\<close>

text \<open>The states of the handler after each write, in order.\<close>

definition check_trace :: "'d dict_class \<Rightarrow> check_env \<Rightarrow> 'd DictHander \<Rightarrow> 'd DictHander list cxx" where
  "check_trace C env h =
     bind_cxx (slot h (cur_index h)) (\<lambda>cur.
     case cur of
       None \<Rightarrow> Inr []
     | Some cur_dict \<Rightarrow>
         bind_cxx (slot h (1 - cur_index h)) (\<lambda>bg.
         let bg_idx = 1 - cur_index h;
             expired = (bg \<noteq> None \<and> now_t env - load_finish_time h > 300);
             h1 = (if expired then set_slot bg_idx None h else h);
             t1 = (if expired then [h1] else []);
             new_mtime = get_file_last_mtime (files env) (skew env) (get_cur_file C cur_dict)
         in if new_mtime = modify_time h1 then Inr t1
            else let h2 = set_slot bg_idx None h1;
                     t2 = t1 @ (if bg \<noteq> None \<and> \<not> expired then [h2] else [])
                 in case cfunc h2 () of
                      None \<Rightarrow> Inl Null_deref
                    | Some new_dict \<Rightarrow>
                        (case init C new_dict of (ok, d1) \<Rightarrow>
                           if ok then Inr t2
                           else bind_cxx (load C (files env) d1) (\<lambda>(loaded, d2).
                                if \<not> loaded then Inr t2
                                else let h3 = set_slot bg_idx (Some d2) h2;
                                         h4 = h3\<lparr>modify_time := new_mtime\<rparr>;
                                         h5 = h4\<lparr>load_finish_time := finish_t env\<rparr>;
                                         h6 = h5\<lparr>cur_index := bg_idx\<rparr>
                                     in Inr (t2 @ [h3, h4, h5, h6])))))"

text \<open>A reader: the index from one state, the slot from another.\<close>

definition GET_DICT_between :: "'d DictHander \<Rightarrow> 'd DictHander \<Rightarrow> 'd option cxx" where
  "GET_DICT_between at_index at_slot = slot at_slot (cur_index at_index)"

subsection \<open>What a round leaves alone\<close>

text \<open>Every write but a last one keeps the index and the slot it names; a last one that moves the index has
  filled the slot it moves to.\<close>

definition quiet :: "'d DictHander \<Rightarrow> 'd DictHander \<Rightarrow> bool" where
  "quiet h x \<longleftrightarrow> hander_ok x \<and> cur_index x = cur_index h \<and> current x = current h"

definition publishes :: "'d DictHander \<Rightarrow> 'd DictHander \<Rightarrow> bool" where
  "publishes h x \<longleftrightarrow> hander_ok x \<and> cur_index x = 1 - cur_index h \<and> current x \<noteq> None \<and>
     dicts x ! nat (cur_index h) = dicts h ! nat (cur_index h)"

definition round_ok :: "'d DictHander \<Rightarrow> 'd DictHander list \<Rightarrow> bool" where
  "round_ok h tr \<longleftrightarrow> list_all (quiet h) tr \<or> (tr \<noteq> [] \<and> list_all (quiet h) (butlast tr) \<and> publishes h (last tr))"

lemma quiet_simps [simp]:
  "hander_ok h \<Longrightarrow> quiet h h"
  "hander_ok h \<Longrightarrow> quiet h (set_slot (1 - cur_index h) d h)"
  "quiet h (x\<lparr>modify_time := t\<rparr>) = quiet h x" "quiet h (x\<lparr>load_finish_time := t\<rparr>) = quiet h x"
  using current_set_background [of h d] by (simp_all add: quiet_def)

lemma publishes_new:
  "hander_ok h \<Longrightarrow> publishes h ((set_slot (1 - cur_index h) (Some d) h)\<lparr>modify_time := t, load_finish_time := u, cur_index := 1 - cur_index h\<rparr>)"
  by (auto simp: publishes_def hander_ok_def current_def set_slot_def)

lemma set_background_twice:
  "set_slot (1 - cur_index h) d (if b then set_slot (1 - cur_index h) e h else h) = set_slot (1 - cur_index h) d h"
  by simp

lemma check_trace_round:
  assumes "hander_ok h" "check_trace C env h = Inr tr"
  shows "round_ok h tr"
  using assms slot_background [OF assms(1)]
  by (auto simp: check_trace_def round_ok_def Let_def bind_cxx_eq_Inr publishes_new
      split: option.splits if_splits prod.splits)

text \<open>The trace ends where the round as a whole ends.\<close>

lemma set_empty_slot: "slot h i = Inr None \<Longrightarrow> set_slot i None h = h"
  by (auto simp: slot_def set_slot_def list_update_same_conv split: if_splits)

lemma check_trace_end:
  assumes "hander_ok h"
  shows "check_one C env (Some h) = bind_cxx (check_trace C env h) (\<lambda>tr. Inr (Some (last (h # tr))))"
proof (cases "current h")
  case None
  then show ?thesis using assms by (simp add: check_one_def check_trace_def)
next
  case (Some cur)
  let ?t = "get_file_last_mtime (files env) (skew env) (get_cur_file C cur)"
  let ?bg = "dicts h ! nat (1 - cur_index h)"
  have e: "?bg = None \<Longrightarrow> set_slot (1 - cur_index h) None h = h" using slot_background [OF assms] set_empty_slot by metis
  note s = check_one_def check_trace_def Let_def Some slot_background [OF assms] assms
  consider "?t = modify_time h" | "cfunc h () = None" "?t \<noteq> modify_time h"
    | n ok d1 where "cfunc h () = Some n" "init C n = (ok, d1)" "?t \<noteq> modify_time h"
    by (metis option.exhaust surj_pair)
  then show ?thesis
  proof cases
    case 1
    have "check_trace C env h = Inr (if ?bg \<noteq> None \<and> 300 < now_t env - load_finish_time h
        then [set_slot (1 - cur_index h) None h] else [])"
      using 1 assms by (simp add: check_trace_def Some slot_background Let_def)
    moreover have "check_one C env (Some h) = Inr (Some (if ?bg \<noteq> None \<and> 300 < now_t env - load_finish_time h
        then set_slot (1 - cur_index h) None h else h))"
      using 1 assms by (simp add: check_one_def Some slot_background Let_def)
    ultimately show ?thesis by simp
  next
    case 2
    then show ?thesis by (cases ?bg) (simp_all add: s)
  next
    case (3 n ok d1)
    show ?thesis
    proof (cases "load C (files env) d1")
      case (Inl err)
      then show ?thesis using 3 e by (cases ?bg) (simp_all add: s)
    next
      case (Inr r)
      then show ?thesis using 3 e by (cases r; cases ?bg) (simp_all add: s)
    qed
  qed
qed

lemma quiet_read:
  assumes "quiet h x" "quiet h y"
  shows "GET_DICT_between x y = Inr (current h)" "GET_DICT (Some x) = Inr (current h)"
  using assms slot_current [of y] slot_current [of x] by (simp_all add: GET_DICT_between_def GET_DICT_def quiet_def)

lemma own_read: "hander_ok x \<Longrightarrow> GET_DICT_between x x = Inr (current x) \<and> GET_DICT (Some x) = Inr (current x)"
  by (simp add: GET_DICT_between_def GET_DICT_def)

lemma publish_read:
  assumes "hander_ok h" "quiet h x" "publishes h y"
  shows "GET_DICT_between x y = Inr (current h)"
  using assms by (auto simp: GET_DICT_between_def quiet_def publishes_def slot_def current_def hander_ok_def)

lemma round_states:
  assumes "round_ok h tr" "hander_ok h" "k \<le> length tr"
  shows "quiet h ((h # tr) ! k) \<or> (k = length tr \<and> publishes h ((h # tr) ! k))"
proof -
  have "quiet h ((h # tr) ! k)" if "list_all (quiet h) tr"
    using that assms(2,3) by (cases k) (auto simp: list_all_length)
  moreover have "quiet h ((h # tr) ! k) \<or> (k = length tr \<and> publishes h ((h # tr) ! k))"
    if "tr \<noteq> []" "list_all (quiet h) (butlast tr)" "publishes h (last tr)"
  proof (cases "k = length tr")
    case True
    then show ?thesis using that by (simp add: last_conv_nth nth_Cons')
  next
    case False
    then show ?thesis using that(2) assms(2,3) by (cases k) (auto simp: list_all_length nth_butlast)
  qed
  ultimately show ?thesis using assms(1) by (auto simp: round_ok_def)
qed

subsection \<open>Property\<close>

text \<open>C25. A reader whose two accesses fall anywhere into one round of the check gets the dictionary that
  was current when it loaded the index: the pointer is never null and its slot is not written in between. The round ends
  in the state \<open>check_one\<close> computes. This holds for every dictionary class, file state and clock.\<close>

theorem dict_reader_safe:
  assumes "hander_ok h" and "current h \<noteq> None" and "check_trace C env h = Inr tr" and "i \<le> j" and "j \<le> length tr"
  shows "(\<exists>d. GET_DICT (Some ((h # tr) ! i)) = Inr (Some d) \<and>
      GET_DICT_between ((h # tr) ! i) ((h # tr) ! j) = Inr (Some d)) \<and>
    check_one C env (Some h) = Inr (Some (last (h # tr)))"
proof -
  note r = round_states [OF check_trace_round [OF assms(1,3)] assms(1)]
  have "\<exists>d. GET_DICT (Some ((h # tr) ! i)) = Inr (Some d) \<and> GET_DICT_between ((h # tr) ! i) ((h # tr) ! j) = Inr (Some d)"
  proof (cases "quiet h ((h # tr) ! i)")
    case True
    then show ?thesis using r [OF assms(5)] assms(2) quiet_read [OF True] publish_read [OF assms(1) True] by auto
  next
    case False
    then have "i = j" "publishes h ((h # tr) ! i)" using r [of i] assms(4,5) by auto
    then show ?thesis using own_read [of "(h # tr) ! i"] by (auto simp: publishes_def)
  qed
  then show ?thesis by (simp add: check_trace_end assms)
qed

theorem dict_reader_safe_witness:
  "\<exists>tr. check_trace zero_class zero_env zero_hander = Inr tr \<and> length tr = 4 \<and>
    (\<exists>d. GET_DICT (Some ((zero_hander # tr) ! 1)) = Inr (Some d) \<and>
      GET_DICT_between ((zero_hander # tr) ! 1) ((zero_hander # tr) ! 4) = Inr (Some d)) \<and>
    check_one zero_class zero_env (Some zero_hander) = Inr (Some (last (zero_hander # tr)))"
proof -
  have h: "hander_ok zero_hander" "current zero_hander \<noteq> None"
    by (simp_all add: hander_ok_def current_def zero_hander_def DictHander_new_def)
  obtain tr where "check_trace zero_class zero_env zero_hander = Inr tr" "length tr = 4"
    by (simp add: check_trace_def zero_class_def zero_hander_def zero_env_def DictHander_new_def slot_def set_slot_def
        get_file_last_mtime_def to_time_t_def Let_def)
  then show ?thesis using dict_reader_safe [OF h, of zero_class zero_env tr 1 4] by simp
qed

end
