(* ===== verification/Dict_Startup.thy ===== *)
theory Dict_Startup
  imports Dict_Theorems
begin

text \<open>
  \<open>DictManager::parallel_sync_load\<close> (\<open>example/brpc/plugins/dict/dict_manager.cpp\<close>) with one step per access to what the
  threads share. The starting thread and the loader threads may interleave in any way; every such run is one of the
  sequential model's, for some choice of when the loader threads write their results.
\<close>

subsection \<open>The threads\<close>

text \<open>A loader thread: not started, started, after it has read the dictionary and the modification time, after the load, and at its
  end. Its function's end without a \<open>return\<close> statement is taken to return.\<close>

datatype 'd loader = L_none | L_ready | L_timed 'd | L_loaded int | L_done int

text \<open>A handler with the element of \<open>load_args\<close> that points to it: the element's \<open>ret\<close> and its thread.\<close>

record 'd hander_cell =
  cell_hander :: "'d DictHander option"
  cell_arg :: "(int \<times> 'd loader) option"

datatype starter_pc = S_loop nat | S_store nat int | S_join nat | S_exit int

record 'd startup =
  cells :: "'d hander_cell list"
  main_at :: starter_pc

text \<open>One iteration of the first loop up to the call of \<open>bthread_start_background\<close>; the result is what the call returned.\<close>

definition start_loader :: "'d dict_class \<Rightarrow> schedule \<Rightarrow> 'd hander_cell \<Rightarrow> ('d hander_cell \<times> int option) cxx" where
  "start_loader C s c =
     (case cell_hander c of
        None \<Rightarrow> Inr (c, None)
      | Some h \<Rightarrow>
          bind_cxx (slot h (cur_index h)) (\<lambda>_.
          if dict_file_path h = [] then Inr (c, None)
          else case cfunc h () of
                 None \<Rightarrow> Inr (c\<lparr>cell_hander := Some (set_slot (cur_index h) None h)\<rparr>, None)
               | Some d \<Rightarrow>
                   Inr (\<lparr>cell_hander = Some (set_slot (cur_index h) (Some (snd (init C d))) h),
                         cell_arg = Some (0, if start_ret s = 0 then L_ready else L_none)\<rparr>, Some (start_ret s))))"

definition finished :: "'d loader \<Rightarrow> bool" where
  "finished l = (case l of L_none \<Rightarrow> True | L_done r \<Rightarrow> True | _ \<Rightarrow> False)"

text \<open>The starting thread. Elements of \<open>load_args\<close> that are not used hold 0 and no thread, so the join loop passes them.\<close>

definition starter_step :: "'d dict_class \<Rightarrow> (nat \<Rightarrow> schedule) \<Rightarrow> 'd startup \<Rightarrow> 'd startup cxx" where
  "starter_step C s st =
     (case main_at st of
        S_loop k \<Rightarrow>
          if k < length (cells st) then
            bind_cxx (start_loader C (s k) (cells st ! k)) (\<lambda>(c, r).
              Inr \<lparr>cells = (cells st)[k := c], main_at = (case r of None \<Rightarrow> S_loop (Suc k) | Some v \<Rightarrow> S_store k v)\<rparr>)
          else Inr (st\<lparr>main_at := S_join 0\<rparr>)
      | S_store k v \<Rightarrow>
          Inr \<lparr>cells = (cells st)[k := (cells st ! k)\<lparr>cell_arg := map_option (\<lambda>(_, l). (v, l)) (cell_arg (cells st ! k))\<rparr>],
               main_at = S_loop (Suc k)\<rparr>
      | S_join j \<Rightarrow>
          if j < length (cells st) then
            (case cell_arg (cells st ! j) of
               None \<Rightarrow> Inr (st\<lparr>main_at := S_join (Suc j)\<rparr>)
             | Some (ret, l) \<Rightarrow>
                 if \<not> finished l then Inr st
                 else Inr (st\<lparr>main_at := (if ret \<noteq> 0 then S_exit (- 1) else S_join (Suc j))\<rparr>))
          else Inr (st\<lparr>main_at := S_exit 0\<rparr>)
      | S_exit r \<Rightarrow> Inr st)"

text \<open>A loader thread. Once the starting thread has returned, \<open>load_args\<close> is gone.\<close>

definition loader_step :: "'d dict_class \<Rightarrow> schedule \<Rightarrow> bool \<Rightarrow> 'd hander_cell \<Rightarrow> 'd hander_cell cxx" where
  "loader_step C s exited c =
     (case (cell_arg c, cell_hander c) of
        (Some (ret, L_ready), Some h) \<Rightarrow>
          if exited then Inl Invalid_access
          else bind_cxx (slot h (cur_index h)) (\<lambda>cur_one.
            case cur_one of
              None \<Rightarrow> Inr (c\<lparr>cell_arg := Some (ret, L_loaded (- 1))\<rparr>)
            | Some d \<Rightarrow> Inr \<lparr>cell_hander = Some (h\<lparr>modify_time := get_file_last_mtime (load_files s) (load_skew s) (get_cur_file C d)\<rparr>),
                            cell_arg = Some (ret, L_timed d)\<rparr>)
      | (Some (ret, L_timed d), Some h) \<Rightarrow>
          bind_cxx (noexcept_cxx (load C (load_files s) d)) (\<lambda>(ok, d').
            Inr \<lparr>cell_hander = Some (set_slot (cur_index h) (Some d') h), cell_arg = Some (ret, L_loaded (if ok then 0 else - 1))\<rparr>)
      | (Some (ret, L_loaded r), _) \<Rightarrow>
          if exited then Inl Invalid_access else Inr (c\<lparr>cell_arg := Some (r, L_done r)\<rparr>)
      | _ \<Rightarrow> Inr c)"

datatype actor = Starter | Loader nat

definition has_exited :: "starter_pc \<Rightarrow> bool" where
  "has_exited m = (case m of S_exit r \<Rightarrow> True | _ \<Rightarrow> False)"

definition startup_step :: "'d dict_class \<Rightarrow> (nat \<Rightarrow> schedule) \<Rightarrow> actor \<Rightarrow> 'd startup \<Rightarrow> 'd startup cxx" where
  "startup_step C s a st =
     (case a of
        Starter \<Rightarrow> starter_step C s st
      | Loader k \<Rightarrow>
          if k < length (cells st) then
            bind_cxx (loader_step C (s k) (has_exited (main_at st)) (cells st ! k)) (\<lambda>c. Inr (st\<lparr>cells := (cells st)[k := c]\<rparr>))
          else Inr st)"

definition startup_begin :: "'d DictHander option list \<Rightarrow> 'd startup" where
  "startup_begin hs = \<lparr>cells = map (\<lambda>x. \<lparr>cell_hander = x, cell_arg = None\<rparr>) hs, main_at = S_loop 0\<rparr>"

inductive startup_run :: "'d dict_class \<Rightarrow> (nat \<Rightarrow> schedule) \<Rightarrow> 'd DictHander option list \<Rightarrow> 'd startup \<Rightarrow> bool" for C s hs where
  Run_begin: "startup_run C s hs (startup_begin hs)"
| Run_step: "startup_run C s hs st \<Longrightarrow> startup_step C s a st = Inr st' \<Longrightarrow> startup_run C s hs st'"

subsection \<open>One handler\<close>

text \<open>What the sequential model says of a handler, when the loader's result is written at \<open>w\<close>.\<close>

abbreviation one :: "'d dict_class \<Rightarrow> schedule \<Rightarrow> 'd DictHander option \<Rightarrow> ret_write \<Rightarrow> ('d DictHander option \<times> load_arg list) cxx" where
  "one C s x w \<equiv> sync_load_one C True (s\<lparr>ret_write := w\<rparr>) x"

definition loads_run :: "'d dict_class \<Rightarrow> schedule \<Rightarrow> 'd DictHander option \<Rightarrow> bool" where
  "loads_run C s x \<longleftrightarrow> (\<exists>y. one C s x After_store = Inr y)"

text \<open>What is left of a loader thread.\<close>

definition loader_rest :: "'d dict_class \<Rightarrow> schedule \<Rightarrow> 'd DictHander \<Rightarrow> 'd loader \<Rightarrow> (int \<times> 'd DictHander) cxx" where
  "loader_rest C s h l =
     (case l of
        L_ready \<Rightarrow> noexcept_cxx (load_dict_by_thread C True (load_files s) (load_skew s) h)
      | L_timed d \<Rightarrow> bind_cxx (noexcept_cxx (load C (load_files s) d)) (\<lambda>(ok, d').
          Inr (if ok then 0 else - 1, set_slot (cur_index h) (Some d') h))
      | L_loaded r \<Rightarrow> Inr (r, h)
      | L_done r \<Rightarrow> Inr (r, h)
      | L_none \<Rightarrow> Inl Invalid_access)"

definition cell_ok :: "'d dict_class \<Rightarrow> schedule \<Rightarrow> 'd DictHander option \<Rightarrow> bool \<Rightarrow> 'd hander_cell \<Rightarrow> bool" where
  "cell_ok C s x stored c \<longleftrightarrow>
     (case cell_arg c of
        None \<Rightarrow> \<forall>w. one C s x w = Inr (cell_hander c, [])
      | Some (ret, l) \<Rightarrow>
          if start_ret s \<noteq> 0 then l = L_none \<and> (stored \<longrightarrow> ret = start_ret s) \<and>
            (\<forall>w. one C s x w = Inr (cell_hander c, [\<lparr>arg_ret = start_ret s, unfinished = False\<rparr>]))
          else \<exists>h r h2. cell_hander c = Some h \<and> loader_rest C s h l = Inr (r, h2) \<and>
            (\<forall>w. one C s x w = Inr (Some h2, [\<lparr>arg_ret = (if w = Before_store then 0 else r), unfinished = (w = After_exit)\<rparr>])) \<and>
            (stored \<longrightarrow> ret = 0 \<or> finished l \<and> ret = r))"

lemma bind_noexcept: "bind_cxx (noexcept_cxx m) (\<lambda>x. Inr (f x)) = noexcept_cxx (bind_cxx m (\<lambda>x. Inr (f x)))"
  by (cases m) (auto simp: noexcept_cxx_def split: cxx_error.splits)

lemma start_loader_ok:
  assumes "loads_run C s x"
  obtains c r where "start_loader C s \<lparr>cell_hander = x, cell_arg = None\<rparr> = Inr (c, r)"
    "cell_ok C s x (r = None) c" "case r of None \<Rightarrow> cell_arg c = None | Some v \<Rightarrow> v = start_ret s \<and> cell_arg c \<noteq> None"
proof (cases x)
  case None
  then show thesis by (intro that) (auto simp: start_loader_def cell_ok_def sync_load_one_def)
next
  case (Some h)
  obtain y where y: "slot h (cur_index h) = Inr y" using assms
    by (auto simp: loads_run_def sync_load_one_def Some bind_cxx_eq_Inr)
  show thesis
  proof (cases "dict_file_path h = [] \<or> cfunc h () = None")
    case True
    show thesis
      by (rule that [of "\<lparr>cell_hander = Some (if dict_file_path h = [] then h else set_slot (cur_index h) None h), cell_arg = None\<rparr>" None])
        (use True y in \<open>auto simp: start_loader_def cell_ok_def sync_load_one_def Some\<close>)
  next
    case False
    then obtain d where d: "dict_file_path h \<noteq> []" "cfunc h () = Some d" by auto
    let ?h = "set_slot (cur_index h) (Some (snd (init C d))) h"
    show thesis
    proof (cases "start_ret s = 0")
      case True
      obtain r h2 where r: "load_dict_by_thread C True (load_files s) (load_skew s) ?h = Inr (r, h2)"
        using assms d y True by (auto simp: loads_run_def sync_load_one_def Some bind_cxx_eq_Inr Let_def)
      show thesis
        by (rule that [of "\<lparr>cell_hander = Some ?h, cell_arg = Some (0, L_ready)\<rparr>" "Some 0"])
          (use d y True r in \<open>auto simp: start_loader_def cell_ok_def sync_load_one_def Some loader_rest_def Let_def finished_def\<close>)
    next
      case False
      show thesis
        by (rule that [of "\<lparr>cell_hander = Some ?h, cell_arg = Some (0, L_none)\<rparr>" "Some (start_ret s)"])
          (use d y False in \<open>auto simp: start_loader_def cell_ok_def sync_load_one_def Some Let_def\<close>)
    qed
  qed
qed

lemma store_ok:
  assumes "cell_ok C s x False c"
  shows "cell_ok C s x True (c\<lparr>cell_arg := map_option (\<lambda>(_, l). (start_ret s, l)) (cell_arg c)\<rparr>)"
  using assms by (auto simp: cell_ok_def split: option.splits if_splits)

lemma loader_step_ok:
  assumes "cell_ok C s x stored c"
  shows "(exited \<and> loader_step C s exited c = Inl Invalid_access \<and> (\<exists>ret l. cell_arg c = Some (ret, l) \<and> \<not> finished l)) \<or>
    (\<exists>c'. loader_step C s exited c = Inr c' \<and> cell_ok C s x stored c' \<and> (cell_arg c' = None \<longleftrightarrow> cell_arg c = None) \<and>
      ((\<exists>ret l. cell_arg c = Some (ret, l) \<and> \<not> finished l) \<or> c' = c))"
proof (cases "\<exists>ret l. cell_arg c = Some (ret, l) \<and> \<not> finished l")
  case False
  then have "loader_step C s exited c = Inr c"
    by (auto simp: loader_step_def finished_def split: option.splits loader.splits prod.splits)
  then show ?thesis using assms by blast
next
  case True
  then obtain ret l where l: "cell_arg c = Some (ret, l)" "\<not> finished l" by blast
  then have s0: "start_ret s = 0" using assms by (auto simp: cell_ok_def finished_def split: if_splits)
  obtain h r h2 where h: "cell_hander c = Some h" "loader_rest C s h l = Inr (r, h2)"
    "\<forall>w. one C s x w = Inr (Some h2, [\<lparr>arg_ret = (if w = Before_store then 0 else r), unfinished = (w = After_exit)\<rparr>])"
    "stored \<longrightarrow> ret = 0"
    using assms l s0 by (auto simp: cell_ok_def)
  show ?thesis
  proof (cases l)
    case L_ready
    show ?thesis
    proof (cases exited)
      case True
      then show ?thesis using h l L_ready by (auto simp: loader_step_def)
    next
      case False
      have rest: "load_dict_by_thread C True (load_files s) (load_skew s) h = Inr (r, h2)"
        using h(2) by (simp add: L_ready loader_rest_def)
      then obtain cur where cur: "slot h (cur_index h) = Inr cur" by (auto simp: load_dict_by_thread_def bind_cxx_eq_Inr)
      show ?thesis
      proof (cases cur)
        case None
        then show ?thesis using h l s0 rest cur False
          by (auto simp: loader_step_def cell_ok_def loader_rest_def load_dict_by_thread_def L_ready finished_def)
      next
        case (Some d)
        let ?h = "h\<lparr>modify_time := get_file_last_mtime (load_files s) (load_skew s) (get_cur_file C d)\<rparr>"
        have "loader_step C s exited c = Inr \<lparr>cell_hander = Some ?h, cell_arg = Some (ret, L_timed d)\<rparr>"
          using h(1) l(1) cur False by (simp add: loader_step_def L_ready Some)
        moreover have "loader_rest C s ?h (L_timed d) = Inr (r, h2)"
          using rest cur by (auto simp: load_dict_by_thread_def loader_rest_def Some bind_cxx_eq_Inr Let_def)
        ultimately show ?thesis using h s0 l by (auto simp: cell_ok_def)
      qed
    qed
  next
    case (L_timed d)
    then obtain ok d' where d: "load C (load_files s) d = Inr (ok, d')" "r = (if ok then 0 else - 1)" "h2 = set_slot (cur_index h) (Some d') h"
      using h(2) by (auto simp: loader_rest_def bind_cxx_eq_Inr)
    have "loader_step C s exited c = Inr \<lparr>cell_hander = Some h2, cell_arg = Some (ret, L_loaded r)\<rparr>"
      using h(1) l(1) d by (simp add: loader_step_def L_timed)
    moreover have "loader_rest C s h2 (L_loaded r) = Inr (r, h2)" by (simp add: loader_rest_def)
    ultimately show ?thesis using h(3,4) s0 l by (auto simp: cell_ok_def)
  next
    case (L_loaded r')
    then show ?thesis using h l s0
      by (auto simp: loader_step_def cell_ok_def loader_rest_def finished_def)
  qed (use l in \<open>simp_all add: finished_def\<close>)
qed

subsection \<open>The invariant of a run\<close>

definition passed :: "'d hander_cell \<Rightarrow> bool" where
  "passed c \<longleftrightarrow> (case cell_arg c of None \<Rightarrow> True | Some (ret, l) \<Rightarrow> ret = 0 \<and> finished l)"

definition stopped_at :: "'d hander_cell \<Rightarrow> bool" where
  "stopped_at c \<longleftrightarrow> (case cell_arg c of None \<Rightarrow> False | Some (ret, l) \<Rightarrow> ret \<noteq> 0 \<and> finished l)"

definition made :: "starter_pc \<Rightarrow> nat \<Rightarrow> bool" where
  "made m i = (case m of S_loop k \<Rightarrow> i < k | S_store k v \<Rightarrow> i \<le> k | _ \<Rightarrow> True)"

definition stored :: "starter_pc \<Rightarrow> nat \<Rightarrow> bool" where
  "stored m i = (case m of S_store k v \<Rightarrow> i \<noteq> k | _ \<Rightarrow> True)"

definition main_ok :: "(nat \<Rightarrow> schedule) \<Rightarrow> 'd startup \<Rightarrow> bool" where
  "main_ok s st \<longleftrightarrow>
     (case main_at st of
        S_loop k \<Rightarrow> k \<le> length (cells st)
      | S_store k v \<Rightarrow> k < length (cells st) \<and> v = start_ret (s k) \<and> cell_arg (cells st ! k) \<noteq> None
      | S_join j \<Rightarrow> j \<le> length (cells st) \<and> (\<forall>i < j. passed (cells st ! i))
      | S_exit r \<Rightarrow> if r = 0 then \<forall>i < length (cells st). passed (cells st ! i)
          else r = - 1 \<and> (\<exists>j < length (cells st). (\<forall>i < j. passed (cells st ! i)) \<and> stopped_at (cells st ! j)))"

definition startup_inv :: "'d dict_class \<Rightarrow> (nat \<Rightarrow> schedule) \<Rightarrow> 'd DictHander option list \<Rightarrow> 'd startup \<Rightarrow> bool" where
  "startup_inv C s hs st \<longleftrightarrow> length (cells st) = length hs \<and> main_ok s st \<and>
     (\<forall>i < length hs. if made (main_at st) i then cell_ok C (s i) (hs ! i) (stored (main_at st) i) (cells st ! i)
        else cells st ! i = \<lparr>cell_hander = hs ! i, cell_arg = None\<rparr>)"

definition all_load :: "'d dict_class \<Rightarrow> (nat \<Rightarrow> schedule) \<Rightarrow> 'd DictHander option list \<Rightarrow> bool" where
  "all_load C s hs \<longleftrightarrow> (\<forall>i < length hs. loads_run C (s i) (hs ! i))"

lemma startup_inv_begin: "startup_inv C s hs (startup_begin hs)"
  by (simp add: startup_inv_def startup_begin_def main_ok_def made_def)

lemma startup_inv_cell:
  assumes "startup_inv C s hs st" "m < length hs"
  shows "made (main_at st) m \<Longrightarrow> cell_ok C (s m) (hs ! m) (stored (main_at st) m) (cells st ! m)"
    "\<not> made (main_at st) m \<Longrightarrow> cells st ! m = \<lparr>cell_hander = hs ! m, cell_arg = None\<rparr>"
  using assms by (auto simp: startup_inv_def split: if_splits)

lemma starter_step_inv:
  assumes i: "startup_inv C s hs st" and L: "all_load C s hs"
  shows "\<exists>st'. starter_step C s st = Inr st' \<and> startup_inv C s hs st'"
proof (cases "main_at st")
  case (S_loop k)
  show ?thesis
  proof (cases "k < length (cells st)")
    case True
    then have k: "k < length hs" "cells st ! k = \<lparr>cell_hander = hs ! k, cell_arg = None\<rparr>" "loads_run C (s k) (hs ! k)"
      using i L S_loop by (auto simp: startup_inv_def made_def all_load_def)
    obtain c r where c: "start_loader C (s k) (cells st ! k) = Inr (c, r)" "cell_ok C (s k) (hs ! k) (r = None) c"
      "case r of None \<Rightarrow> cell_arg c = None | Some v \<Rightarrow> v = start_ret (s k) \<and> cell_arg c \<noteq> None"
      unfolding k(2) by (rule start_loader_ok [OF k(3)])
    have old: "m < k \<Longrightarrow> cell_ok C (s m) (hs ! m) True (cells st ! m)"
      "m < length hs \<Longrightarrow> k < m \<Longrightarrow> cells st ! m = \<lparr>cell_hander = hs ! m, cell_arg = None\<rparr>" for m
      using startup_inv_cell [OF i, of m] k(1) by (simp_all add: S_loop made_def stored_def)
    have "length (cells st) = length hs" using i by (simp add: startup_inv_def)
    then show ?thesis using c old S_loop k(1)
      by (auto simp: starter_step_def startup_inv_def main_ok_def made_def stored_def nth_list_update less_Suc_eq split: option.splits)
  next
    case False
    then show ?thesis using i S_loop by (auto simp: starter_step_def startup_inv_def main_ok_def made_def stored_def)
  qed
next
  case (S_store k v)
  let ?c = "(cells st ! k)\<lparr>cell_arg := map_option (\<lambda>(_, l). (v, l)) (cell_arg (cells st ! k))\<rparr>"
  have k: "k < length hs" "cell_ok C (s k) (hs ! k) False (cells st ! k)" "v = start_ret (s k)"
    using i S_store by (auto simp: startup_inv_def main_ok_def made_def stored_def)
  have "cell_ok C (s k) (hs ! k) True ?c" unfolding k(3) by (rule store_ok [OF k(2)])
  moreover have "m < k \<Longrightarrow> cell_ok C (s m) (hs ! m) True (cells st ! m)"
    "m < length hs \<Longrightarrow> k < m \<Longrightarrow> cells st ! m = \<lparr>cell_hander = hs ! m, cell_arg = None\<rparr>" for m
    using startup_inv_cell [OF i, of m] k(1) by (simp_all add: S_store made_def stored_def)
  moreover have "length (cells st) = length hs" using i by (simp add: startup_inv_def)
  ultimately show ?thesis using S_store k(1)
    by (auto simp: starter_step_def startup_inv_def main_ok_def made_def stored_def nth_list_update less_Suc_eq_le)
next
  case (S_join j)
  show ?thesis
  proof (cases "j < length (cells st) \<and> stopped_at (cells st ! j)")
    case True
    then have "starter_step C s st = Inr (st\<lparr>main_at := S_exit (- 1)\<rparr>)"
      by (auto simp: starter_step_def S_join stopped_at_def split: option.splits)
    moreover have "main_ok s (st\<lparr>main_at := S_exit (- 1)\<rparr>)" using i True by (auto simp: startup_inv_def main_ok_def S_join)
    ultimately show ?thesis using i by (simp add: startup_inv_def S_join made_def stored_def)
  next
    case False
    then show ?thesis using i S_join
    by (auto simp: starter_step_def startup_inv_def main_ok_def made_def stored_def passed_def stopped_at_def less_Suc_eq split: option.splits)
  qed
next
  case (S_exit r)
  then show ?thesis using i by (simp add: starter_step_def)
qed

definition running :: "'d hander_cell \<Rightarrow> bool" where
  "running c \<longleftrightarrow> (\<exists>ret l. cell_arg c = Some (ret, l) \<and> \<not> finished l)"

lemma cell_update_inv:
  assumes i: "startup_inv C s hs st" and k: "k < length hs" "made (main_at st) k"
    and c: "cell_ok C (s k) (hs ! k) (stored (main_at st) k) c" "(cell_arg c = None) = (cell_arg (cells st ! k) = None)"
    and run: "running (cells st ! k)"
  shows "startup_inv C s hs (st\<lparr>cells := (cells st)[k := c]\<rparr>)"
proof -
  let ?st = "st\<lparr>cells := (cells st)[k := c]\<rparr>"
  have len: "length (cells st) = length hs" and m: "main_ok s st" using i by (simp_all add: startup_inv_def)
  have p: "\<not> passed (cells st ! k)" "\<not> stopped_at (cells st ! k)" using run by (auto simp: passed_def stopped_at_def running_def)
  have other: "passed (cells st ! m) \<Longrightarrow> passed (cells ?st ! m)" "stopped_at (cells st ! m) \<Longrightarrow> stopped_at (cells ?st ! m)" for m
    using p by (cases "m = k"; simp)+
  have arg: "cell_arg (cells st ! m) \<noteq> None \<Longrightarrow> cell_arg (cells ?st ! m) \<noteq> None" for m
    using c(2) k(1) len by (cases "m = k") simp_all
  have "main_ok s ?st"
  proof (cases "main_at st")
    case (S_loop j)
    then show ?thesis using m by (simp add: main_ok_def)
  next
    case (S_store j v)
    then show ?thesis using m arg [of j] by (simp add: main_ok_def)
  next
    case (S_join j)
    then show ?thesis using m other(1) by (simp add: main_ok_def del: nth_list_update_eq)
  next
    case (S_exit r)
    then show ?thesis
    proof (cases "r = 0")
      case False
      then obtain j where j: "j < length (cells st)" "\<forall>i < j. passed (cells st ! i)" "stopped_at (cells st ! j)" "r = - 1"
        using m S_exit by (auto simp: main_ok_def)
      then have "\<forall>i < j. passed (cells ?st ! i)" "stopped_at (cells ?st ! j)" using other by blast+
      then show ?thesis using j(1,4) S_exit by (auto simp: main_ok_def)
    qed (use m other(1) in \<open>simp add: main_ok_def\<close>)
  qed
  moreover have "cells ?st ! m = (if m = k then c else cells st ! m)" for m using k(1) len by simp
  ultimately show ?thesis using startup_inv_cell [OF i] c(1) k(2) len by (simp add: startup_inv_def)
qed

lemma loader_step_inv:
  assumes i: "startup_inv C s hs st"
  shows "(\<exists>st'. startup_step C s (Loader k) st = Inr st' \<and> startup_inv C s hs st') \<or>
    startup_step C s (Loader k) st = Inl Invalid_access \<and> has_exited (main_at st) \<and> k < length hs \<and> running (cells st ! k)"
proof (cases "k < length (cells st) \<and> made (main_at st) k")
  case True
  have len: "length (cells st) = length hs" using i by (simp add: startup_inv_def)
  then have k: "k < length hs" "cell_ok C (s k) (hs ! k) (stored (main_at st) k) (cells st ! k)"
    using True startup_inv_cell(1) [OF i, of k] by simp_all
  let ?ex = "has_exited (main_at st)"
  consider "?ex" "loader_step C (s k) ?ex (cells st ! k) = Inl Invalid_access" "running (cells st ! k)"
    | c' where "loader_step C (s k) ?ex (cells st ! k) = Inr c'" "cell_ok C (s k) (hs ! k) (stored (main_at st) k) c'"
        "(cell_arg c' = None) = (cell_arg (cells st ! k) = None)" "running (cells st ! k)"
    | "loader_step C (s k) ?ex (cells st ! k) = Inr (cells st ! k)"
    using loader_step_ok [OF k(2), of ?ex] unfolding running_def by (elim disjE conjE exE) simp_all
  then show ?thesis
  proof cases
    case 1
    then show ?thesis using k(1) len by (simp add: startup_step_def)
  next
    case (2 c')
    then show ?thesis using cell_update_inv [OF i k(1) _ 2(2,3,4)] True by (simp add: startup_step_def)
  next
    case 3
    then show ?thesis using i True by (simp add: startup_step_def)
  qed
next
  case False
  have "startup_step C s (Loader k) st = Inr st"
  proof (cases "k < length (cells st)")
    case True
    then have "cell_arg (cells st ! k) = None" using False startup_inv_cell(2) [OF i, of k] i by (simp add: startup_inv_def)
    then show ?thesis using True by (simp add: startup_step_def loader_step_def)
  qed (simp add: startup_step_def)
  then show ?thesis using i by blast
qed

subsection \<open>Every run is one of the sequential model's\<close>

text \<open>When the loader's result counts as written, seen from the end of the run.\<close>

definition observed :: "'d hander_cell \<Rightarrow> ret_write" where
  "observed c =
     (if running c then After_exit
      else case cell_arg c of Some (ret, L_done r) \<Rightarrow> if ret = r then After_store else Before_store | _ \<Rightarrow> After_store)"

definition observed_schedule :: "(nat \<Rightarrow> schedule) \<Rightarrow> 'd startup \<Rightarrow> nat \<Rightarrow> schedule" where
  "observed_schedule s st i = (s i)\<lparr>ret_write := observed (cells st ! i)\<rparr>"

lemma cell_observed:
  assumes "cell_ok C s x True c"
  shows "\<exists>y. one C s x (observed c) = Inr y \<and> (running c \<or> fst y = cell_hander c) \<and>
    list_ex unfinished (snd y) = running c \<and> (passed c \<longrightarrow> list_all (\<lambda>a. arg_ret a = 0) (snd y)) \<and>
    (stopped_at c \<longrightarrow> (\<exists>a. snd y = [a] \<and> arg_ret a \<noteq> 0))"
proof (cases "cell_arg c")
  case None
  then show ?thesis using assms by (auto simp: cell_ok_def running_def stopped_at_def)
next
  case (Some p)
  then obtain ret l where a: "cell_arg c = Some (ret, l)" by (cases p) auto
  show ?thesis
  proof (cases "start_ret s = 0")
    case True
    then show ?thesis using assms a
      by (cases l) (auto simp: cell_ok_def running_def finished_def observed_def passed_def stopped_at_def loader_rest_def)
  next
    case False
    then show ?thesis using assms a
      by (auto simp: cell_ok_def running_def finished_def passed_def stopped_at_def)
  qed
qed

lemma sync_load_all_map:
  "(\<And>i. i < length hs \<Longrightarrow> sync_load_one C ft (s (n + i)) (hs ! i) = Inr (f i)) \<Longrightarrow>
   sync_load_all C ft s n hs = Inr (map (\<lambda>i. fst (f i)) [0..<length hs], concat (map (\<lambda>i. snd (f i)) [0..<length hs]))"
proof (induction hs arbitrary: n f)
  case (Cons x hs)
  have "sync_load_one C ft (s (Suc n + i)) (hs ! i) = Inr (f (Suc i))" if "i < length hs" for i
    using Cons.prems [of "Suc i"] that by simp
  from Cons.IH [OF this] have "sync_load_all C ft s (Suc n) hs =
      Inr (map (\<lambda>i. fst (f (Suc i))) [0..<length hs], concat (map (\<lambda>i. snd (f (Suc i))) [0..<length hs]))" by simp
  moreover have "sync_load_one C ft (s n) x = Inr (f 0)" using Cons.prems [of 0] by simp
  moreover have "[0..<length (x # hs)] = 0 # map Suc [0..<length hs]"
    by (simp add: map_Suc_upt upt_conv_Cons del: upt_Suc)
  ultimately show ?case by (simp add: comp_def case_prod_beta del: upt_Suc)
qed simp

lemma join_all_zero: "list_all (\<lambda>a. arg_ret a = 0) as \<Longrightarrow> join_all (as @ bs) = join_all bs"
  by (induction as) simp_all

lemma join_all_default: "join_all (replicate n \<lparr>arg_ret = 0, unfinished = False\<rparr>) = Inr 0"
  by (induction n) simp_all

text \<open>What the sequential model does with one handler explains what the run has done with it.\<close>

definition explains ::
  "'d dict_class \<Rightarrow> (nat \<Rightarrow> schedule) \<Rightarrow> 'd DictHander option list \<Rightarrow> 'd startup \<Rightarrow> nat \<Rightarrow> 'd DictHander option \<times> load_arg list \<Rightarrow> bool" where
  "explains C s hs st k y \<longleftrightarrow> sync_load_one C True (observed_schedule s st k) (hs ! k) = Inr y \<and>
    (running (cells st ! k) \<or> fst y = cell_hander (cells st ! k)) \<and> list_ex unfinished (snd y) = running (cells st ! k) \<and>
    (passed (cells st ! k) \<longrightarrow> list_all (\<lambda>a. arg_ret a = 0) (snd y)) \<and>
    (stopped_at (cells st ! k) \<longrightarrow> (\<exists>a. snd y = [a] \<and> arg_ret a \<noteq> 0))"

lemma explains_ex:
  assumes i: "startup_inv C s hs st" and m: "main_at st = S_exit r"
  shows "\<exists>f. \<forall>k < length (cells st). explains C s hs st k (f k)"
proof -
  have "\<exists>y. explains C s hs st k y" if "k < length (cells st)" for k
  proof -
    have "cell_ok C (s k) (hs ! k) True (cells st ! k)"
      using startup_inv_cell(1) [OF i, of k] that i by (simp add: made_def stored_def m startup_inv_def)
    from cell_observed [OF this] show ?thesis unfolding explains_def observed_schedule_def .
  qed
  then show ?thesis by metis
qed

lemma not_running: "passed c \<or> stopped_at c \<Longrightarrow> \<not> running c"
  by (auto simp: passed_def stopped_at_def running_def split: option.splits)

lemma explains_zero:
  assumes "\<forall>k < length (cells st). explains C s hs st k (f k)" "\<forall>k < j. passed (cells st ! k)" "j \<le> length (cells st)"
  shows "list_all (\<lambda>a. arg_ret a = 0) (concat (map (\<lambda>k. snd (f k)) [0..<j]))"
proof -
  have "arg_ret a = 0" if "k < j" "a \<in> set (snd (f k))" for k a
  proof -
    have "explains C s hs st k (f k)" "passed (cells st ! k)" using assms that(1) by simp_all
    then show ?thesis using that(2) by (simp add: explains_def list_all_iff)
  qed
  then show ?thesis by (auto simp: list_all_iff)
qed

text \<open>The join loop, when the starting thread has returned \<open>r\<close>; \<open>z\<close> are the elements of \<open>load_args\<close> not used.\<close>

lemma explains_join:
  fixes st :: "'d startup"
  assumes f: "\<forall>k < length (cells st). explains C s hs st k (f k)" and main: "main_ok s st" and m: "main_at st = S_exit r"
    and z: "\<not> list_ex unfinished z" "join_all z = Inr 0"
  shows "join_all (concat (map (\<lambda>k. snd (f k)) [0..<length (cells st)]) @ z) =
    (if \<exists>k < length (cells st). running (cells st ! k) then Inl Invalid_access else Inr r)"
proof (cases "r = 0")
  case True
  then have p: "\<forall>k < length (cells st). passed (cells st ! k)" using main by (simp add: main_ok_def m)
  then have "\<nexists>k. k < length (cells st) \<and> running (cells st ! k)" using not_running by blast
  then show ?thesis using True by (simp add: join_all_zero [OF explains_zero [OF f p order_refl]] z(2))
next
  case False
  let ?n = "length (cells st)" and ?args = "\<lambda>xs. concat (map (\<lambda>k. snd (f k)) xs)"
  obtain j where j: "j < ?n" "\<forall>k < j. passed (cells st ! k)" "stopped_at (cells st ! j)" "r = - 1"
    using False main by (auto simp: main_ok_def m)
  obtain a where a: "snd (f j) = [a]" "arg_ret a \<noteq> 0" using f j(1,3) by (auto simp: explains_def)
  have "[0..<?n] = [0..<j] @ j # [Suc j..<?n]"
    using upt_add_eq_append [of 0 j "?n - j"] j(1) by (simp add: upt_conv_Cons)
  then have args: "?args [0..<?n] = ?args [0..<j] @ a # ?args [Suc j..<?n]" by (simp add: a(1))
  have "list_ex unfinished (?args [Suc j..<?n]) \<longleftrightarrow> (\<exists>k < ?n. j < k \<and> running (cells st ! k))"
    using f by (fastforce simp: explains_def list_ex_iff)
  also have "\<dots> \<longleftrightarrow> (\<exists>k < ?n. running (cells st ! k))" using j not_running by (metis linorder_neqE_nat)
  finally have "list_ex unfinished (?args [Suc j..<?n] @ z) \<longleftrightarrow> (\<exists>k < ?n. running (cells st ! k))" using z(1) by simp
  then show ?thesis unfolding args append_assoc append_Cons join_all_zero [OF explains_zero [OF f j(2) less_imp_le [OF j(1)]]]
    using a(2) j(4) by simp
qed

lemma observed_load:
  assumes i: "startup_inv C s (dict_hander_vect M) st" and m: "main_at st = S_exit r"
  shows "parallel_sync_load C True (observed_schedule s st) M =
    (if \<exists>k < length (cells st). running (cells st ! k) then Inl Invalid_access
     else Inr (r, M\<lparr>dict_hander_vect := map cell_hander (cells st)\<rparr>))"
proof -
  let ?hs = "dict_hander_vect M" and ?n = "length (cells st)"
  have len: "length ?hs = ?n" and main: "main_ok s st" using i by (simp_all add: startup_inv_def)
  obtain f where f: "\<forall>k < ?n. explains C s ?hs st k (f k)" using explains_ex [OF i m] by blast
  let ?args = "concat (map (\<lambda>k. snd (f k)) [0..<?n])"
  have all: "sync_load_all C True (observed_schedule s st) 0 ?hs = Inr (map (\<lambda>k. fst (f k)) [0..<?n], ?args)"
    using sync_load_all_map [of ?hs C True "observed_schedule s st" 0 f] f len by (simp add: explains_def)
  define z where "z = replicate (?n - length ?args) \<lparr>arg_ret = 0, unfinished = False\<rparr>"
  have z: "\<not> list_ex unfinished z" "join_all z = Inr 0" by (simp_all add: z_def join_all_default list_ex_iff)
  have "parallel_sync_load C True (observed_schedule s st) M =
      bind_cxx (join_all (?args @ z)) (\<lambda>ret. Inr (ret, M\<lparr>dict_hander_vect := map (\<lambda>k. fst (f k)) [0..<?n]\<rparr>))"
    using all len by (cases "?hs = []") (auto simp: parallel_sync_load_def z_def)
  moreover have "map (\<lambda>k. fst (f k)) [0..<?n] = map cell_hander (cells st)" if "\<nexists>k. k < ?n \<and> running (cells st ! k)"
    using f that by (intro nth_equalityI) (auto simp: explains_def)
  ultimately show ?thesis by (auto simp: explains_join [OF f main m z])
qed

subsection \<open>Every run ends\<close>

definition loader_left :: "'d hander_cell \<Rightarrow> nat" where
  "loader_left c = (case cell_arg c of Some (ret, L_ready) \<Rightarrow> 3 | Some (ret, L_timed d) \<Rightarrow> 2 | Some (ret, L_loaded r) \<Rightarrow> 1 | _ \<Rightarrow> 0)"

definition main_left :: "nat \<Rightarrow> starter_pc \<Rightarrow> nat" where
  "main_left n m = (case m of S_loop k \<Rightarrow> 5 * (n - k) + n + 2 | S_store k v \<Rightarrow> 5 * (n - Suc k) + n + 3 | S_join j \<Rightarrow> n - j + 1 | S_exit r \<Rightarrow> 0)"

definition startup_left :: "'d startup \<Rightarrow> nat" where
  "startup_left st = main_left (length (cells st)) (main_at st) + sum_list (map loader_left (cells st))"

definition complete :: "'d startup \<Rightarrow> bool" where
  "complete st \<longleftrightarrow> has_exited (main_at st) \<and> list_all (\<lambda>c. \<not> running c) (cells st)"

lemma sum_loader_update:
  "k < length cs \<Longrightarrow> sum_list (map loader_left (cs[k := c])) + loader_left (cs ! k) = sum_list (map loader_left cs) + loader_left c"
proof -
  assume k: "k < length cs"
  have "loader_left (cs ! k) \<le> sum_list (map loader_left cs)" using k by (intro member_le_sum_list) auto
  then show ?thesis using k by (simp add: map_update sum_list_update)
qed

lemma loader_step_left:
  "loader_step C s ex c = Inr c' \<Longrightarrow> c' = c \<or> loader_left c' < loader_left c"
  by (auto simp: loader_step_def loader_left_def bind_cxx_eq_Inr split: option.splits loader.splits prod.splits if_splits)

lemma start_loader_left: "start_loader C s c = Inr (c', r) \<Longrightarrow> loader_left c' \<le> loader_left c + (case r of None \<Rightarrow> 0 | Some v \<Rightarrow> 3)"
  by (auto simp: start_loader_def loader_left_def bind_cxx_eq_Inr split: option.splits if_splits)

lemma starter_step_left:
  assumes "starter_step C s st = Inr st'" and "main_ok s st"
  shows "st' = st \<or> startup_left st' < startup_left st"
proof (cases "main_at st")
  case (S_loop k)
  show ?thesis
  proof (cases "k < length (cells st)")
    case True
    then obtain c r where c: "start_loader C (s k) (cells st ! k) = Inr (c, r)"
      "st' = \<lparr>cells = (cells st)[k := c], main_at = (case r of None \<Rightarrow> S_loop (Suc k) | Some v \<Rightarrow> S_store k v)\<rparr>"
      using assms(1) by (auto simp: starter_step_def S_loop bind_cxx_eq_Inr)
    then show ?thesis using start_loader_left [OF c(1)] sum_loader_update [OF True, of c] True
      by (auto simp: startup_left_def main_left_def S_loop split: option.splits)
  next
    case False
    then show ?thesis using assms by (auto simp: starter_step_def S_loop startup_left_def main_left_def main_ok_def)
  qed
next
  case (S_store k v)
  let ?c = "(cells st ! k)\<lparr>cell_arg := map_option (\<lambda>(_, l). (v, l)) (cell_arg (cells st ! k))\<rparr>"
  have k: "k < length (cells st)" using assms(2) by (simp add: main_ok_def S_store)
  have "loader_left ?c = loader_left (cells st ! k)"
    by (auto simp: loader_left_def split: option.splits loader.splits)
  then show ?thesis using assms(1) sum_loader_update [OF k, of ?c] k
    by (auto simp: starter_step_def S_store startup_left_def main_left_def)
next
  case (S_join j)
  then show ?thesis using assms
    by (auto simp: starter_step_def startup_left_def main_left_def main_ok_def split: option.splits if_splits)
qed (use assms in \<open>simp add: starter_step_def\<close>)

lemma startup_step_left:
  assumes "startup_step C s a st = Inr st'" and "main_ok s st"
  shows "st' = st \<or> startup_left st' < startup_left st"
proof (cases a)
  case Starter
  then show ?thesis using assms starter_step_left by (simp add: startup_step_def)
next
  case (Loader k)
  show ?thesis
  proof (cases "k < length (cells st)")
    case True
    then obtain c where c: "loader_step C (s k) (has_exited (main_at st)) (cells st ! k) = Inr c" "st' = st\<lparr>cells := (cells st)[k := c]\<rparr>"
      using assms(1) by (auto simp: startup_step_def Loader bind_cxx_eq_Inr)
    then show ?thesis using loader_step_left [OF c(1)] sum_loader_update [OF True, of c] by (auto simp: startup_left_def)
  qed (use assms(1) in \<open>simp add: startup_step_def Loader\<close>)
qed

text \<open>A run that is not complete can go on: no thread waits for ever.\<close>

lemma running_decreases:
  assumes "running c" "cell_ok C s x b c" "loader_step C s ex c = Inr c'"
  shows "loader_left c' < loader_left c"
proof -
  obtain ret l where l: "cell_arg c = Some (ret, l)" "\<not> finished l" using assms(1) by (auto simp: running_def)
  then obtain h where h: "cell_hander c = Some h" using assms(2) by (auto simp: cell_ok_def finished_def split: if_splits)
  show ?thesis
  proof (cases l)
    case L_ready
    then show ?thesis using l h assms(3) by (auto simp: loader_step_def loader_left_def bind_cxx_eq_Inr split: if_splits option.splits)
  next
    case (L_timed d)
    then show ?thesis using l h assms(3) by (auto simp: loader_step_def loader_left_def bind_cxx_eq_Inr)
  next
    case (L_loaded r)
    then show ?thesis using l h assms(3) by (auto simp: loader_step_def loader_left_def split: if_splits)
  qed (use l in \<open>simp_all add: finished_def\<close>)
qed

lemma running_moves:
  assumes "k < length (cells st)" "running (cells st ! k)" "cell_ok C (s k) x b (cells st ! k)"
  shows "startup_step C s (Loader k) st \<noteq> Inr st"
proof
  assume "startup_step C s (Loader k) st = Inr st"
  then obtain c where c: "loader_step C (s k) (has_exited (main_at st)) (cells st ! k) = Inr c" "st = st\<lparr>cells := (cells st)[k := c]\<rparr>"
    using assms(1) by (auto simp: startup_step_def bind_cxx_eq_Inr)
  from arg_cong [OF c(2), of cells] have "cells st = (cells st)[k := c]" by simp
  then have "c = cells st ! k" using assms(1) by (metis nth_list_update_eq)
  then show False using running_decreases [OF assms(2,3) c(1)] by simp
qed

lemma startup_goes_on:
  assumes i: "startup_inv C s hs st" and L: "all_load C s hs" and "\<not> complete st"
  shows "\<exists>a. startup_step C s a st \<noteq> Inr st"
proof (cases "\<exists>k < length (cells st). running (cells st ! k)")
  case True
  then obtain k where k: "k < length (cells st)" "running (cells st ! k)" by blast
  have n: "k < length hs" using i k(1) by (simp add: startup_inv_def)
  have "made (main_at st) k" using startup_inv_cell(2) [OF i n] k(2) by (cases "made (main_at st) k") (simp_all add: running_def)
  then show ?thesis using running_moves [of k st C s] k startup_inv_cell(1) [OF i n] by blast
next
  case False
  then have e: "\<not> has_exited (main_at st)" using assms(3) by (auto simp: complete_def list_all_length)
  obtain st' where st': "starter_step C s st = Inr st'" using starter_step_inv [OF i L] by blast
  have "main_at st' \<noteq> main_at st"
  proof (cases "main_at st")
    case (S_join j)
    then show ?thesis using st' False by (auto simp: starter_step_def running_def split: option.splits if_splits)
  qed (use st' e in \<open>auto simp: starter_step_def has_exited_def bind_cxx_eq_Inr split: if_splits option.splits\<close>)
  then have "st' \<noteq> st" by blast
  then show ?thesis using st' by (intro exI [of _ Starter]) (auto simp: startup_step_def)
qed

subsection \<open>Properties\<close>

lemma startup_run_inv: "startup_run C s hs st \<Longrightarrow> all_load C s hs \<Longrightarrow> startup_inv C s hs st"
proof (induction st rule: startup_run.induct)
  case Run_begin
  show ?case by (rule startup_inv_begin)
next
  case (Run_step st a st')
  then have i: "startup_inv C s hs st" by simp
  show ?case
  proof (cases a)
    case Starter
    then show ?thesis using starter_step_inv [OF i Run_step.prems] Run_step.hyps(2) by (auto simp: startup_step_def)
  next
    case (Loader k)
    then show ?thesis using loader_step_inv [OF i, of k] Run_step.hyps(2) by auto
  qed
qed

lemma complete_running: "complete st \<longleftrightarrow> has_exited (main_at st) \<and> \<not> (\<exists>k < length (cells st). running (cells st ! k))"
  by (auto simp: complete_def list_all_length)

lemma startup_step_outcome:
  assumes i: "startup_inv C s hs st" and L: "all_load C s hs"
  shows "case startup_step C s a st of Inr st' \<Rightarrow> st' = st \<or> startup_left st' < startup_left st
    | Inl e \<Rightarrow> e = Invalid_access \<and> has_exited (main_at st) \<and> \<not> complete st"
proof (cases "startup_step C s a st")
  case (Inr st')
  then show ?thesis using startup_step_left [OF Inr] i by (simp add: startup_inv_def)
next
  case (Inl e)
  show ?thesis
  proof (cases a)
    case Starter
    then show ?thesis using starter_step_inv [OF i L] Inl by (simp add: startup_step_def)
  next
    case (Loader k)
    then show ?thesis using loader_step_inv [OF i, of k] Inl i by (auto simp: complete_running startup_inv_def)
  qed
qed

lemma parallel_load_sequential:
  assumes "startup_run C s (dict_hander_vect M) st" and "all_load C s (dict_hander_vect M)"
  shows "(case main_at st of
      S_exit r \<Rightarrow> parallel_sync_load C True (observed_schedule s st) M =
        (if complete st then Inr (r, M\<lparr>dict_hander_vect := map cell_hander (cells st)\<rparr>) else Inl Invalid_access)
    | _ \<Rightarrow> True) \<and>
    (complete st \<or> (\<exists>a. startup_step C s a st \<noteq> Inr st)) \<and>
    (\<forall>a. case startup_step C s a st of Inr st' \<Rightarrow> st' = st \<or> startup_left st' < startup_left st
      | Inl e \<Rightarrow> e = Invalid_access \<and> has_exited (main_at st) \<and> \<not> complete st)"
proof (intro conjI allI)
  have i: "startup_inv C s (dict_hander_vect M) st" by (rule startup_run_inv [OF assms])
  show "case main_at st of
      S_exit r \<Rightarrow> parallel_sync_load C True (observed_schedule s st) M =
        (if complete st then Inr (r, M\<lparr>dict_hander_vect := map cell_hander (cells st)\<rparr>) else Inl Invalid_access)
    | _ \<Rightarrow> True"
    using observed_load [OF i] by (auto simp: complete_running has_exited_def split: starter_pc.splits)
  show "complete st \<or> (\<exists>a. startup_step C s a st \<noteq> Inr st)" using startup_goes_on [OF i assms(2)] by blast
  show "case startup_step C s a st of Inr st' \<Rightarrow> st' = st \<or> startup_left st' < startup_left st
      | Inl e \<Rightarrow> e = Invalid_access \<and> has_exited (main_at st) \<and> \<not> complete st" for a
    by (rule startup_step_outcome [OF i assms(2)])
qed

text \<open>C26. However the starting thread and the loader threads interleave, the parallel load is one of
  the sequential model's, provided that no load throws: once the starting thread has returned, the threads that are still
  running decide. If there are none, the result and the handlers are those of \<open>parallel_sync_load\<close>, for the moments at
  which the threads were seen to write their results; if there is one, it will write to storage that is gone. Until then no
  step fails, no thread waits for ever, and every step that does something brings the end closer.\<close>

theorem parallel_load_interleavings:
  assumes "startup_run C s (dict_hander_vect M) st" and "all_load C s (dict_hander_vect M)"
  shows "(case main_at st of
      S_exit r \<Rightarrow> parallel_sync_load C True (observed_schedule s st) M =
        (if complete st then Inr (r, M\<lparr>dict_hander_vect := map cell_hander (cells st)\<rparr>) else Inl Invalid_access)
    | _ \<Rightarrow> True) \<and>
    (complete st \<or> (\<exists>a. startup_step C s a st \<noteq> Inr st)) \<and>
    (\<forall>a. case startup_step C s a st of Inr st' \<Rightarrow> st' = st \<or> startup_left st' < startup_left st
      | Inl e \<Rightarrow> e = Invalid_access \<and> has_exited (main_at st) \<and> \<not> complete st)"
  by (rule parallel_load_sequential [OF assms])

text \<open>A run of one handler whose load fails: the thread writes -1 before the starting thread stores the 0 that
  \<open>bthread_start_background\<close> returned, and the load succeeds.\<close>

fun startup_exec :: "'d dict_class \<Rightarrow> (nat \<Rightarrow> schedule) \<Rightarrow> actor list \<Rightarrow> 'd startup \<Rightarrow> 'd startup cxx" where
  "startup_exec C s [] st = Inr st"
| "startup_exec C s (a # as) st = bind_cxx (startup_step C s a st) (startup_exec C s as)"

lemma startup_exec_run:
  "startup_run C s hs st \<Longrightarrow> startup_exec C s as st = Inr st' \<Longrightarrow> startup_run C s hs st'"
  by (induction as arbitrary: st) (auto simp: bind_cxx_eq_Inr intro: Run_step)

definition failing_class :: "nat dict_class" where
  "failing_class = \<lparr>construct = (\<lambda>_. 0), init = (\<lambda>d. (True, d)), load = (\<lambda>fs d. Inr (False, d)), get_cur_file = (\<lambda>_. [])\<rparr>"

definition failing_hander :: "nat DictHander" where
  "failing_hander = DictHander_new\<lparr>dict_file_path := ''d'', cfunc := (\<lambda>_. Some 0)\<rparr>"

definition failing_manager :: "nat DictManager" where
  "failing_manager = DictManager_new\<lparr>dict_hander_vect := [Some failing_hander]\<rparr>"

definition plain_schedule :: "nat \<Rightarrow> schedule" where
  "plain_schedule n = \<lparr>start_ret = 0, ret_write = After_store, load_files = (\<lambda>_. Missing), load_skew = 0\<rparr>"

definition overwritten :: "nat startup" where
  "overwritten = \<lparr>cells = [\<lparr>cell_hander = Some (set_slot 0 (Some 0) failing_hander), cell_arg = Some (0, L_done (- 1))\<rparr>],
     main_at = S_exit 0\<rparr>"

lemma overwritten_run: "startup_run failing_class plain_schedule (dict_hander_vect failing_manager) overwritten"
proof (rule startup_exec_run [OF Run_begin])
  show "startup_exec failing_class plain_schedule [Starter, Loader 0, Loader 0, Loader 0, Starter, Starter, Starter, Starter]
      (startup_begin (dict_hander_vect failing_manager)) = Inr overwritten"
    by (simp add: startup_step_def starter_step_def loader_step_def start_loader_def has_exited_def startup_begin_def overwritten_def
        failing_manager_def DictManager_new_def failing_hander_def failing_class_def plain_schedule_def DictHander_new_def slot_def
        set_slot_def finished_def get_file_last_mtime_def)
qed

lemma failing_load: "all_load failing_class plain_schedule (dict_hander_vect failing_manager)"
  by (simp add: all_load_def loads_run_def failing_manager_def DictManager_new_def failing_hander_def failing_class_def
      plain_schedule_def DictHander_new_def slot_def sync_load_one_def load_dict_by_thread_def set_slot_def Let_def)

theorem parallel_load_interleavings_witness:
  "parallel_sync_load failing_class True (observed_schedule plain_schedule overwritten) failing_manager =
    Inr (0, failing_manager\<lparr>dict_hander_vect := map cell_hander (cells overwritten)\<rparr>)"
  using parallel_load_interleavings [OF overwritten_run failing_load]
  by (simp add: overwritten_def complete_def has_exited_def running_def finished_def)

text \<open>The two dictionaries of \<open>dicts.cpp\<close>: with a well-formed file every interleaving runs without an error and
  ends with both of them loaded.\<close>

lemma startup_always_loads:
  fixes mk :: "string \<Rightarrow> dict_object"
  assumes run: "startup_run (object_class castI castD mk) s (dict_hander_vect (registered_dicts castI castD)) st"
    and es: "\<forall>e \<in> set es. good_entry castI castD kf vf e" and s: "\<forall>n. start_ret (s n) = 0"
    and f: "\<forall>n. \<exists>t. load_files (s n) offer_bid_ratio_path = Regular t (dict_text es)"
  shows "\<exists>st'. startup_step (object_class castI castD mk) s a st = Inr st'"
    and "complete st \<Longrightarrow> main_at st = S_exit 0 \<and> map GET_DICT (map cell_hander (cells st)) =
     [Inr (Some (Offer \<lparr>offer_dict_file = offer_bid_ratio_path,
        offer_exp_ratio = map_of (map (\<lambda>e. (kf (fst e), vf (snd e))) es)\<rparr>)),
      Inr (Some (Common \<lparr>common_dict_file = offer_bid_ratio_path,
        key_value_mapping = map_of (rev (map (\<lambda>e. (kf (fst e), vf (snd e))) es))\<rparr>))]"
proof -
  let ?C = "object_class castI castD mk" and ?M = "registered_dicts castI castD" and ?s = "observed_schedule s st"
  have L: "\<exists>d. object_load castI castD (load_files (s n)) (Offer (OfferBidRatio_new offer_bid_ratio_path)) = Inr (True, d)"
    "\<exists>d. object_load castI castD (load_files (s n)) (Common (CommonFileDict_new offer_bid_ratio_path)) = Inr (True, d)" for n
  proof -
    obtain t where t: "load_files (s n) offer_bid_ratio_path = Regular t (dict_text es)" using f by blast
    show "\<exists>d. object_load castI castD (load_files (s n)) (Offer (OfferBidRatio_new offer_bid_ratio_path)) = Inr (True, d)"
      "\<exists>d. object_load castI castD (load_files (s n)) (Common (CommonFileDict_new offer_bid_ratio_path)) = Inr (True, d)"
      using object_load_good [of es castI castD kf vf "load_files (s n)" t, OF es t] by blast+
  qed
  have all: "all_load ?C s (dict_hander_vect ?M)"
    unfolding all_load_def loads_run_def
  proof (intro allI impI)
    fix n
    assume n: "n < length (dict_hander_vect ?M)"
    show "\<exists>y. one ?C (s n) (dict_hander_vect ?M ! n) After_store = Inr y"
    proof (cases n)
      case 0
      obtain d where "object_load castI castD (load_files (s 0)) (Offer (OfferBidRatio_new offer_bid_ratio_path)) = Inr (True, d)"
        using L by blast
      then show ?thesis using sync_load_registered [of "s 0\<lparr>ret_write := After_store\<rparr>" castI castD
              "Offer (OfferBidRatio_new offer_bid_ratio_path)" True d mk "''offer_bid_ratio''"] s
        by (auto simp: registered_vect 0)
    next
      case (Suc m)
      then have m: "n = 1" using n by (simp add: registered_vect)
      obtain d where "object_load castI castD (load_files (s 1)) (Common (CommonFileDict_new offer_bid_ratio_path)) = Inr (True, d)"
        using L by blast
      then show ?thesis using sync_load_registered [of "s 1\<lparr>ret_write := After_store\<rparr>" castI castD
              "Common (CommonFileDict_new offer_bid_ratio_path)" True d mk "''common_dict_info_offer''"] s
        by (auto simp: registered_vect m)
    qed
  qed
  obtain M' where M': "parallel_sync_load ?C True ?s ?M = Inr (0, M')" and G: "map GET_DICT (dict_hander_vect M') =
     [Inr (Some (Offer \<lparr>offer_dict_file = offer_bid_ratio_path,
        offer_exp_ratio = map_of (map (\<lambda>e. (kf (fst e), vf (snd e))) es)\<rparr>)),
      Inr (Some (Common \<lparr>common_dict_file = offer_bid_ratio_path,
        key_value_mapping = map_of (rev (map (\<lambda>e. (kf (fst e), vf (snd e))) es))\<rparr>))]"
  proof -
    obtain t0 where "load_files (s 0) offer_bid_ratio_path = Regular t0 (dict_text es)" using f by blast
    moreover obtain t1 where "load_files (s 1) offer_bid_ratio_path = Regular t1 (dict_text es)" using f by blast
    ultimately have ft: "load_files (?s 0) offer_bid_ratio_path = Regular t0 (dict_text es)"
      "load_files (?s 1) offer_bid_ratio_path = Regular t1 (dict_text es)" by (simp_all add: observed_schedule_def)
    note L = object_load_good(1) [of es castI castD kf vf "load_files (?s 0)" t0, OF es ft(1)]
      object_load_good(2) [of es castI castD kf vf "load_files (?s 1)" t1, OF es ft(2)]
    show thesis
      by (rule startup_registered [of ?s castI castD True _ True, OF _ _ L(1) L(2), where mk = mk])
        (use s that in \<open>auto simp: observed_schedule_def\<close>)
  qed
  note I = parallel_load_sequential [OF run all]
  have final: "complete st" "r = 0" "map cell_hander (cells st) = dict_hander_vect M'" if "main_at st = S_exit r" for r
    using conjunct1 [OF I] M' that by (auto split: if_splits)
  show "\<exists>st'. startup_step ?C s a st = Inr st'"
  proof (cases "startup_step ?C s a st")
    case (Inl e)
    have "case startup_step ?C s a st of Inr st' \<Rightarrow> st' = st \<or> startup_left st' < startup_left st
      | Inl e \<Rightarrow> e = Invalid_access \<and> has_exited (main_at st) \<and> \<not> complete st"
      using conjunct2 [OF conjunct2 [OF I]] by blast
    then show ?thesis using final(1) Inl by (auto simp: has_exited_def split: starter_pc.splits)
  qed blast
  assume "complete st"
  then obtain r where "main_at st = S_exit r" by (auto simp: complete_running has_exited_def split: starter_pc.splits)
  then show "main_at st = S_exit 0 \<and> map GET_DICT (map cell_hander (cells st)) =
     [Inr (Some (Offer \<lparr>offer_dict_file = offer_bid_ratio_path,
        offer_exp_ratio = map_of (map (\<lambda>e. (kf (fst e), vf (snd e))) es)\<rparr>)),
      Inr (Some (Common \<lparr>common_dict_file = offer_bid_ratio_path,
        key_value_mapping = map_of (rev (map (\<lambda>e. (kf (fst e), vf (snd e))) es))\<rparr>))]"
    using final G by simp
qed

end
