(* ===== verification/Processors.thy ===== *)
theory Processors
  imports Binary_Float
begin

text \<open>
  The graph processors of the ranking service (\<open>example/brpc/processor\<close>) and the data they exchange
  (\<open>example/brpc/common/common.h\<close>, the messages of \<open>proto/demo_proto.proto\<close>). A processor reads
  the data it depends on and emits its results; the graph library that decides when a
  processor runs is not modelled, so a run is a sequence of processors.
\<close>

subsection \<open>Data\<close>

record RequestInfo =
  timeout :: "32 word"
  price :: bfloat
  request_id :: string
  adx :: string
  one_id :: string

record PrerankInfo =
  pre_queue_id :: "32 word"
  pre_index :: "32 word"
  offer_id :: "64 word"
  pre_pivr :: bfloat
  pre_ecpm :: bfloat
  pre_request_id :: string

record RankInfo =
  rank_index :: "32 word"
  rank_pivr :: bfloat
  rank_ecpm :: bfloat
  rank_request_id :: string

record ResponseInfo =
  resp_timeout :: "32 word"
  bid_price :: bfloat
  bid_floor :: bfloat
  resp_request_id :: string

text \<open>The fields of the messages \<open>RsRequest\<close> and \<open>RsResponse\<close> the processors use.\<close>

record RsRequest =
  rq_request_id :: string
  rq_adx :: string
  rq_one_id :: string
  rq_timeout :: "32 word"
  rq_ad_type :: string
  rq_channel :: string

record RsResponse =
  rs_status_code :: "32 word"
  rs_error_msg :: string
  rs_request_id :: string
  rs_ext_algo_list :: string

text \<open>Doubles: the literals of the sources, correctly rounded, and multiplication.\<close>

definition dbl :: "nat \<Rightarrow> bfloat" where
  "dbl n = fl_of_nat 53 n"

definition lit_0_02 :: bfloat where
  "lit_0_02 = \<lparr>mant = 5764607523034235, expo = - 58\<rparr>"

definition lit_0_01 :: bfloat where
  "lit_0_01 = \<lparr>mant = 5764607523034235, expo = - 59\<rparr>"

definition PrerankInfo_new :: PrerankInfo where
  "PrerankInfo_new = \<lparr>pre_queue_id = 0, pre_index = - 1, offer_id = 0, pre_pivr = dbl 0, pre_ecpm = dbl 0,
     pre_request_id = []\<rparr>"

definition RankInfo_new :: RankInfo where
  "RankInfo_new = \<lparr>rank_index = - 1, rank_pivr = dbl 0, rank_ecpm = dbl 0, rank_request_id = []\<rparr>"

text \<open>The named data of the graph; \<open>None\<close> is a datum nobody has emitted.\<close>

record graph_data =
  request :: "RsRequest option"
  normalized_request :: "RequestInfo option"
  IsSdkTraffic :: "bool option"
  IsNotIvrv :: "bool option"
  IsSpecialChannel :: "bool option"
  IsSkipPreRank :: "bool option"
  prerank_info :: "PrerankInfo option"
  rank_info :: "RankInfo option"
  response_info :: "ResponseInfo option"
  rs_response :: "RsResponse option"

text \<open>Reading a dependency that was never emitted is a read through a null pointer.\<close>

definition depend :: "'a option \<Rightarrow> ('a \<Rightarrow> 'b cxx) \<Rightarrow> 'b cxx" where
  "depend d f = (case d of None \<Rightarrow> Inl Null_deref | Some x \<Rightarrow> f x)"

subsection \<open>Processors\<close>

definition ParseRequestProcessor_process :: "graph_data \<Rightarrow> (int \<times> graph_data) cxx" where
  "ParseRequestProcessor_process g =
     depend (request g) (\<lambda>r.
     let tmp = \<lparr>timeout = rq_timeout r, price = dbl 1000, request_id = rq_request_id r, adx = rq_adx r, one_id = rq_one_id r\<rparr>
     in Inr (0, g\<lparr>normalized_request := Some tmp,
          IsSdkTraffic := Some (rq_adx r = ''skt_test_sdkx''),
          IsNotIvrv := Some (\<not> (rq_ad_type r = ''reward'' \<or> rq_adx r = ''inist'')),
          IsSpecialChannel := Some (rq_channel r = ''sdk_ee'' \<or> rq_channel r = ''target'')\<rparr>))"

definition PrerankProcessor_process :: "graph_data \<Rightarrow> (int \<times> graph_data) cxx" where
  "PrerankProcessor_process g =
     depend (IsSkipPreRank g) (\<lambda>skip.
     if skip then Inr (0, g\<lparr>prerank_info := Some PrerankInfo_new\<rparr>)
     else depend (normalized_request g) (\<lambda>r.
          Inr (0, g\<lparr>prerank_info := Some (PrerankInfo_new\<lparr>pre_ecpm := dbl 99999, offer_id := 11111, pre_pivr := lit_0_02,
             pre_request_id := request_id r\<rparr>)\<rparr>)))"

definition RankProcessor_process :: "graph_data \<Rightarrow> (int \<times> graph_data) cxx" where
  "RankProcessor_process g =
     depend (normalized_request g) (\<lambda>r. depend (prerank_info g) (\<lambda>p.
       Inr (0, g\<lparr>rank_info := Some (RankInfo_new\<lparr>rank_request_id := request_id r, rank_ecpm := dbl 300,
          rank_pivr := fl_mult 53 lit_0_01 (pre_pivr p)\<rparr>)\<rparr>)))"

definition bid :: "RequestInfo \<Rightarrow> PrerankInfo \<Rightarrow> RankInfo \<Rightarrow> bfloat" where
  "bid r p k =
     fl_mult 53 (fl_mult 53 (fl_mult 53 (fl_mult 53 (price r) (pre_pivr p)) (rank_pivr k)) (dbl 1000)) (pre_ecpm p)"

text \<open>\<open>out0\<close> is the message behind \<open>rs_response\<close>: the one the service has preset, or an empty one.\<close>

definition OutputProcessor_process :: "RsResponse \<Rightarrow> graph_data \<Rightarrow> (int \<times> graph_data) cxx" where
  "OutputProcessor_process out0 g =
     depend (normalized_request g) (\<lambda>r. depend (prerank_info g) (\<lambda>p. depend (rank_info g) (\<lambda>k.
       Inr (0, g\<lparr>response_info := Some \<lparr>resp_timeout = timeout r, bid_price = bid r p k, bid_floor = dbl 0,
              resp_request_id = request_id r\<rparr>,
            rs_response := Some (out0\<lparr>rs_request_id := request_id r, rs_error_msg := ''success'',
              rs_ext_algo_list := ''ext_algo''\<rparr>)\<rparr>))))"

text \<open>The vertices of the graph, and a run: the processors one after the other.\<close>

datatype vertex = ParseRequest | Prerank | Rank | Output

definition process :: "RsResponse \<Rightarrow> vertex \<Rightarrow> graph_data \<Rightarrow> (int \<times> graph_data) cxx" where
  "process out0 v =
     (case v of ParseRequest \<Rightarrow> ParseRequestProcessor_process | Prerank \<Rightarrow> PrerankProcessor_process
      | Rank \<Rightarrow> RankProcessor_process | Output \<Rightarrow> OutputProcessor_process out0)"

fun run_vertices :: "RsResponse \<Rightarrow> vertex list \<Rightarrow> graph_data \<Rightarrow> graph_data cxx" where
  "run_vertices out0 [] g = Inr g"
| "run_vertices out0 (v # vs) g = bind_cxx (process out0 v g) (\<lambda>(ret, g'). run_vertices out0 vs g')"

text \<open>The data at the start of a request: the request, and the flag an expression provides.\<close>

definition graph_start :: "RsRequest \<Rightarrow> bool \<Rightarrow> graph_data" where
  "graph_start r skip = \<lparr>request = Some r, normalized_request = None, IsSdkTraffic = None, IsNotIvrv = None,
     IsSpecialChannel = None, IsSkipPreRank = Some skip, prerank_info = None, rank_info = None,
     response_info = None, rs_response = None\<rparr>"

lemmas process_defs = process_def ParseRequestProcessor_process_def PrerankProcessor_process_def
  RankProcessor_process_def OutputProcessor_process_def depend_def Let_def

subsection \<open>Runs\<close>

text \<open>Without the pre-ranking flag to skip it, only the dependency order gets through.\<close>

lemma four_orders:
  assumes "distinct vs" "set vs = {ParseRequest, Prerank, Rank, Output}"
  shows "\<exists>a b c d. vs = [a, b, c, d] \<and> distinct [a, b, c, d]"
proof -
  have "length vs = 4" using assms distinct_card [of vs] by simp
  then obtain a b c d where "vs = [a, b, c, d]" by (auto simp: numeral_eq_Suc length_Suc_conv)
  then show ?thesis using assms(1) by auto
qed

lemma run_needs_request:
  assumes "request g \<noteq> None"
  shows "run_vertices out0 (ParseRequest # vs) g =
    run_vertices out0 vs (snd (projr (ParseRequestProcessor_process g)))"
  using assms by (auto simp: process_defs)

lemma run_final:
  "run_vertices out0 [ParseRequest, Prerank, Rank, Output] (graph_start r skip) =
     (let n = \<lparr>timeout = rq_timeout r, price = dbl 1000, request_id = rq_request_id r, adx = rq_adx r, one_id = rq_one_id r\<rparr>;
          p = (if skip then PrerankInfo_new else PrerankInfo_new\<lparr>pre_ecpm := dbl 99999, offer_id := 11111, pre_pivr := lit_0_02,
             pre_request_id := rq_request_id r\<rparr>);
          k = RankInfo_new\<lparr>rank_request_id := rq_request_id r, rank_ecpm := dbl 300, rank_pivr := fl_mult 53 lit_0_01 (pre_pivr p)\<rparr>
      in Inr ((graph_start r skip)\<lparr>normalized_request := Some n,
           IsSdkTraffic := Some (rq_adx r = ''skt_test_sdkx''),
           IsNotIvrv := Some (\<not> (rq_ad_type r = ''reward'' \<or> rq_adx r = ''inist'')),
           IsSpecialChannel := Some (rq_channel r = ''sdk_ee'' \<or> rq_channel r = ''target''),
           prerank_info := Some p, rank_info := Some k,
           response_info := Some \<lparr>resp_timeout = rq_timeout r, bid_price = bid n p k, bid_floor = dbl 0, resp_request_id = rq_request_id r\<rparr>,
           rs_response := Some (out0\<lparr>rs_request_id := rq_request_id r, rs_error_msg := ''success'', rs_ext_algo_list := ''ext_algo''\<rparr>)\<rparr>))"
  by (simp add: process_defs graph_start_def)

lemma run_orders:
  assumes "distinct vs" "set vs = {ParseRequest, Prerank, Rank, Output}"
    and "run_vertices out0 vs (graph_start r False) = Inr g"
  shows "vs = [ParseRequest, Prerank, Rank, Output]"
proof -
  obtain a b c d where vs: "vs = [a, b, c, d]" "distinct [a, b, c, d]" using four_orders [OF assms(1,2)] by blast
  show ?thesis using vs assms(3)
    by (cases a; cases b; cases c; cases d) (simp_all add: process_defs graph_start_def)
qed

text \<open>A request that skips the pre-ranking does not need its normalised form there.\<close>

lemma run_orders_skip:
  assumes "distinct vs" "set vs = {ParseRequest, Prerank, Rank, Output}"
    and "run_vertices out0 vs (graph_start r True) = Inr g"
  shows "vs = [ParseRequest, Prerank, Rank, Output] \<or> vs = [Prerank, ParseRequest, Rank, Output]"
proof -
  obtain a b c d where vs: "vs = [a, b, c, d]" "distinct [a, b, c, d]" using four_orders [OF assms(1,2)] by blast
  show ?thesis using vs assms(3)
    by (cases a; cases b; cases c; cases d) (simp_all add: process_defs graph_start_def)
qed

lemma run_prerank_first:
  "run_vertices out0 [Prerank, ParseRequest, Rank, Output] (graph_start r True) =
   run_vertices out0 [ParseRequest, Prerank, Rank, Output] (graph_start r True)"
  by (simp add: process_defs graph_start_def)

lemma bid_zero: "mant (pre_ecpm p) = 0 \<Longrightarrow> mant (bid r p k) = 0"
  by (simp add: bid_def)

text \<open>The price of a request that is pre-ranked, rounding by rounding.\<close>

lemma dbl_small: "n < 2 ^ 53 \<Longrightarrow> dbl n = \<lparr>mant = int n, expo = 0\<rparr>"
proof -
  assume n: "n < 2 ^ 53"
  have "bitlen n \<le> 53"
  proof (cases "n = 0")
    case False
    then have "2 ^ (bitlen n - 1) \<le> n" using bitlen_bounds [of n] by simp
    then have "(2::nat) ^ (bitlen n - 1) < 2 ^ 53" using n by (rule le_less_trans)
    then have "bitlen n - 1 < 53" by (rule power_less_imp_less_exp [rotated]) simp
    then show ?thesis by simp
  qed simp
  then show ?thesis by (simp add: dbl_def fl_of_nat_eq)
qed

lemma rank_pivr_eval: "fl_mult 53 lit_0_01 lit_0_02 = \<lparr>mant = 7378697629483821, expo = - 65\<rparr>"
  using fl_mult_eval [of 104 5764607523034235 5764607523034235 53 "- 59" "- 58"]
  by (simp add: lit_0_01_def lit_0_02_def round_half_even_def)

lemma bid_eval:
  assumes "price r = dbl 1000" "pre_pivr p = lit_0_02" "pre_ecpm p = dbl 99999" "rank_pivr k = fl_mult 53 lit_0_01 lit_0_02"
  shows "bid r p k = \<lparr>mant = 6871878954123264, expo = - 34\<rparr>"
proof -
  have 1: "fl_mult 53 (dbl 1000) lit_0_02 = \<lparr>mant = 5629499534213120, expo = - 48\<rparr>"
    using fl_mult_eval [of 62 1000 5764607523034235 53 0 "- 58"] by (simp add: dbl_small lit_0_02_def round_half_even_def)
  have 2: "fl_mult 53 \<lparr>mant = 5629499534213120, expo = - 48\<rparr> \<lparr>mant = 7378697629483821, expo = - 65\<rparr> =
      \<lparr>mant = 4611686018427388, expo = - 60\<rparr>"
    using fl_mult_eval [of 105 5629499534213120 7378697629483821 53 "- 48" "- 65"] by (simp add: round_half_even_def)
  have 3: "fl_mult 53 \<lparr>mant = 4611686018427388, expo = - 60\<rparr> (dbl 1000) = \<lparr>mant = 4503599627370496, expo = - 50\<rparr>"
    using fl_mult_eval [of 62 4611686018427388 1000 53 "- 60" 0] by (simp add: dbl_small round_half_even_def)
  have 4: "fl_mult 53 \<lparr>mant = 4503599627370496, expo = - 50\<rparr> (dbl 99999) = \<lparr>mant = 6871878954123264, expo = - 34\<rparr>"
    using fl_mult_eval [of 68 4503599627370496 99999 53 "- 50" 0] by (simp add: dbl_small round_half_even_def)
  show ?thesis by (simp add: bid_def assms rank_pivr_eval 1 2 3 4)
qed

end
