(* ===== verification/Graph_Engine.thy ===== *)
theory Graph_Engine
  imports Processors Dict_Manager
begin

text \<open>
  The graph engine of the ranking service (\<open>example/brpc/plugins/framework/graph_engine.h\<close>,
  \<open>.cpp\<close>), the RPC handler that uses it (\<open>service/ranker_service.cpp\<close>), the global initialisation
  (\<open>common/global.h\<close>) and the server's \<open>main\<close>. Babylon's graph builder, object pool and graphs, Boost's
  property trees and brpc are arguments; what the program tells the builder is recorded as a
  list of calls.
\<close>

subsection \<open>State\<close>

datatype builder_call =
    Set_executor
  | Add_vertex string
  | Named_depend string
  | Named_emit string
  | Apply_expression string string
  | Apply_expressions
  | Finish

text \<open>The calls on \<open>babylon::ObjectPool<Graph>\<close>; the creator callback builds from the engine's builder.\<close>

record ('p, 'g) pool_lib =
  pool_new :: 'p
  reserve_and_clear :: "int \<Rightarrow> 'p \<Rightarrow> 'p"
  set_creator :: "'p \<Rightarrow> 'p"
  set_recycler :: "'p \<Rightarrow> 'p"
  pop :: "builder_call list \<Rightarrow> 'p \<Rightarrow> 'g \<times> 'p"
  give_back :: "'g \<Rightarrow> 'p \<Rightarrow> 'p"

record VertexMessage =
  vertex_name :: string
  emits :: "string list"
  depends :: "string list"

record ('p, 'g) GraphEngine =
  builder :: "builder_call list"
  graph_slot :: "'g option"
  graphs :: "string \<Rightarrow> 'p option"
  executor_init :: "int option"
  page_heap :: "(nat \<times> nat) option"

definition GraphEngine_new :: "('p, 'g) GraphEngine" where
  "GraphEngine_new = \<lparr>builder = [], graph_slot = None, graphs = Map.empty, executor_init = None, page_heap = None\<rparr>"

subsection \<open>Operations\<close>

text \<open>\<open>try_get\<close>: the smart pointer that \<open>pop\<close> returns is a temporary, so the graph is back in the pool
  when the raw pointer is returned.\<close>

definition try_get :: "('p, 'g) pool_lib \<Rightarrow> string \<Rightarrow> ('p, 'g) GraphEngine \<Rightarrow> 'g option \<times> ('p, 'g) GraphEngine" where
  "try_get L name E =
     (case graphs E name of
        None \<Rightarrow> (None, E)
      | Some P \<Rightarrow> (case pop L (builder E) P of (g, P') \<Rightarrow>
          (Some g, E\<lparr>graphs := (graphs E)(name \<mapsto> give_back L g P')\<rparr>)))"

definition engine_create :: "('p, 'g) GraphEngine \<Rightarrow> 'g option" where
  "engine_create E = graph_slot E"

text \<open>\<open>check_executor\<close>: \<open>ret\<close> is the result of \<open>ThreadPoolGraphExecutor::initialize(20, 20)\<close>,
  which is only logged.\<close>

definition check_executor :: "int \<Rightarrow> ('p, 'g) GraphEngine \<Rightarrow> ('p, 'g) GraphEngine" where
  "check_executor ret E = (if executor_init E = None then E\<lparr>executor_init := Some ret\<rparr> else E)"

definition engine_initialize :: "int \<Rightarrow> ('p, 'g) GraphEngine \<Rightarrow> int \<times> ('p, 'g) GraphEngine" where
  "engine_initialize ret E = (0, check_executor ret E)"

definition read_vertex :: "'t ptree_lib \<Rightarrow> string \<times> 't \<Rightarrow> builder_call list \<Rightarrow> builder_call list cxx" where
  "read_vertex L v b =
     bind_cxx (get_string L (snd v) ''processor'') (\<lambda>processor_name.
     bind_cxx (get_child L (snd v) ''dependencies'') (\<lambda>ds.
     bind_cxx (get_child L (snd v) ''outputs'') (\<lambda>os.
       Inr (b @ [Add_vertex processor_name] @ map (\<lambda>d. Named_depend (data L (snd d))) (children L ds) @
            map (\<lambda>out. Named_emit (data L (snd out))) (children L os)))))"

definition read_expression :: "'t ptree_lib \<Rightarrow> string \<times> 't \<Rightarrow> builder_call list \<Rightarrow> builder_call list cxx" where
  "read_expression L e b =
     bind_cxx (get_string L (snd e) ''name'') (\<lambda>n.
     bind_cxx (get_string L (snd e) ''value'') (\<lambda>v. Inr (b @ [Apply_expression n v])))"

definition init_pool ::
  "'t ptree_lib \<Rightarrow> ('p, 'g) pool_lib \<Rightarrow> int \<Rightarrow> int \<Rightarrow> string \<Rightarrow> ('p, 'g) GraphEngine \<Rightarrow> (bool \<times> ('p, 'g) GraphEngine) cxx" where
  "init_pool L PL n cache_size name E0 =
     (let E = E0\<lparr>page_heap := Some (8192, 4096)\<rparr>
      in if graphs E name \<noteq> None then Inr (True, E)
         else let P = reserve_and_clear PL n (pool_new PL); b = builder E @ [Set_executor]
              in noexcept_cxx (
                 bind_cxx (read_xml L ''config.xml'') (\<lambda>pt.
                 bind_cxx (get_child L pt ''graph.vertices'') (\<lambda>vs.
                 bind_cxx (fold_cxx (read_vertex L) (children L vs) b) (\<lambda>b1.
                 bind_cxx (read_xml L ''expression.xml'') (\<lambda>pt'.
                 bind_cxx (get_child L pt' ''expressions'') (\<lambda>es.
                 bind_cxx (fold_cxx (read_expression L) (children L es) b1) (\<lambda>b2.
                   Inr (True, E\<lparr>builder := b2 @ [Apply_expressions, Finish],
                     graphs := (graphs E)(name \<mapsto> set_recycler PL (set_creator PL P))\<rparr>)))))))))"

subsection \<open>The RPC handler\<close>

text \<open>
  What the handler asks of a graph: whether a named datum exists, and one evaluation: the
  request is emitted, the response preset, the graph run up to \<open>rs_response\<close> and waited for; the results are
  the response and the code of the closure, or the crash of a processor.
\<close>

record 'g graph_lib =
  find_data :: "'g \<Rightarrow> string \<Rightarrow> bool"
  evaluate :: "'g \<Rightarrow> RsRequest \<Rightarrow> RsResponse \<Rightarrow> (RsResponse \<times> int) cxx"

record rpc_result =
  rpc_response :: RsResponse
  rpc_code :: int
  done_calls :: nat

definition SayHello ::
  "('p, 'g) pool_lib \<Rightarrow> 'g graph_lib \<Rightarrow> ('p, 'g) GraphEngine option \<Rightarrow> RsRequest option \<Rightarrow> RsResponse option \<Rightarrow> bool \<Rightarrow>
   (rpc_result \<times> ('p, 'g) GraphEngine) cxx" where
  "SayHello PL GL graph_engine req resp has_done =
     depend graph_engine (\<lambda>E.
     case try_get PL ''main_graph'' E of (graph, E') \<Rightarrow>
       depend graph (\<lambda>g.
       if \<not> find_data GL g ''request'' then Inl Null_deref
       else depend req (\<lambda>r.
       if \<not> find_data GL g ''rs_response'' then Inl Null_deref
       else depend resp (\<lambda>out.
       bind_cxx (evaluate GL g r out) (\<lambda>(out', code).
         Inr (\<lparr>rpc_response = out', rpc_code = code, done_calls = (if has_done then 1 else 0)\<rparr>, E'))))))"

definition run_main_graph :: "'g option \<Rightarrow> RsRequest option \<Rightarrow> RsResponse option \<Rightarrow> int cxx" where
  "run_main_graph graph req resp = Inl Missing_return"

subsection \<open>Global initialisation and main\<close>

text \<open>The three dictionary lookups of \<open>GlobalInitializer::init\<close>, whose results are logged.
  \<open>static_pointer_cast\<close> to the wrong class is an invalid access.\<close>

definition logged_lookups :: "dict_object DictManager \<Rightarrow> double list cxx" where
  "logged_lookups M =
     bind_cxx (GET_DICT (dict_hander_vect M ! 0)) (\<lambda>d0.
     bind_cxx (case d0 of None \<Rightarrow> Inr [] | Some (Offer d) \<Rightarrow> Inr [OfferBidRatio_get_key d 311111111] | Some (Common d) \<Rightarrow> Inl Invalid_access) (\<lambda>l0.
     bind_cxx (GET_DICT (dict_hander_vect M ! 1)) (\<lambda>d1.
     bind_cxx (case d1 of None \<Rightarrow> Inr [] | Some (Offer d) \<Rightarrow> Inl Invalid_access
         | Some (Common d) \<Rightarrow> Inr [CommonFileDict_get_key (Some \<lparr>mant = 0, expo = 0\<rparr>) d 311111111,
                                   CommonFileDict_get_key (Some \<lparr>mant = 0, expo = 0\<rparr>) d 4444444]) (\<lambda>l1.
       Inr (l0 @ l1)))))"

definition GlobalInitializer_init ::
  "(int \<times> dict_object DictManager) cxx \<Rightarrow> 't ptree_lib \<Rightarrow> ('p, 'g) pool_lib \<Rightarrow> int \<Rightarrow> ('p, 'g) GraphEngine option \<Rightarrow>
   (int \<times> double list \<times> ('p, 'g) GraphEngine option) cxx" where
  "GlobalInitializer_init dict_run L PL pool_ret engine =
     bind_cxx dict_run (\<lambda>(ret, M).
     if ret \<noteq> 0 then Inr (- 1, [], engine)
     else bind_cxx (logged_lookups M) (\<lambda>logged.
          case engine of
            None \<Rightarrow> Inr (0, logged, None)
          | Some E \<Rightarrow>
              bind_cxx (init_pool L PL 20 20 ''main_graph'' (snd (engine_initialize pool_ret E))) (\<lambda>(ok, E1).
              Inr (0, logged, Some (snd (try_get PL ''main_graph'' E1))))))"

text \<open>\<open>main\<close>: the exit status, given the results of \<open>AddService\<close> and \<open>Start\<close>.\<close>

definition server_main :: "(int \<times> double list \<times> ('p, 'g) GraphEngine option) cxx \<Rightarrow> int \<Rightarrow> int \<Rightarrow> int cxx" where
  "server_main init_result add_service start =
     bind_cxx init_result (\<lambda>(ret, logged, engine).
     if ret \<noteq> 0 then Inr 1
     else if add_service \<noteq> 0 then Inr (- 1)
     else if start \<noteq> 0 then Inr (- 1)
     else Inr 0)"

end
