(* ===== verification/Graph_Runs.thy ===== *)
theory Graph_Runs
  imports Graph_Engine
begin

text \<open>
  Evaluations of the ranking graph, tied to its configuration. What the service relies on is stated as contracts of
  the graph library: an evaluation runs processors of configured vertices and expressions one after the other
  (\<open>runs_config\<close>), or each after what its vertex depends on and in the end the vertex that emits the response, if one is
  configured (\<open>runs_in_data_order\<close>). From the contracts
  follows what the evaluation of a request can give.
\<close>

subsection \<open>The interfaces of the processors\<close>

text \<open>The names each processor declares with \<open>ANYFLOW_INTERFACE\<close>.\<close>

definition interface_depends :: "vertex \<Rightarrow> string list" where
  "interface_depends v =
     (case v of ParseRequest \<Rightarrow> [''request''] | Prerank \<Rightarrow> [''normalized_request'', ''IsSkipPreRank'']
      | Rank \<Rightarrow> [''normalized_request'', ''prerank_info'']
      | Output \<Rightarrow> [''normalized_request'', ''prerank_info'', ''rank_info''])"

definition interface_emits :: "vertex \<Rightarrow> string list" where
  "interface_emits v =
     (case v of ParseRequest \<Rightarrow> [''normalized_request'', ''IsSdkTraffic'', ''IsNotIvrv'', ''IsSpecialChannel'']
      | Prerank \<Rightarrow> [''prerank_info''] | Rank \<Rightarrow> [''rank_info''] | Output \<Rightarrow> [''response_info'', ''rs_response''])"

text \<open>The names under which the processors are registered as components.\<close>

definition processor_name :: "vertex \<Rightarrow> string" where
  "processor_name v = (case v of ParseRequest \<Rightarrow> ''ParseRequestProcessor'' | Prerank \<Rightarrow> ''PrerankProcessor''
     | Rank \<Rightarrow> ''RankProcessor'' | Output \<Rightarrow> ''OutputProcessor'')"

subsection \<open>Evaluations\<close>

text \<open>The processor of a vertex runs, or an expression sets \<open>IsSkipPreRank\<close>.\<close>

datatype graph_step = Vertex_step vertex | Flag_step bool

fun run_steps :: "RsResponse \<Rightarrow> graph_step list \<Rightarrow> graph_data \<Rightarrow> graph_data cxx" where
  "run_steps out0 [] d = Inr d"
| "run_steps out0 (Vertex_step v # ss) d = bind_cxx (process out0 v d) (\<lambda>(ret, d'). run_steps out0 ss d')"
| "run_steps out0 (Flag_step b # ss) d = run_steps out0 ss (d\<lparr>IsSkipPreRank := Some b\<rparr>)"

text \<open>The data when a request is emitted: nothing else is there.\<close>

definition graph_begin :: "RsRequest \<Rightarrow> graph_data" where
  "graph_begin r = (graph_start r False)\<lparr>IsSkipPreRank := None\<rparr>"

text \<open>What the handler sees: the response and 0 if \<open>rs_response\<close> was emitted, otherwise some other code.\<close>

definition graph_result :: "graph_step list \<Rightarrow> int \<Rightarrow> RsRequest \<Rightarrow> RsResponse \<Rightarrow> (RsResponse \<times> int) cxx" where
  "graph_result ss code r out =
     bind_cxx (run_steps out ss (graph_begin r)) (\<lambda>d. Inr (case rs_response d of None \<Rightarrow> (out, code) | Some x \<Rightarrow> (x, 0)))"

definition configured :: "VertexMessage list \<Rightarrow> (string \<times> string) list \<Rightarrow> graph_step \<Rightarrow> bool" where
  "configured ms xs st =
     (case st of Vertex_step v \<Rightarrow> processor_name v \<in> set (map vertex_name ms) | Flag_step b \<Rightarrow> ''IsSkipPreRank'' \<in> set (map fst xs))"

definition runs_config :: "'g graph_lib \<Rightarrow> VertexMessage list \<Rightarrow> (string \<times> string) list \<Rightarrow> bool" where
  "runs_config GL ms xs \<longleftrightarrow>
     (\<forall>g r out. \<exists>ss code. code \<noteq> 0 \<and> list_all (configured ms xs) ss \<and> evaluate GL g r out = graph_result ss code r out)"

text \<open>Each step after those that emit the data its vertex is bound to.\<close>

fun in_order :: "VertexMessage list \<Rightarrow> string list \<Rightarrow> graph_step list \<Rightarrow> bool" where
  "in_order ms avail [] = True"
| "in_order ms avail (Vertex_step v # ss) =
     (case find (\<lambda>m. vertex_name m = processor_name v) ms of
        None \<Rightarrow> False
      | Some m \<Rightarrow> list_all (\<lambda>d. d \<in> set avail) (depends m) \<and> in_order ms (emits m @ avail) ss)"
| "in_order ms avail (Flag_step b # ss) = in_order ms (''IsSkipPreRank'' # avail) ss"

definition runs_in_data_order :: "'g graph_lib \<Rightarrow> VertexMessage list \<Rightarrow> (string \<times> string) list \<Rightarrow> bool" where
  "runs_in_data_order GL ms xs \<longleftrightarrow>
     (\<forall>g r out. \<exists>ss code. code \<noteq> 0 \<and> list_all (configured ms xs) ss \<and> in_order ms [''request''] ss \<and>
        (processor_name Output \<in> set (map vertex_name ms) \<longrightarrow> Vertex_step Output \<in> set ss) \<and>
        evaluate GL g r out = graph_result ss code r out)"

text \<open>A vertex is bound to all the data its processor reads, and emits only what its processor emits.\<close>

definition binds_interface :: "VertexMessage \<Rightarrow> bool" where
  "binds_interface m \<longleftrightarrow> list_all (\<lambda>v. vertex_name m = processor_name v \<longrightarrow>
     list_all (\<lambda>d. d \<in> set (depends m)) (interface_depends v) \<and> list_all (\<lambda>d. d \<in> set (interface_emits v)) (emits m))
     [ParseRequest, Prerank, Rank, Output]"

lemma vertex_exhaust: "v \<in> set [ParseRequest, Prerank, Rank, Output]"
  by (cases v) simp_all

lemma binds_interfaceD:
  assumes "binds_interface m" "vertex_name m = processor_name v"
  shows "set (interface_depends v) \<subseteq> set (depends m)" "set (emits m) \<subseteq> set (interface_emits v)"
  using assms vertex_exhaust [of v] unfolding binds_interface_def list_all_iff by blast+

subsection \<open>What an evaluation can give\<close>

lemma run_steps_induct:
  assumes "run_steps out0 ss d = Inr d'" and "P d"
    and "\<And>v e ret e'. Vertex_step v \<in> set ss \<Longrightarrow> P e \<Longrightarrow> process out0 v e = Inr (ret, e') \<Longrightarrow> P e'"
    and "\<And>b e. Flag_step b \<in> set ss \<Longrightarrow> P e \<Longrightarrow> P (e\<lparr>IsSkipPreRank := Some b\<rparr>)"
  shows "P d'"
  using assms
proof (induction out0 ss d rule: run_steps.induct)
  case (2 out0 v ss d)
  from 2(2) obtain ret e where "process out0 v d = Inr (ret, e)" "run_steps out0 ss e = Inr d'"
    by (auto simp: bind_cxx_eq_Inr)
  then show ?case using 2(1,3-5) by (metis list.set_intros)
next
  case (3 out0 b ss d)
  then show ?case by (metis list.set_intros run_steps.simps(3))
qed simp

text \<open>Whatever runs in whatever order, a response that is emitted is the preset one with the request's id and success.\<close>

definition answered :: "RsRequest \<Rightarrow> RsResponse \<Rightarrow> RsResponse" where
  "answered r out = out\<lparr>rs_request_id := rq_request_id r, rs_error_msg := ''success'', rs_ext_algo_list := ''ext_algo''\<rparr>"

definition keeps_id :: "RsRequest \<Rightarrow> RsResponse \<Rightarrow> graph_data \<Rightarrow> bool" where
  "keeps_id r out d \<longleftrightarrow> request d = Some r \<and> (\<forall>n. normalized_request d = Some n \<longrightarrow> request_id n = rq_request_id r) \<and>
     (\<forall>x. rs_response d = Some x \<longrightarrow> x = answered r out)"

lemma process_keeps_id: "keeps_id r out d \<Longrightarrow> process out v d = Inr (ret, d') \<Longrightarrow> keeps_id r out d'"
  by (cases v) (auto simp: process_defs keeps_id_def answered_def split: option.splits if_splits)

lemma run_steps_keeps_id:
  assumes "run_steps out ss (graph_begin r) = Inr d"
  shows "keeps_id r out d"
proof (rule run_steps_induct [OF assms])
  show "keeps_id r out (graph_begin r)" by (simp add: keeps_id_def graph_begin_def graph_start_def)
qed (simp_all add: process_keeps_id, simp add: keeps_id_def)

text \<open>And then all four processors and the expression have run.\<close>

definition needs :: "graph_step list \<Rightarrow> graph_data \<Rightarrow> bool" where
  "needs ss d \<longleftrightarrow>
     (normalized_request d \<noteq> None \<longrightarrow> Vertex_step ParseRequest \<in> set ss) \<and>
     (IsSkipPreRank d \<noteq> None \<longrightarrow> (\<exists>b. Flag_step b \<in> set ss)) \<and>
     (prerank_info d \<noteq> None \<longrightarrow> Vertex_step Prerank \<in> set ss \<and> (\<exists>b. Flag_step b \<in> set ss)) \<and>
     (rank_info d \<noteq> None \<longrightarrow> Vertex_step Rank \<in> set ss) \<and>
     (rs_response d \<noteq> None \<longrightarrow> set (map Vertex_step [ParseRequest, Prerank, Rank, Output]) \<subseteq> set ss \<and> (\<exists>b. Flag_step b \<in> set ss))"

lemma process_needs:
  "Vertex_step v \<in> set ss \<Longrightarrow> needs ss d \<Longrightarrow> process out v d = Inr (ret, d') \<Longrightarrow> needs ss d'"
  by (cases v) (auto simp: process_defs needs_def split: option.splits if_splits)

lemma run_steps_needs:
  assumes "run_steps out ss (graph_begin r) = Inr d"
  shows "needs ss d"
proof (rule run_steps_induct [OF assms])
  show "needs ss (graph_begin r)" by (simp add: needs_def graph_begin_def graph_start_def)
  show "needs ss (e\<lparr>IsSkipPreRank := Some b\<rparr>)" if "Flag_step b \<in> set ss" "needs ss e" for b e
    using that by (auto simp: needs_def)
qed (rule process_needs)

lemma graph_result_success:
  assumes "graph_result ss code r out = Inr (x, 0)" "code \<noteq> 0" "list_all (configured ms xs) ss"
  shows "x = answered r out" and "list_all (\<lambda>v. processor_name v \<in> set (map vertex_name ms)) [ParseRequest, Prerank, Rank, Output]"
    and "''IsSkipPreRank'' \<in> set (map fst xs)"
proof -
  obtain d where d: "run_steps out ss (graph_begin r) = Inr d" "rs_response d = Some x"
    using assms(1,2) by (auto simp: graph_result_def bind_cxx_eq_Inr split: option.splits)
  show "x = answered r out" using run_steps_keeps_id [OF d(1)] d(2) by (simp add: keeps_id_def)
  have c: "configured ms xs st" if "st \<in> set ss" for st using assms(3) that by (simp add: list_all_iff)
  have n: "set (map Vertex_step [ParseRequest, Prerank, Rank, Output]) \<subseteq> set ss" "\<exists>b. Flag_step b \<in> set ss"
    using run_steps_needs [OF d(1)] d(2) by (simp_all add: needs_def)
  show "list_all (\<lambda>v. processor_name v \<in> set (map vertex_name ms)) [ParseRequest, Prerank, Rank, Output]"
    using n(1) c [of "Vertex_step _"] by (simp add: configured_def)
  obtain b where "Flag_step b \<in> set ss" using n(2) by blast
  from c [OF this] show "''IsSkipPreRank'' \<in> set (map fst xs)" by (simp add: configured_def)
qed

subsection \<open>An evaluation in the order of the data\<close>

definition has_datum :: "graph_data \<Rightarrow> string \<Rightarrow> bool" where
  "has_datum d n \<longleftrightarrow>
     (n = ''request'' \<longrightarrow> request d \<noteq> None) \<and> (n = ''normalized_request'' \<longrightarrow> normalized_request d \<noteq> None) \<and>
     (n = ''IsSkipPreRank'' \<longrightarrow> IsSkipPreRank d \<noteq> None) \<and> (n = ''prerank_info'' \<longrightarrow> prerank_info d \<noteq> None) \<and>
     (n = ''rank_info'' \<longrightarrow> rank_info d \<noteq> None)"

lemma process_has_data:
  assumes "\<forall>n \<in> set (interface_depends v). has_datum d n"
  shows "\<exists>ret d'. process out v d = Inr (ret, d') \<and> (\<forall>n. has_datum d n \<longrightarrow> has_datum d' n) \<and>
    (\<forall>n \<in> set (interface_emits v). has_datum d' n) \<and> (rs_response d \<noteq> None \<or> v = Output \<longrightarrow> rs_response d' \<noteq> None)"
  using assms by (cases v) (auto simp: process_defs interface_depends_def interface_emits_def has_datum_def)

lemma run_steps_in_order:
  assumes "list_all binds_interface ms" and "in_order ms avail ss" and "\<forall>n \<in> set avail. has_datum d n"
  shows "\<exists>d'. run_steps out ss d = Inr d' \<and> (rs_response d \<noteq> None \<or> Vertex_step Output \<in> set ss \<longrightarrow> rs_response d' \<noteq> None)"
  using assms
proof (induction ms avail ss arbitrary: d rule: in_order.induct)
  case (2 ms avail v ss)
  from 2(3) obtain m where m: "find (\<lambda>m. vertex_name m = processor_name v) ms = Some m"
    and dep: "set (depends m) \<subseteq> set avail" and rest: "in_order ms (emits m @ avail) ss"
    by (force simp: list_all_iff split: option.splits)
  have b: "binds_interface m" "vertex_name m = processor_name v"
    using m 2(2) by (auto simp: find_Some_iff list_all_iff)
  have "\<forall>n \<in> set (interface_depends v). has_datum d n" using binds_interfaceD(1) [OF b] dep 2(4) by blast
  then obtain ret e where e: "process out v d = Inr (ret, e)" "\<forall>n. has_datum d n \<longrightarrow> has_datum e n"
    "\<forall>n \<in> set (interface_emits v). has_datum e n" "rs_response d \<noteq> None \<or> v = Output \<longrightarrow> rs_response e \<noteq> None"
    using process_has_data [of v d out] by blast
  have "\<forall>n \<in> set (emits m @ avail). has_datum e n" using e(2,3) binds_interfaceD(2) [OF b] 2(4) by auto
  from 2(1) [OF m 2(2) rest this] show ?case using e(1,4) by auto
next
  case (3 ms avail b ss)
  have "\<forall>n \<in> set (''IsSkipPreRank'' # avail). has_datum (d\<lparr>IsSkipPreRank := Some b\<rparr>) n"
    using 3(4) by (auto simp: has_datum_def)
  from 3(1) [OF 3(2) _ this] 3(3) show ?case by simp
qed simp

text \<open>The evaluation of a request then succeeds.\<close>

lemma data_order_succeeds:
  assumes "list_all binds_interface ms" "in_order ms [''request''] ss" "Vertex_step Output \<in> set ss"
  shows "graph_result ss code r out = Inr (answered r out, 0)"
proof -
  have "\<forall>n \<in> set [''request'']. has_datum (graph_begin r) n" by (simp add: has_datum_def graph_begin_def graph_start_def)
  then obtain d where d: "run_steps out ss (graph_begin r) = Inr d" "rs_response d \<noteq> None"
    using run_steps_in_order [OF assms(1,2)] assms(3) by blast
  then show ?thesis using run_steps_keeps_id [OF d(1)] by (auto simp: graph_result_def keeps_id_def)
qed

end
