(* ===== verification/Graph_Pool.thy ===== *)
theory Graph_Pool
  imports Graph_Engine
begin

text \<open>
  The graphs that \<open>GraphEngine::try_get\<close> hands out, one call after the other and with overlapping calls. The object pool is
  Babylon's and an argument; \<open>free\<close> says which graphs it holds.
\<close>

subsection \<open>Calls of try_get\<close>

text \<open>\<open>k\<close> calls, one after the other, by callers that keep what they get.\<close>

fun try_gets :: "('p, 'g) pool_lib \<Rightarrow> string \<Rightarrow> nat \<Rightarrow> ('p, 'g) GraphEngine \<Rightarrow> 'g option list \<times> ('p, 'g) GraphEngine" where
  "try_gets PL name 0 E = ([], E)"
| "try_gets PL name (Suc k) E =
     (case try_get PL name E of (g, E1) \<Rightarrow> (case try_gets PL name k E1 of (gs, E2) \<Rightarrow> (g # gs, E2)))"

text \<open>The two accesses of a call to the pool, as steps of its own, with what each running call has popped and what
  the calls that have returned gave to their callers.\<close>

record ('p, 'g) pool_use =
  pool_state :: 'p
  popped :: "nat \<Rightarrow> 'g option"
  handed :: "(nat \<times> 'g) list"

datatype get_step = Get_pop nat | Get_return nat

definition get_step :: "('p, 'g) pool_lib \<Rightarrow> builder_call list \<Rightarrow> get_step \<Rightarrow> ('p, 'g) pool_use \<Rightarrow> ('p, 'g) pool_use" where
  "get_step PL b st u =
     (case st of
        Get_pop t \<Rightarrow> (case popped u t of
            Some g \<Rightarrow> u
          | None \<Rightarrow> (case pop PL b (pool_state u) of (g, P) \<Rightarrow> u\<lparr>pool_state := P, popped := (popped u)(t \<mapsto> g)\<rparr>))
      | Get_return t \<Rightarrow> (case popped u t of
            None \<Rightarrow> u
          | Some g \<Rightarrow> u\<lparr>pool_state := give_back PL g (pool_state u), popped := (popped u)(t := None), handed := handed u @ [(t, g)]\<rparr>))"

definition get_steps :: "('p, 'g) pool_lib \<Rightarrow> builder_call list \<Rightarrow> get_step list \<Rightarrow> ('p, 'g) pool_use \<Rightarrow> ('p, 'g) pool_use" where
  "get_steps PL b sts u = fold (get_step PL b) sts u"

definition pool_idle :: "'p \<Rightarrow> ('p, 'g) pool_use" where
  "pool_idle P = \<lparr>pool_state = P, popped = Map.empty, handed = []\<rparr>"

fun step_thread :: "get_step \<Rightarrow> nat" where
  "step_thread (Get_pop t) = t"
| "step_thread (Get_return t) = t"

text \<open>A call of \<open>try_get\<close> is its two steps.\<close>

lemma try_get_steps:
  assumes "graphs E name = Some P"
  shows "\<exists>g. try_get PL name E = (Some g, E\<lparr>graphs := (graphs E)
      (name \<mapsto> pool_state (get_steps PL (builder E) [Get_pop t, Get_return t] (pool_idle P)))\<rparr>) \<and>
    handed (get_steps PL (builder E) [Get_pop t, Get_return t] (pool_idle P)) = [(t, g)]"
  using assms by (cases "pop PL (builder E) P") (simp add: try_get_def get_steps_def get_step_def pool_idle_def)

subsection \<open>What the pool promises\<close>

text \<open>\<open>pop\<close> hands out a free graph or, if there is none, one that it makes; a graph given back is free again as long as
  the pool has not more than the \<open>cap\<close> graphs it was reserved for.\<close>

definition object_pool :: "('p, 'g) pool_lib \<Rightarrow> ('p \<Rightarrow> 'g set) \<Rightarrow> nat \<Rightarrow> bool" where
  "object_pool PL free cap \<longleftrightarrow>
     (\<forall>b P. free P = {} \<longrightarrow> free (snd (pop PL b P)) = {}) \<and>
     (\<forall>b P. free P \<noteq> {} \<longrightarrow> fst (pop PL b P) \<in> free P \<and> free (snd (pop PL b P)) = free P - {fst (pop PL b P)}) \<and>
     (\<forall>g P. card (insert g (free P)) \<le> cap \<longrightarrow> free (give_back PL g P) = insert g (free P))"

lemma object_poolD:
  assumes "object_pool PL free cap"
  shows "free P = {} \<Longrightarrow> free (snd (pop PL b P)) = {}"
    and "free P \<noteq> {} \<Longrightarrow> fst (pop PL b P) \<in> free P" "free P \<noteq> {} \<Longrightarrow> free (snd (pop PL b P)) = free P - {fst (pop PL b P)}"
    and "card (insert g (free P)) \<le> cap \<Longrightarrow> free (give_back PL g P) = insert g (free P)"
  using assms by (simp_all add: object_pool_def)

subsection \<open>One call after the other\<close>

lemma try_gets_same:
  assumes L: "object_pool PL free cap" "1 \<le> cap" and E: "graphs E name = Some P" "free P = {g}"
  shows "\<exists>E' P'. try_gets PL name k E = (replicate k (Some g), E') \<and> graphs E' name = Some P' \<and> free P' = {g}"
  using E
proof (induction k arbitrary: E P)
  case (Suc k)
  obtain P' where P': "pop PL (builder E) P = (g, P')" "free P' = {}"
    using object_poolD(2,3) [OF L(1), of P "builder E"] Suc.prems(2) by (cases "pop PL (builder E) P") auto
  let ?E = "E\<lparr>graphs := (graphs E)(name \<mapsto> give_back PL g P')\<rparr>"
  have "free (give_back PL g P') = {g}" using object_poolD(4) [OF L(1), of g P'] P'(2) L(2) by simp
  then obtain E' P'' where "try_gets PL name k ?E = (replicate k (Some g), E')" "graphs E' name = Some P''" "free P'' = {g}"
    using Suc.IH [of ?E "give_back PL g P'"] by auto
  then show ?case by (simp add: try_get_def Suc.prems(1) P'(1))
qed simp

lemma try_gets_first:
  assumes L: "object_pool PL free cap" "1 \<le> cap" and E: "graphs E name = Some P" "free P = {}" and k: "0 < k"
  shows "\<exists>g E' P'. try_gets PL name k E = (replicate k (Some g), E') \<and> graphs E' name = Some P' \<and> free P' = {g}"
proof -
  obtain k' where k': "k = Suc k'" using k gr0_implies_Suc by blast
  obtain g P' where p: "pop PL (builder E) P = (g, P')" by (cases "pop PL (builder E) P")
  then have "free P' = {}" using object_poolD(1) [OF L(1) E(2), of "builder E"] by simp
  then have f: "free (give_back PL g P') = {g}" using object_poolD(4) [OF L(1), of g P'] L(2) by simp
  let ?E = "E\<lparr>graphs := (graphs E)(name \<mapsto> give_back PL g P')\<rparr>"
  obtain E' P'' where "try_gets PL name k' ?E = (replicate k' (Some g), E')" "graphs E' name = Some P''" "free P'' = {g}"
    using try_gets_same [OF L, of ?E name "give_back PL g P'" g k'] f by auto
  then show ?thesis by (simp add: k' try_get_def E(1) p)
qed

subsection \<open>Overlapping calls\<close>

definition use_inv :: "('p \<Rightarrow> 'g set) \<Rightarrow> nat \<Rightarrow> ('p, 'g) pool_use \<Rightarrow> bool" where
  "use_inv free n u \<longleftrightarrow> finite (free (pool_state u)) \<and> dom (popped u) \<subseteq> {..<n} \<and>
     card (free (pool_state u) \<union> ran (popped u)) \<le> n \<and> snd ` set (handed u) \<subseteq> free (pool_state u) \<union> ran (popped u)"

lemma ran_image: "ran m = (\<lambda>x. the (m x)) ` dom m"
  by (force simp: ran_def dom_def image_def)

lemma use_inv_step:
  assumes L: "object_pool PL free cap" "n \<le> cap" and i: "use_inv free n u" and t: "step_thread st < n"
  shows "use_inv free n (get_step PL b st u)"
proof -
  have fin: "finite (free (pool_state u))" "finite (ran (popped u))" and dom: "dom (popped u) \<subseteq> {..<n}"
    using i finite_subset [of "dom (popped u)" "{..<n}"] finite_ran by (auto simp: use_inv_def)
  show ?thesis
  proof (cases st)
    case (Get_pop t)
    show ?thesis
    proof (cases "popped u t")
      case None
      obtain g P where p: "pop PL b (pool_state u) = (g, P)" by (cases "pop PL b (pool_state u)")
      have r: "ran ((popped u)(t \<mapsto> g)) = insert g (ran (popped u))" using None by (rule ran_map_upd)
      have d: "dom ((popped u)(t \<mapsto> g)) \<subseteq> {..<n}" using dom assms(4) Get_pop by auto
      have c: "card (ran ((popped u)(t \<mapsto> g))) \<le> n"
      proof -
        have "finite (dom ((popped u)(t \<mapsto> g)))" using d finite_subset by blast
        then have "card (ran ((popped u)(t \<mapsto> g))) \<le> card (dom ((popped u)(t \<mapsto> g)))"
          unfolding ran_image by (rule card_image_le)
        also have "\<dots> \<le> n" using card_mono [OF _ d] by simp
        finally show ?thesis .
      qed
      show ?thesis
      proof (cases "free (pool_state u) = {}")
        case True
        then have "free P = {}" using object_poolD(1) [OF L(1), of "pool_state u" b] p by simp
        then show ?thesis using True i c d r by (auto simp: use_inv_def get_step_def Get_pop None p)
      next
        case False
        note f = object_poolD(2,3) [OF L(1) False, of b, unfolded p fst_conv snd_conv]
        have "free P \<union> ran ((popped u)(t \<mapsto> g)) = free (pool_state u) \<union> ran (popped u)" using f r by auto
        then show ?thesis using i f d by (simp add: use_inv_def get_step_def Get_pop None p)
      qed
    qed (use i in \<open>simp add: get_step_def Get_pop\<close>)
  next
    case (Get_return t)
    show ?thesis
    proof (cases "popped u t")
      case (Some g)
      have g: "g \<in> ran (popped u)" using Some by (rule ranI)
      have sub: "insert g (free (pool_state u)) \<subseteq> free (pool_state u) \<union> ran (popped u)" using g by blast
      have "card (insert g (free (pool_state u))) \<le> card (free (pool_state u) \<union> ran (popped u))"
        using sub fin by (intro card_mono) auto
      then have f: "free (give_back PL g (pool_state u)) = insert g (free (pool_state u))"
        using i L(2) by (intro object_poolD(4) [OF L(1)]) (auto simp: use_inv_def)
      have u: "insert g (free (pool_state u)) \<union> ran ((popped u)(t := None)) = free (pool_state u) \<union> ran (popped u)"
      proof -
        have "insert g (ran ((popped u)(t := None))) = ran (popped u)"
          using Some ran_map_upd [of "(popped u)(t := None)" t g] fun_upd_triv [of "popped u" t] by simp
        then show ?thesis by auto
      qed
      then show ?thesis using i fin dom f g by (auto simp: use_inv_def get_step_def Get_return Some)
    qed (use i in \<open>simp add: get_step_def Get_return\<close>)
  qed
qed

lemma use_inv_steps:
  assumes "object_pool PL free cap" "n \<le> cap" and "use_inv free n u" and "list_all (\<lambda>st. step_thread st < n) sts"
  shows "use_inv free n (get_steps PL b sts u)"
  using assms(3,4) unfolding get_steps_def
  by (induction sts arbitrary: u) (simp_all add: use_inv_step [OF assms(1,2)])

text \<open>
  C15: \<open>try_get\<close> keeps only the raw pointer of what \<open>pop\<close> returns, so the graph is back in the pool when it
  returns. One call after the other, all callers of a pool without graphs get the same graph, however long they use it, and
  the pool considers it free all the time. If the calls of up to as many threads as the pool is reserved for
  overlap, in whatever way, then every graph that a caller was ever given is free in the pool or just being
  handed to someone else, and when no call is running all of them are free.
\<close>

theorem try_get_shares_graph:
  assumes "object_pool PL free cap" and "1 \<le> cap"
    and "graphs E name = Some P" and "free P = {}"
  shows "(0 < k \<longrightarrow> (\<exists>g E' P'. try_gets PL name k E = (replicate k (Some g), E') \<and> graphs E' name = Some P' \<and> free P' = {g})) \<and>
    (\<exists>g. try_get PL name E = (Some g, E\<lparr>graphs := (graphs E)
        (name \<mapsto> pool_state (get_steps PL (builder E) [Get_pop t, Get_return t] (pool_idle P)))\<rparr>)) \<and>
    (list_all (\<lambda>st. step_thread st < cap) sts \<longrightarrow>
      (\<forall>(c, g) \<in> set (handed (get_steps PL (builder E) sts (pool_idle P))).
        g \<in> free (pool_state (get_steps PL (builder E) sts (pool_idle P))) \<or>
        (\<exists>t. popped (get_steps PL (builder E) sts (pool_idle P)) t = Some g)))"
proof (intro conjI impI)
  show "\<exists>g E' P'. try_gets PL name k E = (replicate k (Some g), E') \<and> graphs E' name = Some P' \<and> free P' = {g}" if "0 < k"
    by (rule try_gets_first [OF assms that])
  show "\<exists>g. try_get PL name E = (Some g, E\<lparr>graphs := (graphs E)
        (name \<mapsto> pool_state (get_steps PL (builder E) [Get_pop t, Get_return t] (pool_idle P)))\<rparr>)"
    using try_get_steps [OF assms(3)] by blast
  assume sts: "list_all (\<lambda>st. step_thread st < cap) sts"
  have "use_inv free cap (pool_idle P :: ('a, 'b) pool_use)" using assms(4) by (simp add: use_inv_def pool_idle_def)
  from use_inv_steps [OF assms(1) order_refl this sts, of "builder E"]
  show "\<forall>(c, g) \<in> set (handed (get_steps PL (builder E) sts (pool_idle P))).
        g \<in> free (pool_state (get_steps PL (builder E) sts (pool_idle P))) \<or>
        (\<exists>t. popped (get_steps PL (builder E) sts (pool_idle P)) t = Some g)"
    by (force simp: use_inv_def ran_def)
qed

text \<open>An object pool as a list of free graphs that makes new ones by number.\<close>

definition stack_pool :: "(nat list \<times> nat, nat) pool_lib" where
  "stack_pool = \<lparr>pool_new = ([], 0), reserve_and_clear = (\<lambda>n P. ([], snd P)), set_creator = id, set_recycler = id,
     pop = (\<lambda>b P. case fst P of [] \<Rightarrow> (snd P, ([], Suc (snd P))) | g # gs \<Rightarrow> (g, (removeAll g gs, snd P))),
     give_back = (\<lambda>g P. (g # fst P, snd P))\<rparr>"

lemma stack_pool_ok: "object_pool stack_pool (set \<circ> fst) cap"
  by (auto simp: object_pool_def stack_pool_def split: list.splits)

text \<open>Two overlapping calls and a third one: the third caller shares the graph of one of the others.\<close>

theorem try_get_shares_graph_witness:
  "\<exists>g E' P'. try_gets stack_pool ''main_graph'' 20 (GraphEngine_new\<lparr>graphs := [''main_graph'' \<mapsto> ([], 0)]\<rparr>) =
      (replicate 20 (Some g), E') \<and> graphs E' ''main_graph'' = Some P' \<and> set (fst P') = {g} \<and>
    handed (get_steps stack_pool [] [Get_pop 0, Get_pop 1, Get_return 0, Get_return 1, Get_pop 2, Get_return 2] (pool_idle ([], 0))) =
      [(0, 0), (1, 1), (2, 1)]"
proof -
  let ?sts = "[Get_pop 0, Get_pop 1, Get_return 0, Get_return 1, Get_pop 2, Get_return 2]"
  have "handed (get_steps stack_pool [] ?sts (pool_idle ([], 0))) = [(0, 0), (1, 1), (2, 1)]"
    by (simp add: get_steps_def get_step_def pool_idle_def stack_pool_def)
  then show ?thesis using try_get_shares_graph [OF stack_pool_ok [of 20], of "GraphEngine_new\<lparr>graphs := [''main_graph'' \<mapsto> ([], 0)]\<rparr>"
      "''main_graph''" "([], 0)" 20 0 ?sts] by (simp add: GraphEngine_new_def)
qed

end
