(* ===== verification/Service_Theorems.thy ===== *)
theory Service_Theorems
  imports Graph_Runs Graph_Pool Dict_Theorems
begin

text \<open>
  Properties of the ranking service: the graph the engine configures, the graphs it hands out, the
  pipeline of processors, the RPC handler and the start of the server.
\<close>

subsection \<open>Configuring the graph\<close>

text \<open>The node of a vertex describes a \<open>VertexMessage\<close>.\<close>

definition describes :: "'t ptree_lib \<Rightarrow> string \<times> 't \<Rightarrow> VertexMessage \<Rightarrow> bool" where
  "describes L v m \<longleftrightarrow>
     get_string L (snd v) ''processor'' = Inr (vertex_name m) \<and>
     (case get_child L (snd v) ''dependencies'' of Inl e \<Rightarrow> False | Inr ds \<Rightarrow> map (data L \<circ> snd) (children L ds) = depends m) \<and>
     (case get_child L (snd v) ''outputs'' of Inl e \<Rightarrow> False | Inr os \<Rightarrow> map (data L \<circ> snd) (children L os) = emits m)"

definition vertex_calls :: "VertexMessage \<Rightarrow> builder_call list" where
  "vertex_calls m = Add_vertex (vertex_name m) # map Named_depend (depends m) @ map Named_emit (emits m)"

definition describes_expression :: "'t ptree_lib \<Rightarrow> string \<times> 't \<Rightarrow> string \<times> string \<Rightarrow> bool" where
  "describes_expression L e nv \<longleftrightarrow>
     get_string L (snd e) ''name'' = Inr (fst nv) \<and> get_string L (snd e) ''value'' = Inr (snd nv)"

text \<open>The two files are there and describe the vertices \<open>ms\<close> and the expressions \<open>xs\<close>.\<close>

definition graph_config :: "'t ptree_lib \<Rightarrow> VertexMessage list \<Rightarrow> (string \<times> string) list \<Rightarrow> bool" where
  "graph_config L ms xs \<longleftrightarrow>
     (case bind_cxx (read_xml L ''config.xml'') (\<lambda>pt. get_child L pt ''graph.vertices'') of
        Inl e \<Rightarrow> False | Inr vs \<Rightarrow> list_all2 (describes L) (children L vs) ms) \<and>
     (case bind_cxx (read_xml L ''expression.xml'') (\<lambda>pt. get_child L pt ''expressions'') of
        Inl e \<Rightarrow> False | Inr es \<Rightarrow> list_all2 (describes_expression L) (children L es) xs)"

definition config_calls :: "VertexMessage list \<Rightarrow> (string \<times> string) list \<Rightarrow> builder_call list" where
  "config_calls ms xs =
     Set_executor # concat (map vertex_calls ms) @ map (\<lambda>(n, v). Apply_expression n v) xs @ [Apply_expressions, Finish]"

lemma read_vertex_describes: "describes L v m \<Longrightarrow> read_vertex L v b = Inr (b @ vertex_calls m)"
proof -
  assume d: "describes L v m"
  then obtain ds os where "get_child L (snd v) ''dependencies'' = Inr ds" "get_child L (snd v) ''outputs'' = Inr os"
    and m: "map (data L \<circ> snd) (children L ds) = depends m" "map (data L \<circ> snd) (children L os) = emits m"
    by (auto simp: describes_def split: sum.splits)
  then show ?thesis using d by (simp add: describes_def read_vertex_def vertex_calls_def flip: m)
qed

lemma read_vertices:
  "list_all2 (describes L) vs ms \<Longrightarrow> fold_cxx (read_vertex L) vs b = Inr (b @ concat (map vertex_calls ms))"
  by (induction arbitrary: b rule: list_all2_induct) (simp_all add: read_vertex_describes)

lemma read_expressions:
  "list_all2 (describes_expression L) es xs \<Longrightarrow>
   fold_cxx (read_expression L) es b = Inr (b @ map (\<lambda>(n, v). Apply_expression n v) xs)"
  by (induction arbitrary: b rule: list_all2_induct)
    (simp_all add: describes_expression_def read_expression_def split: prod.splits)

lemma init_pool_config:
  assumes "graph_config L ms xs" and "graphs E name = None"
  shows "init_pool L PL n c name E = Inr (True, E\<lparr>page_heap := Some (8192, 4096), builder := builder E @ config_calls ms xs,
    graphs := (graphs E)(name \<mapsto> set_recycler PL (set_creator PL (reserve_and_clear PL n (pool_new PL))))\<rparr>)"
proof -
  obtain pt vs pt' es where c:
    "read_xml L ''config.xml'' = Inr pt" "get_child L pt ''graph.vertices'' = Inr vs"
    "read_xml L ''expression.xml'' = Inr pt'" "get_child L pt' ''expressions'' = Inr es"
    and vs: "list_all2 (describes L) (children L vs) ms" and es: "list_all2 (describes_expression L) (children L es) xs"
    using assms(1) by (auto simp: graph_config_def bind_cxx_eq_Inr split: sum.splits)
  show ?thesis
    by (simp add: init_pool_def Let_def assms(2) c read_vertices [OF vs] read_expressions [OF es] config_calls_def)
qed

lemma init_pool_known:
  "graphs E name \<noteq> None \<Longrightarrow> init_pool L PL n c name E = Inr (True, E\<lparr>page_heap := Some (8192, 4096)\<rparr>)"
  by (auto simp: init_pool_def Let_def)

text \<open>
  C18: with a well-formed configuration \<open>init_pool\<close> tells the builder every vertex in the order
  of the file, its dependencies and outputs by name, then every expression, and finishes it. A
  second call for the same name changes nothing; a call for another name feeds the whole configuration
  to the same, already finished builder once more.
\<close>

theorem init_pool_builds:
  assumes "graph_config L ms xs" and "graphs E name = None" and "name' \<noteq> name" and "graphs E name' = None"
  shows "\<exists>E1. init_pool L PL n c name E = Inr (True, E1) \<and> builder E1 = builder E @ config_calls ms xs \<and>
    graphs E1 name \<noteq> None \<and> init_pool L PL n c name E1 = Inr (True, E1) \<and>
    (\<exists>E2. init_pool L PL n c name' E1 = Inr (True, E2) \<and> builder E2 = builder E @ config_calls ms xs @ config_calls ms xs)"
  using assms by (simp add: init_pool_config init_pool_known)

text \<open>The tree of \<open>conf/graph/graph_config.xml\<close> and an expression file with one expression.\<close>

definition leaf :: "string \<Rightarrow> string \<Rightarrow> string \<times> xml_tree" where
  "leaf tag d = (tag, Xml d [])"

definition vertex_xml :: "VertexMessage \<Rightarrow> string \<times> xml_tree" where
  "vertex_xml m = (''vertex'', Xml [] [leaf ''processor'' (vertex_name m),
     (''dependencies'', Xml [] (map (leaf ''dependency'') (depends m))),
     (''outputs'', Xml [] (map (leaf ''output'') (emits m)))])"

definition graph_vertices :: "VertexMessage list" where
  "graph_vertices =
    [\<lparr>vertex_name = ''ParseRequestProcessor'', emits = [''normalized_request''], depends = [''request'']\<rparr>,
     \<lparr>vertex_name = ''RankProcessor'', emits = [''rank_info''], depends = [''normalized_request'', ''prerank_info'']\<rparr>,
     \<lparr>vertex_name = ''PrerankProcessor'', emits = [''prerank_info''], depends = [''normalized_request'']\<rparr>,
     \<lparr>vertex_name = ''OutputProcessor'', emits = [''response_info'', ''rs_response''],
       depends = [''normalized_request'', ''prerank_info'', ''rank_info'']\<rparr>]"

definition config_lib :: "xml_tree ptree_lib" where
  "config_lib = \<lparr>
     read_xml = (\<lambda>f. if f = ''config.xml'' then Inr (Xml [] [(''graph.vertices'', Xml [] (map vertex_xml graph_vertices))])
       else Inr (Xml [] [(''expressions'', Xml [] [(''expression'', Xml [] [leaf ''name'' ''IsSkipPreRank'', leaf ''value'' ''IsSdkTraffic''])])])),
     get_child = xml_child, get_string = (\<lambda>y key. map_sum id xml_data (xml_child y key)), children = xml_kids, data = xml_data\<rparr>"

lemma config_lib_config: "graph_config config_lib graph_vertices [(''IsSkipPreRank'', ''IsSdkTraffic'')]"
  by (simp add: graph_config_def config_lib_def xml_child_def graph_vertices_def vertex_xml_def leaf_def describes_def
      describes_expression_def comp_def)

theorem init_pool_builds_witness:
  "\<exists>E1 :: (nat list \<times> nat, nat) GraphEngine.
    init_pool config_lib stack_pool 20 20 ''main_graph'' GraphEngine_new = Inr (True, E1) \<and>
    builder E1 = config_calls graph_vertices [(''IsSkipPreRank'', ''IsSdkTraffic'')]"
  using init_pool_builds [OF config_lib_config, of "GraphEngine_new :: (nat list \<times> nat, nat) GraphEngine" "''main_graph''" "''other''" stack_pool 20 20]
  by (auto simp: GraphEngine_new_def)

subsection \<open>The pipeline\<close>

lemma run_price:
  assumes "run_vertices out0 [ParseRequest, Prerank, Rank, Output] (graph_start r skip) = Inr g"
  shows "\<exists>b. response_info g = Some b \<and> resp_request_id b = rq_request_id r \<and>
      (if skip then mant (bid_price b) = 0 else bid_price b = \<lparr>mant = 6871878954123264, expo = - 34\<rparr>)"
    and "map_option rs_request_id (rs_response g) = Some (rq_request_id r)"
proof -
  note g = assms [unfolded run_final Let_def, simplified]
  show "map_option rs_request_id (rs_response g) = Some (rq_request_id r)" using g by auto
  show "\<exists>b. response_info g = Some b \<and> resp_request_id b = rq_request_id r \<and>
      (if skip then mant (bid_price b) = 0 else bid_price b = \<lparr>mant = 6871878954123264, expo = - 34\<rparr>)"
  proof (cases skip)
    case True
    have "mant (pre_ecpm PrerankInfo_new) = 0" by (simp add: PrerankInfo_new_def dbl_small)
    then show ?thesis using g True by (auto simp: bid_zero)
  next
    case False
    then show ?thesis using g by (auto simp: bid_eval)
  qed
qed

text \<open>
  C16: of all orders in which the four processors can run, exactly those get through that read no datum
  nobody has emitted: the order of the dependencies and, if the request skips the pre-ranking, also the one that runs
  the pre-ranking first. Each of them answers with the id of the request. The price is 0 if the request skips
  the pre-ranking and otherwise 399996 (\<open>6871878954123264 / 2\<^sup>3\<^sup>4\<close>), whatever the request.
\<close>

theorem pipeline_order:
  assumes "distinct vs" and "set vs = {ParseRequest, Prerank, Rank, Output}"
  shows "((\<exists>g. run_vertices out0 vs (graph_start r skip) = Inr g) \<longleftrightarrow>
      vs = [ParseRequest, Prerank, Rank, Output] \<or> skip \<and> vs = [Prerank, ParseRequest, Rank, Output]) \<and>
    (\<forall>g. run_vertices out0 vs (graph_start r skip) = Inr g \<longrightarrow>
      (\<exists>b. response_info g = Some b \<and> resp_request_id b = rq_request_id r \<and>
        (if skip then mant (bid_price b) = 0 else bid_price b = \<lparr>mant = 6871878954123264, expo = - 34\<rparr>)) \<and>
      map_option rs_request_id (rs_response g) = Some (rq_request_id r))"
proof -
  have o: "vs = [ParseRequest, Prerank, Rank, Output] \<or> skip \<and> vs = [Prerank, ParseRequest, Rank, Output]"
    if "run_vertices out0 vs (graph_start r skip) = Inr g" for g
    using that run_orders [OF assms, of out0 r g] run_orders_skip [OF assms, of out0 r g] by (cases skip) simp_all
  have r: "run_vertices out0 vs (graph_start r skip) = run_vertices out0 [ParseRequest, Prerank, Rank, Output] (graph_start r skip)"
    if "vs = [ParseRequest, Prerank, Rank, Output] \<or> skip \<and> vs = [Prerank, ParseRequest, Rank, Output]"
    using that run_prerank_first by fastforce
  have f: "\<exists>g. run_vertices out0 [ParseRequest, Prerank, Rank, Output] (graph_start r skip) = Inr g"
    unfolding run_final Let_def by blast
  have p: "(\<exists>b. response_info g = Some b \<and> resp_request_id b = rq_request_id r \<and>
        (if skip then mant (bid_price b) = 0 else bid_price b = \<lparr>mant = 6871878954123264, expo = - 34\<rparr>)) \<and>
      map_option rs_request_id (rs_response g) = Some (rq_request_id r)"
    if "run_vertices out0 vs (graph_start r skip) = Inr g" for g
    using run_price [of out0 r skip g] r [OF o [OF that]] that by simp
  show ?thesis using o r f p by metis
qed

definition sample_request :: RsRequest where
  "sample_request = \<lparr>rq_request_id = ''66503a39b2c54d0007e800dx'', rq_adx = ''skt_test_sdk'', rq_one_id = ''one'',
     rq_timeout = 166, rq_ad_type = ''reward'', rq_channel = ''trageting''\<rparr>"

definition empty_response :: RsResponse where
  "empty_response = \<lparr>rs_status_code = 0, rs_error_msg = [], rs_request_id = [], rs_ext_algo_list = []\<rparr>"

theorem pipeline_order_witness:
  "\<exists>g b. run_vertices empty_response [ParseRequest, Prerank, Rank, Output] (graph_start sample_request False) = Inr g \<and>
      response_info g = Some b \<and> bid_price b = \<lparr>mant = 6871878954123264, expo = - 34\<rparr> \<and>
      map_option rs_request_id (rs_response g) = Some (rq_request_id sample_request)"
proof -
  have "set [ParseRequest, Prerank, Rank, Output] = {ParseRequest, Prerank, Rank, Output}" by auto
  from pipeline_order [OF _ this, of empty_response sample_request False] show ?thesis
    by (auto simp del: run_vertices.simps)
qed

text \<open>
  A request that skips the pre-ranking gets through in dependency order as well,
  with a price of zero and without its id in the pre-ranking data.
\<close>

theorem skipped_request_bids_zero:
  "\<exists>g p b. run_vertices out0 [ParseRequest, Prerank, Rank, Output] (graph_start r True) = Inr g \<and>
    prerank_info g = Some p \<and> pre_request_id p = [] \<and> response_info g = Some b \<and> mant (bid_price b) = 0 \<and>
    resp_request_id b = rq_request_id r"
  by (subst run_final)
    (simp add: Let_def PrerankInfo_new_def bid_zero dbl_small del: run_vertices.simps)

subsection \<open>The RPC handler\<close>

text \<open>
  C17: what a request can lead to, for every graph library whose evaluations run processors of configured
  vertices and configured expressions, in whatever order and however often. Without a graph pool, a request or a
  response object the handler reads through a null pointer. A call that ends completes the call's closure once; if the code is 0,
  the response is the one handed in with the request's id, \<open>success\<close> and \<open>ext_algo\<close>, the configuration has
  all four processors, and one of its expressions provides \<open>IsSkipPreRank\<close>. With the shipped
  configuration and no such expression no request is ever answered with code 0.
\<close>

theorem say_hello_outcome:
  assumes "runs_config GL ms xs" and "\<And>g. find_data GL g ''request''" and "\<And>g. find_data GL g ''rs_response''"
  shows "(graphs E ''main_graph'' = None \<or> req = None \<or> resp = None \<longrightarrow>
      SayHello PL GL (Some E) req resp has_done = Inl Null_deref) \<and>
    (\<forall>res E'. SayHello PL GL (Some E) req resp has_done = Inr (res, E') \<longrightarrow>
      done_calls res = (if has_done then 1 else 0) \<and>
      (rpc_code res = 0 \<longrightarrow> rpc_response res = answered (the req) (the resp) \<and>
        list_all (\<lambda>v. processor_name v \<in> set (map vertex_name ms)) [ParseRequest, Prerank, Rank, Output] \<and>
        ''IsSkipPreRank'' \<in> set (map fst xs)))"
proof (intro conjI allI impI)
  assume "graphs E ''main_graph'' = None \<or> req = None \<or> resp = None"
  then show "SayHello PL GL (Some E) req resp has_done = Inl Null_deref"
    by (cases req; cases resp) (auto simp: SayHello_def depend_def try_get_def assms(2,3) split: option.splits prod.splits)
next
  fix res E'
  assume "SayHello PL GL (Some E) req resp has_done = Inr (res, E')"
  then obtain g r out code where s: "req = Some r" "resp = Some out" "evaluate GL g r out = Inr (rpc_response res, code)"
    "rpc_code res = code" "done_calls res = (if has_done then 1 else 0)"
    by (auto simp: SayHello_def depend_def bind_cxx_eq_Inr split: option.splits prod.splits if_splits)
  show "done_calls res = (if has_done then 1 else 0)" by (rule s(5))
  assume "rpc_code res = 0"
  then obtain ss c where "c \<noteq> 0" "list_all (configured ms xs) ss" "graph_result ss c r out = Inr (rpc_response res, 0)"
    using assms(1) s(3,4) unfolding runs_config_def by metis
  from graph_result_success [OF this(3,1,2)]
  show "rpc_response res = answered (the req) (the resp)"
    "list_all (\<lambda>v. processor_name v \<in> set (map vertex_name ms)) [ParseRequest, Prerank, Rank, Output]"
    "''IsSkipPreRank'' \<in> set (map fst xs)" by (simp_all only: s(1,2) option.sel)
qed

text \<open>An engine that runs the expression and then the processors in the order of their dependencies.\<close>

definition direct_steps :: "graph_step list" where
  "direct_steps = [Vertex_step ParseRequest, Flag_step False, Vertex_step Prerank, Vertex_step Rank, Vertex_step Output]"

definition direct_graph :: "nat graph_lib" where
  "direct_graph = \<lparr>find_data = (\<lambda>g name. name \<in> {''request'', ''rs_response''}), evaluate = (\<lambda>g. graph_result direct_steps (- 1))\<rparr>"

lemma direct_graph_runs: "runs_config direct_graph graph_vertices [(''IsSkipPreRank'', ''IsSdkTraffic'')]"
  unfolding runs_config_def direct_graph_def
  by (intro allI exI [of _ direct_steps] exI [of _ "- 1"])
    (simp add: direct_steps_def configured_def graph_vertices_def processor_name_def)

lemma direct_graph_answers:
  "SayHello stack_pool direct_graph (Some (GraphEngine_new\<lparr>graphs := [''main_graph'' \<mapsto> ([], 0)]\<rparr>)) (Some sample_request) (Some empty_response) True =
   Inr (\<lparr>rpc_response = answered sample_request empty_response, rpc_code = 0, done_calls = 1\<rparr>,
     GraphEngine_new\<lparr>graphs := [''main_graph'' \<mapsto> ([0], 1)]\<rparr>)"
  by (simp add: SayHello_def depend_def try_get_def stack_pool_def direct_graph_def direct_steps_def graph_result_def graph_begin_def
      graph_start_def process_defs answered_def)

theorem say_hello_outcome_witness:
  "\<exists>res E'. SayHello stack_pool direct_graph (Some (GraphEngine_new\<lparr>graphs := [''main_graph'' \<mapsto> ([], 0)]\<rparr>))
      (Some sample_request) (Some empty_response) True = Inr (res, E') \<and> done_calls res = 1 \<and>
    rpc_response res = answered sample_request empty_response"
proof -
  have f: "find_data direct_graph g ''request''" "find_data direct_graph g ''rs_response''" for g by (simp_all add: direct_graph_def)
  note w = conjunct2 [OF say_hello_outcome [OF direct_graph_runs f, of "GraphEngine_new\<lparr>graphs := [''main_graph'' \<mapsto> ([], 0)]\<rparr>"
      "Some sample_request" "Some empty_response" stack_pool True], rule_format, OF direct_graph_answers]
  show ?thesis using w direct_graph_answers by simp
qed

subsection \<open>Starting the server\<close>

lemma empty_lookups:
  assumes "map GET_DICT (dict_hander_vect M) = [Inr (Some (Offer (OfferBidRatio_new offer_bid_ratio_path))),
      Inr (Some (Common (CommonFileDict_new offer_bid_ratio_path)))]"
  shows "logged_lookups M = Inr (replicate 3 (Some \<lparr>mant = 0, expo = 0\<rparr>))"
proof -
  obtain x y where "dict_hander_vect M = [x, y]" "GET_DICT x = Inr (Some (Offer (OfferBidRatio_new offer_bid_ratio_path)))"
    "GET_DICT y = Inr (Some (Common (CommonFileDict_new offer_bid_ratio_path)))"
    using assms by (auto simp: map_eq_Cons_conv)
  then show ?thesis by (simp add: logged_lookups_def OfferBidRatio_get_key_def CommonFileDict_get_key_def
      OfferBidRatio_new_def CommonFileDict_new_def numeral_3_eq_3)
qed

text \<open>
  C19: the dictionary file is missing and the graph configuration is well-formed. If the first loader thread
  writes its failure after the starting thread has stored the 0 of \<open>bthread_start_background\<close>, the join loop returns at once, and
  if the second loader thread is then still running it writes to storage that is gone. In every other schedule the
  server starts nevertheless: all three start-up lookups answer 0 and \<open>main\<close> goes on to serve with exit status 0.
\<close>

theorem server_starts_anyway:
  assumes "\<forall>n. start_ret (s n) = 0" and "\<forall>n. load_files (s n) offer_bid_ratio_path = Missing"
    and "graph_config L ms xs" and "graphs E ''main_graph'' = None"
  shows "if ret_write (s 0) \<noteq> Before_store \<and> ret_write (s 1) = After_exit
    then server_main (GlobalInitializer_init (run (object_class castI castD mk) True s True True (registered_dicts castI castD)) L PL pool_ret (Some E)) 0 0 =
      Inl Invalid_access
    else \<exists>E'. GlobalInitializer_init (run (object_class castI castD mk) True s True True (registered_dicts castI castD)) L PL pool_ret (Some E) =
        Inr (0, replicate 3 (Some \<lparr>mant = 0, expo = 0\<rparr>), Some E') \<and> graphs E' ''main_graph'' \<noteq> None \<and>
      server_main (GlobalInitializer_init (run (object_class castI castD mk) True s True True (registered_dicts castI castD)) L PL pool_ret (Some E)) 0 0 = Inr 0"
proof -
  obtain M' where M': "run (object_class castI castD mk) True s True True (registered_dicts castI castD) =
      (if ret_write (s 0) \<noteq> Before_store \<and> ret_write (s 1) = After_exit then Inl Invalid_access else Inr (0, M'))"
    "map GET_DICT (dict_hander_vect M') = [Inr (Some (Offer (OfferBidRatio_new offer_bid_ratio_path))),
      Inr (Some (Common (CommonFileDict_new offer_bid_ratio_path)))]"
    using missing_file_startup [OF assms(1,2), of castI castD mk True] by metis
  have e: "graphs (check_executor pool_ret E) ''main_graph'' = None" using assms(4) by (simp add: check_executor_def)
  show ?thesis
    by (auto simp: GlobalInitializer_init_def server_main_def M'(1) empty_lookups [OF M'(2)] engine_initialize_def
        init_pool_config [OF assms(3) e] try_get_def split: prod.splits)
qed

definition missing_schedule :: "ret_write \<Rightarrow> nat \<Rightarrow> schedule" where
  "missing_schedule w n = \<lparr>start_ret = 0, ret_write = w, load_files = (\<lambda>_. Missing), load_skew = 0\<rparr>"

theorem server_starts_anyway_witness:
  "server_main (GlobalInitializer_init
      (run (object_class int_cast digit_cast (\<lambda>f. Offer (OfferBidRatio_new f))) True
        (missing_schedule Before_store) True True (registered_dicts int_cast digit_cast)) config_lib stack_pool 0 (Some GraphEngine_new)) 0 0 = Inr 0 \<and>
   server_main (GlobalInitializer_init
      (run (object_class int_cast digit_cast (\<lambda>f. Offer (OfferBidRatio_new f))) True
        (missing_schedule After_exit) True True (registered_dicts int_cast digit_cast)) config_lib stack_pool 0 (Some GraphEngine_new)) 0 0 = Inl Invalid_access"
proof -
  have e: "graphs GraphEngine_new ''main_graph'' = None" by (simp add: GraphEngine_new_def)
  have m: "\<forall>n. start_ret (missing_schedule w n) = 0" "\<forall>n. load_files (missing_schedule w n) offer_bid_ratio_path = Missing" for w
    by (simp_all add: missing_schedule_def)
  note t = server_starts_anyway [OF m config_lib_config e, of _ int_cast digit_cast "\<lambda>f. Offer (OfferBidRatio_new f)" stack_pool 0]
  show ?thesis using t [of Before_store] t [of After_exit] by (auto simp: missing_schedule_def)
qed

end
