(* ===== verification/Client_Server.thy ===== *)
theory Client_Server
  imports Service_Theorems
begin

text \<open>
  The client (\<open>example/brpc/brpc_client.cpp\<close>) against the server: the request it fills with the setters of
  \<open>proto/demo_proto.proto\<close>, the call, and what it prints; and the whole system from the start of the server to
  the reply. brpc's channel, which carries a request to the handler and the response back, is an argument.
\<close>

subsection \<open>Messages\<close>

record PackageInfo =
  package_name :: string
  app_name :: string
  app_size :: "32 word"
  content_rating :: "32 word"
  num_ratings :: "32 word"
  rating :: bfloat
  developer_id :: string
  bundle_id :: string
  market_status :: "32 word"
  normalized_package_name :: string
  normalized_developer_id :: string
  business_category_1 :: "32 word"
  business_category_2 :: "32 word"
  mtg_category_level_1 :: "32 word"
  mtg_category_level_2 :: "32 word"
  mtg_category_level_3 :: "32 word"
  category_type :: "32 word"
  market_category :: "string list"
  market_sub_category :: "string list"
  similar_packages :: "string list"
  developer_packages :: "string list"

record OfferInfo =
  demand_offer_id :: "64 word"
  given_price :: bfloat
  received_price :: bfloat
  given_price_factor :: bfloat
  target_goal_type :: "32 word"
  target_goal_value :: bfloat
  target_goal_window :: "32 word"
  offer_queue_id :: "32 word"
  offer_index :: "32 word"
  package_info :: "PackageInfo option"

text \<open>The whole message; the part the processors read is its truncation.\<close>

record RequestMessage = RsRequest +
  rq_message :: string
  rq_offer_info :: "OfferInfo list"

definition lit_10_5 :: bfloat where "lit_10_5 = \<lparr>mant = 5910974510923776, expo = - 49\<rparr>"
definition lit_9_8 :: bfloat where "lit_9_8 = \<lparr>mant = 5516909543528858, expo = - 49\<rparr>"
definition lit_1_2 :: bfloat where "lit_1_2 = \<lparr>mant = 5404319552844595, expo = - 52\<rparr>"
definition lit_4_5 :: bfloat where "lit_4_5 = \<lparr>mant = 5066549580791808, expo = - 50\<rparr>"

subsection \<open>The client\<close>

definition client_package :: PackageInfo where
  "client_package = \<lparr>package_name = ''com.example.app'', app_name = ''Example App'', app_size = 1024, content_rating = 4,
     num_ratings = 1000, rating = lit_4_5, developer_id = ''developer123'', bundle_id = ''com.example.app'',
     market_status = 1, normalized_package_name = ''com.example.app'', normalized_developer_id = ''developer123'',
     business_category_1 = 1, business_category_2 = 2, mtg_category_level_1 = 1, mtg_category_level_2 = 2,
     mtg_category_level_3 = 3, category_type = 1, market_category = [''category1''],
     market_sub_category = [''subcategory1''], similar_packages = [''similar1''], developer_packages = [''developer1'']\<rparr>"

definition client_offer :: OfferInfo where
  "client_offer = \<lparr>demand_offer_id = 123, given_price = lit_10_5, received_price = lit_9_8, given_price_factor = lit_1_2,
     target_goal_type = 1, target_goal_value = dbl 100, target_goal_window = 7, offer_queue_id = 1234, offer_index = 1,
     package_info = Some client_package\<rparr>"

definition client_request :: RequestMessage where
  "client_request = \<lparr>rq_request_id = ''66503a39b2c54d0007e800dx'', rq_adx = ''skt_test_sdk'',
     rq_one_id = ''test491d1fe44b98ac63991161b21e5bd5af45'', rq_timeout = 166, rq_ad_type = ''reward'',
     rq_channel = ''trageting'', rq_message = ''Test message'', rq_offer_info = [client_offer]\<rparr>"

definition RsResponse_new :: RsResponse where
  "RsResponse_new = \<lparr>rs_status_code = 0, rs_error_msg = [], rs_request_id = [], rs_ext_algo_list = []\<rparr>"

text \<open>\<open>call\<close> is the stub's \<open>SayHello\<close> over the channel: the response it fills and whether the controller has
  failed. The result is the exit status and the four values printed as the reply.\<close>

definition client_main ::
  "int \<Rightarrow> (RequestMessage \<Rightarrow> RsResponse \<Rightarrow> RsResponse \<times> bool) \<Rightarrow> int \<times> (32 word \<times> string \<times> string \<times> string) option" where
  "client_main channel_init call =
     (if channel_init \<noteq> 0 then (- 1, None)
      else case call client_request RsResponse_new of (reply, failed) \<Rightarrow>
           if failed then (- 1, None)
           else (0, Some (rs_status_code reply, rs_error_msg reply, rs_request_id reply,
                    rs_ext_algo_list reply)))"

text \<open>What the channel does when the network works: the handler gets the request and an empty response, and the client
  gets what the handler has filled in; a handler that crashes is a failed call.\<close>

definition delivers ::
  "(RequestMessage \<Rightarrow> RsResponse \<Rightarrow> RsResponse \<times> bool) \<Rightarrow>
   (RsRequest option \<Rightarrow> RsResponse option \<Rightarrow> bool \<Rightarrow> (rpc_result \<times> 'e) cxx) \<Rightarrow> bool" where
  "delivers call handler \<longleftrightarrow> (\<forall>msg out. call msg out =
     (case handler (Some (RsRequest.truncate msg)) (Some RsResponse_new) True of
        Inl e \<Rightarrow> (out, True) | Inr (r, E) \<Rightarrow> (rpc_response r, False)))"

text \<open>The flags \<open>ParseRequestProcessor\<close> derives from the client's request: the names of the exchange and of the channel
  miss those the server looks for by a letter.\<close>

lemma client_flags:
  "ParseRequestProcessor_process (graph_start (RsRequest.truncate client_request) skip) =
   Inr (0, (graph_start (RsRequest.truncate client_request) skip)
     \<lparr>normalized_request := Some \<lparr>timeout = 166, price = dbl 1000, request_id = ''66503a39b2c54d0007e800dx'',
        adx = ''skt_test_sdk'', one_id = ''test491d1fe44b98ac63991161b21e5bd5af45''\<rparr>,
      IsSdkTraffic := Some False, IsNotIvrv := Some False, IsSpecialChannel := Some False\<rparr>)"
  by (simp add: process_defs graph_start_def client_request_def RsRequest.truncate_def)

subsection \<open>The shipped configuration\<close>

text \<open>The names that a processor declares and \<open>conf/graph/graph_config.xml\<close> (\<open>graph_vertices\<close>) does not bind for it.\<close>

definition unbound :: "(vertex \<Rightarrow> string list) \<Rightarrow> (VertexMessage \<Rightarrow> string list) \<Rightarrow> VertexMessage list \<Rightarrow> (vertex \<times> string) list" where
  "unbound declared bound ms =
     [(v, d). v \<leftarrow> [ParseRequest, Prerank, Rank, Output], d \<leftarrow> declared v,
        list_all (\<lambda>m. vertex_name m = processor_name v \<longrightarrow> d \<notin> set (bound m)) ms]"

text \<open>The flag that decides about pre-ranking is not bound, nor is anything it could be computed from; without it the
  pre-ranking reads through a null pointer.\<close>

lemma shipped_config_unbound:
  "unbound interface_depends depends graph_vertices = [(Prerank, ''IsSkipPreRank'')]"
  "unbound interface_emits emits graph_vertices =
     [(ParseRequest, ''IsSdkTraffic''), (ParseRequest, ''IsNotIvrv''), (ParseRequest, ''IsSpecialChannel'')]"
  by (simp_all add: unbound_def interface_depends_def interface_emits_def processor_name_def graph_vertices_def)

lemma prerank_unbound_crashes: "PrerankProcessor_process (g\<lparr>IsSkipPreRank := None\<rparr>) = Inl Null_deref"
  by (simp add: PrerankProcessor_process_def depend_def)

subsection \<open>From start to reply\<close>

text \<open>The two dictionaries a well-formed file with the entries \<open>es\<close> leads to, and the values logged at the start.\<close>

definition loaded_dicts ::
  "(string \<Rightarrow> 64 word) \<Rightarrow> (string \<Rightarrow> double) \<Rightarrow> (string \<times> string) list \<Rightarrow> OfferBidRatio \<times> (64 word, double) CommonFileDict" where
  "loaded_dicts kf vf es =
     (\<lparr>offer_dict_file = offer_bid_ratio_path, offer_exp_ratio = map_of (map (\<lambda>e. (kf (fst e), vf (snd e))) es)\<rparr>,
      \<lparr>common_dict_file = offer_bid_ratio_path, key_value_mapping = map_of (rev (map (\<lambda>e. (kf (fst e), vf (snd e))) es))\<rparr>)"

definition start_values :: "OfferBidRatio \<times> (64 word, double) CommonFileDict \<Rightarrow> double list" where
  "start_values ds =
     [OfferBidRatio_get_key (fst ds) 311111111,
      CommonFileDict_get_key (Some \<lparr>mant = 0, expo = 0\<rparr>) (snd ds) 311111111,
      CommonFileDict_get_key (Some \<lparr>mant = 0, expo = 0\<rparr>) (snd ds) 4444444]"

lemma logged_lookups_loaded:
  assumes "map GET_DICT (dict_hander_vect M) = [Inr (Some (Offer d0)), Inr (Some (Common d1))]"
  shows "logged_lookups M = Inr (start_values (d0, d1))"
proof -
  obtain x y where "dict_hander_vect M = [x, y]" "GET_DICT x = Inr (Some (Offer d0))" "GET_DICT y = Inr (Some (Common d1))"
    using assms by (auto simp: map_eq_Cons_conv)
  then show ?thesis by (simp add: logged_lookups_def start_values_def)
qed

lemma init_starts:
  assumes run: "dict_run = Inr (0, M)" and logged: "logged_lookups M = Inr values"
    and cfg: "graph_config L ms xs" and E: "graphs E ''main_graph'' = None"
  shows "\<exists>E'. GlobalInitializer_init dict_run L PL pool_ret (Some E) = Inr (0, values, Some E') \<and>
    graphs E' ''main_graph'' \<noteq> None \<and> server_main (GlobalInitializer_init dict_run L PL pool_ret (Some E)) 0 0 = Inr 0"
proof -
  have "graphs (check_executor pool_ret E) ''main_graph'' = None" using E by (simp add: check_executor_def)
  then show ?thesis
    by (auto simp: GlobalInitializer_init_def server_main_def run logged engine_initialize_def init_pool_config [OF cfg]
        try_get_def split: prod.splits)
qed

lemma client_answer: "answered (RsRequest.truncate client_request) RsResponse_new =
    \<lparr>rs_status_code = 0, rs_error_msg = ''success'', rs_request_id = ''66503a39b2c54d0007e800dx'', rs_ext_algo_list = ''ext_algo''\<rparr>"
  by (simp add: answered_def RsResponse_new_def client_request_def RsRequest.truncate_def)

lemma client_served:
  assumes GL: "runs_in_data_order GL ms xs" and ms: "list_all binds_interface ms" "processor_name Output \<in> set (map vertex_name ms)"
    and find: "\<And>g. find_data GL g ''request''" "\<And>g. find_data GL g ''rs_response''"
    and call: "delivers call (SayHello PL GL (Some E))" and E: "graphs E ''main_graph'' \<noteq> None"
  shows "client_main 0 call = (0, Some (0, ''success'', ''66503a39b2c54d0007e800dx'', ''ext_algo''))"
proof -
  obtain P where P: "graphs E ''main_graph'' = Some P" using E by blast
  have "evaluate GL g r out = Inr (answered r out, 0)" for g r out
  proof -
    obtain ss code where "in_order ms [''request''] ss" "Vertex_step Output \<in> set ss" "evaluate GL g r out = graph_result ss code r out"
      using GL ms(2) unfolding runs_in_data_order_def by blast
    then show ?thesis using data_order_succeeds [OF ms(1)] by simp
  qed
  then have "map_sum id fst (SayHello PL GL (Some E) (Some (RsRequest.truncate client_request)) (Some RsResponse_new) True) =
      Inr \<lparr>rpc_response = answered (RsRequest.truncate client_request) RsResponse_new, rpc_code = 0, done_calls = 1\<rparr>"
    by (simp add: SayHello_def depend_def try_get_def P find split: prod.splits)
  then show ?thesis using call client_answer
    by (cases "SayHello PL GL (Some E) (Some (RsRequest.truncate client_request)) (Some RsResponse_new) True")
      (auto simp: client_main_def delivers_def)
qed

text \<open>
  C14: the whole way from the files to the reply. The dictionary file is well-formed, the graph configuration
  has the vertices \<open>ms\<close> and the expressions \<open>xs\<close>, the output processor among the vertices, and binds each processor to
  all the data it reads. (The shipped one does not bind \<open>IsSkipPreRank\<close>; once that is added it does.) Graphs run configured vertices
  and expressions in the order of the data until the response is there. Then the server starts, logs the first value of the offer from \<open>OfferBidRatio\<close> and the last ones from \<open>CommonFileDict\<close>,
  and serves; a client that calls it over a channel that delivers gets its request id back with \<open>success\<close>,
  prints status code 0 and exits with 0.
\<close>

theorem service_answers_client:
  assumes "\<forall>e \<in> set es. good_entry castI castD kf vf e"
    and "\<forall>n. start_ret (s n) = 0" and "\<forall>n. \<exists>t. load_files (s n) offer_bid_ratio_path = Regular t (dict_text es)"
    and "graph_config L ms xs" and "list_all binds_interface ms" and "processor_name Output \<in> set (map vertex_name ms)"
    and "graphs E ''main_graph'' = None"
    and "runs_in_data_order GL ms xs"
    and "\<And>g. find_data GL g ''request''" and "\<And>g. find_data GL g ''rs_response''"
    and "\<And>handler. delivers (channel handler) handler"
  shows "\<exists>E'. GlobalInitializer_init (run (object_class castI castD mk) True s True w (registered_dicts castI castD)) L PL pool_ret (Some E) =
      Inr (0, start_values (loaded_dicts kf vf es), Some E') \<and>
    server_main (GlobalInitializer_init (run (object_class castI castD mk) True s True w (registered_dicts castI castD)) L PL pool_ret (Some E)) 0 0 = Inr 0 \<and>
    client_main 0 (channel (SayHello PL GL (Some E'))) = (0, Some (0, ''success'', ''66503a39b2c54d0007e800dx'', ''ext_algo''))"
proof -
  have "\<exists>M'. run (object_class castI castD mk) True s True w (registered_dicts castI castD) = Inr (0, M') \<and>
      map GET_DICT (dict_hander_vect M') =
        [Inr (Some (Offer (fst (loaded_dicts kf vf es)))), Inr (Some (Common (snd (loaded_dicts kf vf es))))]"
    unfolding loaded_dicts_def fst_conv snd_conv by (rule startup_loaded [OF assms(1,2,3)])
  then obtain M' where M: "run (object_class castI castD mk) True s True w (registered_dicts castI castD) = Inr (0, M') \<and>
      map GET_DICT (dict_hander_vect M') =
        [Inr (Some (Offer (fst (loaded_dicts kf vf es)))), Inr (Some (Common (snd (loaded_dicts kf vf es))))]" ..
  note M' = M [THEN conjunct1] and d = M [THEN conjunct2]
  from init_starts [OF M' logged_lookups_loaded [OF d, unfolded prod.collapse] assms(4,7)] obtain E' where E':
    "GlobalInitializer_init (run (object_class castI castD mk) True s True w (registered_dicts castI castD)) L PL pool_ret (Some E) =
      Inr (0, start_values (loaded_dicts kf vf es), Some E')"
    "graphs E' ''main_graph'' \<noteq> None"
    "server_main (GlobalInitializer_init (run (object_class castI castD mk) True s True w (registered_dicts castI castD)) L PL pool_ret (Some E)) 0 0 = Inr 0"
    by blast
  have "client_main 0 (channel (SayHello PL GL (Some E'))) = (0, Some (0, ''success'', ''66503a39b2c54d0007e800dx'', ''ext_algo''))"
    by (rule client_served [OF assms(8,5,6,9,10,11) E'(2)])
  with E'(1,3) show ?thesis by blast
qed

definition direct_channel ::
  "(RsRequest option \<Rightarrow> RsResponse option \<Rightarrow> bool \<Rightarrow> (rpc_result \<times> 'e) cxx) \<Rightarrow> RequestMessage \<Rightarrow> RsResponse \<Rightarrow> RsResponse \<times> bool" where
  "direct_channel handler msg out =
     (case handler (Some (RsRequest.truncate msg)) (Some RsResponse_new) True of
        Inl e \<Rightarrow> (out, True) | Inr (r, E) \<Rightarrow> (rpc_response r, False))"

text \<open>The shipped configuration with the missing binding, and a dictionary file with the offers that the server looks up.\<close>

definition bound_vertices :: "VertexMessage list" where
  "bound_vertices = map (\<lambda>m. if vertex_name m = ''PrerankProcessor'' then m\<lparr>depends := depends m @ [''IsSkipPreRank'']\<rparr> else m) graph_vertices"

definition bound_lib :: "xml_tree ptree_lib" where
  "bound_lib = config_lib\<lparr>read_xml := (\<lambda>f. if f = ''config.xml'' then Inr (Xml [] [(''graph.vertices'', Xml [] (map vertex_xml bound_vertices))])
     else read_xml config_lib f)\<rparr>"

lemma bound_lib_config: "graph_config bound_lib bound_vertices [(''IsSkipPreRank'', ''IsSdkTraffic'')]"
  by (simp add: graph_config_def bound_lib_def config_lib_def xml_child_def bound_vertices_def graph_vertices_def vertex_xml_def
      leaf_def describes_def describes_expression_def comp_def)

lemma bound_vertices_bind:
  "list_all binds_interface bound_vertices" "processor_name Output \<in> set (map vertex_name bound_vertices)"
  by (simp_all add: bound_vertices_def graph_vertices_def binds_interface_def processor_name_def interface_depends_def interface_emits_def)

lemma direct_graph_in_order: "runs_in_data_order direct_graph bound_vertices [(''IsSkipPreRank'', ''IsSdkTraffic'')]"
proof -
  have "Vertex_step v \<in> set direct_steps" for v by (cases v) (simp_all add: direct_steps_def)
  moreover have "list_all (configured bound_vertices [(''IsSkipPreRank'', ''IsSdkTraffic'')]) direct_steps"
    "in_order bound_vertices [''request''] direct_steps"
    by (simp_all add: direct_steps_def configured_def bound_vertices_def graph_vertices_def processor_name_def)
  ultimately show ?thesis unfolding runs_in_data_order_def direct_graph_def
    by (intro allI exI [of _ direct_steps] exI [of _ "- 1"]) simp
qed

definition offer_entries :: "(string \<times> string) list" where
  "offer_entries = [(''311111111'', ''1''), (''311111111'', ''2''), (''4444444'', ''3'')]"

definition offer_castI :: "string \<Rightarrow> 64 word cast_result" where
  "offer_castI t = (if t = ''311111111'' then Cast 311111111 else if t = ''4444444'' then Cast 4444444 else Bad_lexical_cast)"

definition offer_value :: "string \<Rightarrow> double" where
  "offer_value t = Some \<lparr>mant = (if t = ''311111111'' then 311111111 else if t = ''4444444'' then 4444444
     else if t = ''1'' then 1 else if t = ''2'' then 2 else 3), expo = 0\<rparr>"

definition offer_key :: "string \<Rightarrow> 64 word" where
  "offer_key t = (if t = ''311111111'' then 311111111 else 4444444)"

definition offer_schedule :: "nat \<Rightarrow> schedule" where
  "offer_schedule n = \<lparr>start_ret = 0, ret_write = After_store, load_files = (\<lambda>_. Regular 0 (dict_text offer_entries)), load_skew = 0\<rparr>"

lemma offer_entries_good: "\<forall>e \<in> set offer_entries. good_entry offer_castI (Cast \<circ> offer_value) offer_key offer_value e"
  by (simp add: offer_entries_def good_entry_def plain_token_def offer_castI_def offer_value_def offer_key_def int64_of_double_def fl_trunc_def)

theorem service_answers_client_witness:
  "\<exists>E'. GlobalInitializer_init (run (object_class offer_castI (Cast \<circ> offer_value) (\<lambda>f. Offer (OfferBidRatio_new f))) True offer_schedule True True
        (registered_dicts offer_castI (Cast \<circ> offer_value))) bound_lib stack_pool 0 (Some GraphEngine_new) =
      Inr (0, [Some \<lparr>mant = 1, expo = 0\<rparr>, Some \<lparr>mant = 2, expo = 0\<rparr>, Some \<lparr>mant = 3, expo = 0\<rparr>], Some E') \<and>
    client_main 0 (direct_channel (SayHello stack_pool direct_graph (Some E'))) =
      (0, Some (0, ''success'', ''66503a39b2c54d0007e800dx'', ''ext_algo''))"
proof -
  have G: "graphs (GraphEngine_new :: (nat list \<times> nat, nat) GraphEngine) ''main_graph'' = None" by (simp add: GraphEngine_new_def)
  have s: "\<forall>n. start_ret (offer_schedule n) = 0"
    "\<forall>n. \<exists>t. load_files (offer_schedule n) offer_bid_ratio_path = Regular t (dict_text offer_entries)"
    by (auto simp: offer_schedule_def)
  have c: "delivers (direct_channel h) h" for h :: "RsRequest option \<Rightarrow> RsResponse option \<Rightarrow> bool \<Rightarrow>
      (rpc_result \<times> (nat list \<times> nat, nat) GraphEngine) cxx"
    by (simp add: delivers_def direct_channel_def)
  have f: "find_data direct_graph g ''request''" "find_data direct_graph g ''rs_response''" for g
    by (simp_all add: direct_graph_def)
  have v: "start_values (loaded_dicts offer_key offer_value offer_entries) =
      [Some \<lparr>mant = 1, expo = 0\<rparr>, Some \<lparr>mant = 2, expo = 0\<rparr>, Some \<lparr>mant = 3, expo = 0\<rparr>]"
    by (simp add: start_values_def loaded_dicts_def OfferBidRatio_get_key_def CommonFileDict_get_key_def offer_entries_def
        offer_key_def offer_value_def)
  from service_answers_client [OF offer_entries_good s bound_lib_config bound_vertices_bind G direct_graph_in_order f c,
      of "\<lambda>f. Offer (OfferBidRatio_new f)" True stack_pool 0]
  show ?thesis unfolding v by blast
qed

end
