(* ===== verification/Server_Signals.thy ===== *)
theory Server_Signals
  imports Prelude
begin

text \<open>
  What \<open>main\<close> of \<open>brpc/brpc_server.cpp\<close> sets up before it initialises the service: the command-line options and the
  handler that leaves a line in the stack-trace file when the process dies of a signal.
\<close>

datatype disposition = SIG_DFL | Core_signal_handler

record os_process =
  dispositions :: "nat \<Rightarrow> disposition"
  options_set :: "(string \<times> string) list"
  stack_trace :: string
  killed_by :: "nat option"

definition os_process_start :: os_process where
  "os_process_start = \<lparr>dispositions = (\<lambda>_. SIG_DFL), options_set = [], stack_trace = [], killed_by = None\<rparr>"

abbreviation SIGILL :: nat where "SIGILL \<equiv> 4"
abbreviation SIGABRT :: nat where "SIGABRT \<equiv> 6"
abbreviation SIGBUS :: nat where "SIGBUS \<equiv> 7"
abbreviation SIGFPE :: nat where "SIGFPE \<equiv> 8"
abbreviation SIGSEGV :: nat where "SIGSEGV \<equiv> 11"

definition signal :: "nat \<Rightarrow> disposition \<Rightarrow> os_process \<Rightarrow> os_process" where
  "signal signum h p = p\<lparr>dispositions := (dispositions p)(signum := h)\<rparr>"

text \<open>The handler up to its last statement, which raises the signal again: the file is opened for appending.\<close>

definition newline :: char where
  "newline = CHR 0x0A"

definition termination_message :: "nat \<Rightarrow> string" where
  "termination_message signum = newline # ''Program terminated with signal '' @ decimal signum @ [newline]"

definition server_core_signal_handler :: "nat \<Rightarrow> os_process \<Rightarrow> os_process" where
  "server_core_signal_handler signum p =
     signal signum SIG_DFL (p\<lparr>stack_trace := stack_trace p @ termination_message signum\<rparr>)"

text \<open>Delivering a signal; the default action of the signals the program handles is to end the process. The handler ends
  with \<open>raise\<close>, and the recursion ends because it has given the signal back first.\<close>

function deliver :: "nat \<Rightarrow> os_process \<Rightarrow> os_process" where
  "deliver signum p =
     (case dispositions p signum of
        SIG_DFL \<Rightarrow> p\<lparr>killed_by := Some signum\<rparr>
      | Core_signal_handler \<Rightarrow> deliver signum (server_core_signal_handler signum p))"
  by pat_completeness auto
termination
  by (relation "measure (\<lambda>(signum, p). if dispositions p signum = SIG_DFL then 0 else 1)")
    (auto simp: server_core_signal_handler_def signal_def)

declare deliver.simps [simp del]

definition install_single_handler :: "os_process \<Rightarrow> os_process" where
  "install_single_handler =
     signal SIGBUS Core_signal_handler \<circ> signal SIGFPE Core_signal_handler \<circ> signal SIGABRT Core_signal_handler \<circ>
     signal SIGILL Core_signal_handler \<circ> signal SIGSEGV Core_signal_handler"

definition SetCommandLineOption :: "string \<Rightarrow> string \<Rightarrow> os_process \<Rightarrow> os_process" where
  "SetCommandLineOption key val p = p\<lparr>options_set := options_set p @ [(key, val)]\<rparr>"

text \<open>\<open>flags\<close> are the options that \<open>ParseCommandLineFlags\<close> reads from the arguments.\<close>

definition server_setup :: "(string \<times> string) list \<Rightarrow> os_process \<Rightarrow> os_process" where
  "server_setup flags p =
     install_single_handler
       (SetCommandLineOption ''bvar_max_dump_multi_dimension_metric_number'' ''65535''
         (SetCommandLineOption ''flagfile'' ''./conf/gflags.conf'' (p\<lparr>options_set := options_set p @ flags\<rparr>)))"

subsection \<open>A signal is logged once and ends the process\<close>

abbreviation core_signals :: "nat set" where
  "core_signals \<equiv> {SIGSEGV, SIGILL, SIGABRT, SIGFPE, SIGBUS}"

lemma install_dispositions:
  "dispositions (install_single_handler p) signum = (if signum \<in> core_signals then Core_signal_handler else dispositions p signum)"
  by (simp add: install_single_handler_def signal_def)

lemma deliver_default: "dispositions p signum = SIG_DFL \<Longrightarrow> deliver signum p = p\<lparr>killed_by := Some signum\<rparr>"
  by (subst deliver.simps) simp

lemma deliver_handled:
  "dispositions p signum = Core_signal_handler \<Longrightarrow>
   deliver signum p = (server_core_signal_handler signum p)\<lparr>killed_by := Some signum\<rparr>"
  by (subst deliver.simps) (simp add: deliver_default server_core_signal_handler_def signal_def)

lemma server_signal:
  "stack_trace (deliver signum (server_setup flags os_process_start)) =
     (if signum \<in> core_signals then termination_message signum else []) \<and>
   killed_by (deliver signum (server_setup flags os_process_start)) = Some signum"
proof -
  let ?p = "server_setup flags os_process_start"
  have d: "dispositions ?p signum = (if signum \<in> core_signals then Core_signal_handler else SIG_DFL)"
    by (simp add: server_setup_def install_dispositions SetCommandLineOption_def os_process_start_def)
  have t: "stack_trace ?p = []"
    by (simp add: server_setup_def install_single_handler_def signal_def SetCommandLineOption_def os_process_start_def)
  show ?thesis
  proof (cases "signum \<in> core_signals")
    case True
    then show ?thesis using d t by (simp add: deliver_handled server_core_signal_handler_def signal_def)
  next
    case False
    then show ?thesis using d t by (simp add: deliver_default)
  qed
qed

text \<open>The two options are set after the ones of the command line, so they win.\<close>

lemma server_options:
  "map_of (rev (options_set (server_setup flags os_process_start))) ''flagfile'' = Some ''./conf/gflags.conf''"
  by (simp add: server_setup_def install_single_handler_def signal_def SetCommandLineOption_def os_process_start_def)

end
