(* ===== verification/Bthread_Executor.thy ===== *)
theory Bthread_Executor
  imports Prelude "HOL-Library.Multiset"
begin

text \<open>
  \<open>BthreadGraphExecutor\<close> and \<open>ButexInterface\<close> (\<open>example/brpc/plugins/framework\<close>): a vertex or a closure is
  packed into a heap-allocated tuple and handed to a new bthread, which unpacks it, runs it and deletes the
  tuple. The heap of tuples, the threads that hold one, the function each was started with and the runs that took place are the
  state; the result of \<open>bthread_start_background\<close> is an argument.
\<close>

subsection \<open>State\<close>

text \<open>What a tuple holds: a vertex with the closure moved into it, or a closure context with its
  callback.\<close>

datatype ('v, 'c) task = Vertex_task 'v 'c | Closure_task 'v 'c

text \<open>The functions passed to \<open>bthread_start_background\<close>; a thread is named by the tuple it got as argument.\<close>

datatype thread_fun = Invoke_vertex | Invoke_closure

record ('v, 'c) executor =
  params :: "nat \<Rightarrow> ('v, 'c) task option"
  next_param :: nat
  threads :: "nat list"
  entry :: "nat \<Rightarrow> thread_fun option"
  ran :: "('v, 'c) task list"

definition executor_instance :: "('v, 'c) executor" where
  "executor_instance = \<lparr>params = Map.empty, next_param = 0, threads = [], entry = Map.empty, ran = []\<rparr>"

subsection \<open>Operations\<close>

definition new_param :: "('v, 'c) task \<Rightarrow> ('v, 'c) executor \<Rightarrow> nat \<times> ('v, 'c) executor" where
  "new_param t s = (next_param s, s\<lparr>params := (params s)(next_param s \<mapsto> t), next_param := Suc (next_param s)\<rparr>)"

definition delete_param :: "nat \<Rightarrow> ('v, 'c) executor \<Rightarrow> ('v, 'c) executor" where
  "delete_param p s = s\<lparr>params := (params s)(p := None)\<rparr>"

definition started :: "thread_fun \<Rightarrow> nat \<Rightarrow> ('v, 'c) executor \<Rightarrow> ('v, 'c) executor" where
  "started f param s = s\<lparr>threads := threads s @ [param], entry := (entry s)(param \<mapsto> f)\<rparr>"

text \<open>\<open>run(vertex, closure)\<close>: the result code, what the caller's closure holds afterwards (\<open>None\<close> is
  moved from), and the state.\<close>

definition run_vertex ::
  "int \<Rightarrow> 'v \<Rightarrow> 'c \<Rightarrow> ('v, 'c) executor \<Rightarrow> int \<times> 'c option \<times> ('v, 'c) executor" where
  "run_vertex start_ret v c s =
     (case new_param (Vertex_task v c) s of (param, s1) \<Rightarrow>
        if start_ret \<noteq> 0 then (- 1, Some c, delete_param param s1)
        else (0, None, started Invoke_vertex param s1))"

definition run_closure :: "int \<Rightarrow> 'v \<Rightarrow> 'c \<Rightarrow> ('v, 'c) executor \<Rightarrow> int \<times> ('v, 'c) executor" where
  "run_closure start_ret ctx cb s =
     (case new_param (Closure_task ctx cb) s of (param, s1) \<Rightarrow>
        if start_ret \<noteq> 0 then (- 1, delete_param param s1)
        else (0, started Invoke_closure param s1))"

text \<open>The bodies of the two thread functions.\<close>

definition execute_invoke_vertex :: "nat \<Rightarrow> ('v, 'c) executor \<Rightarrow> ('v, 'c) executor cxx" where
  "execute_invoke_vertex p s =
     (case params s p of
        Some (Vertex_task v c) \<Rightarrow> Inr (delete_param p (s\<lparr>ran := ran s @ [Vertex_task v c]\<rparr>))
      | _ \<Rightarrow> Inl Invalid_access)"

definition execute_invoke_closure :: "nat \<Rightarrow> ('v, 'c) executor \<Rightarrow> ('v, 'c) executor cxx" where
  "execute_invoke_closure p s =
     (case params s p of
        Some (Closure_task v c) \<Rightarrow> Inr (delete_param p (s\<lparr>ran := ran s @ [Closure_task v c]\<rparr>))
      | _ \<Rightarrow> Inl Invalid_access)"

text \<open>A thread runs the function it was started with.\<close>

definition thread_body :: "nat \<Rightarrow> ('v, 'c) executor \<Rightarrow> ('v, 'c) executor cxx" where
  "thread_body p s =
     (case entry s p of
        Some Invoke_vertex \<Rightarrow> execute_invoke_vertex p s
      | Some Invoke_closure \<Rightarrow> execute_invoke_closure p s
      | None \<Rightarrow> Inl Invalid_access)"

subsection \<open>Executions\<close>

text \<open>
  Any interleaving of submissions and of threads that finish. The second component collects the
  tasks the executor has accepted (result 0).
\<close>

inductive exec_step ::
  "('v, 'c) executor \<times> ('v, 'c) task list \<Rightarrow> ('v, 'c) executor \<times> ('v, 'c) task list \<Rightarrow> bool" where
  accept_vertex: "run_vertex r v c s = (0, c', s') \<Longrightarrow> exec_step (s, acc) (s', acc @ [Vertex_task v c])"
| refuse_vertex: "run_vertex r v c s = (ret, c', s') \<Longrightarrow> ret \<noteq> 0 \<Longrightarrow> exec_step (s, acc) (s', acc)"
| accept_closure: "run_closure r v c s = (0, s') \<Longrightarrow> exec_step (s, acc) (s', acc @ [Closure_task v c])"
| refuse_closure: "run_closure r v c s = (ret, s') \<Longrightarrow> ret \<noteq> 0 \<Longrightarrow> exec_step (s, acc) (s', acc)"
| finish: "p \<in> set (threads s) \<Longrightarrow> thread_body p s = Inr s' \<Longrightarrow>
    exec_step (s, acc) (s'\<lparr>threads := remove1 p (threads s')\<rparr>, acc)"

inductive exec_reach :: "('v, 'c) executor \<times> ('v, 'c) task list \<Rightarrow> bool" where
  start: "exec_reach (executor_instance, [])"
| step: "exec_reach x \<Longrightarrow> exec_step x y \<Longrightarrow> exec_reach y"

subsection \<open>Invariant\<close>

definition held :: "(nat \<Rightarrow> ('v, 'c) task option) \<Rightarrow> nat list \<Rightarrow> ('v, 'c) task list" where
  "held m ts = map (\<lambda>p. the (m p)) ts"

text \<open>The function that fits a tuple.\<close>

primrec task_fun :: "('v, 'c) task \<Rightarrow> thread_fun" where
  "task_fun (Vertex_task v c) = Invoke_vertex"
| "task_fun (Closure_task v c) = Invoke_closure"

definition exec_inv :: "('v, 'c) executor \<Rightarrow> ('v, 'c) task list \<Rightarrow> bool" where
  "exec_inv s acc \<longleftrightarrow> distinct (threads s) \<and> dom (params s) = set (threads s) \<and>
     (\<forall>p \<in> set (threads s). p < next_param s \<and> entry s p = map_option task_fun (params s p)) \<and> mset acc = mset (ran s) + mset (held (params s) (threads s))"

lemma held_simps [simp]:
  "held m [] = []" "held m (p # ts) = the (m p) # held m ts" "held m (ts @ us) = held m ts @ held m us"
  by (simp_all add: held_def)

lemma held_upd [simp]: "p \<notin> set ts \<Longrightarrow> held (m(p := x)) ts = held m ts"
  by (induction ts) (auto simp: held_def)

lemma exec_inv_fresh: "exec_inv s acc \<Longrightarrow> params s (next_param s) = None"
  by (metis domIff exec_inv_def less_irrefl)

lemma exec_inv_accept:
  assumes "exec_inv s acc"
  shows "exec_inv (s\<lparr>params := (params s)(next_param s \<mapsto> t), next_param := Suc (next_param s),
    threads := threads s @ [next_param s], entry := (entry s)(next_param s \<mapsto> task_fun t)\<rparr>) (acc @ [t])"
proof -
  have n: "next_param s \<notin> set (threads s)" using assms by (auto simp: exec_inv_def)
  then show ?thesis using assms unfolding exec_inv_def by (auto simp: less_Suc_eq)
qed

lemma exec_inv_refuse:
  assumes "exec_inv s acc"
  shows "exec_inv (s\<lparr>next_param := Suc (next_param s), params := (params s)(next_param s := None)\<rparr>) acc"
proof -
  have "(params s)(next_param s := None) = params s" using exec_inv_fresh [OF assms] by auto
  then show ?thesis using assms unfolding exec_inv_def by (simp add: less_Suc_eq)
qed

lemma exec_inv_finish:
  assumes "exec_inv s acc" "p \<in> set (threads s)" "params s p = Some t"
  shows "exec_inv (s\<lparr>ran := ran s @ [t], params := (params s)(p := None), threads := remove1 p (threads s)\<rparr>) acc"
proof -
  have d: "distinct (threads s)" using assms(1) by (simp add: exec_inv_def)
  obtain xs ys where ts: "threads s = xs @ p # ys" and x: "p \<notin> set xs" using split_list_first [OF assms(2)] by blast
  have y: "p \<notin> set ys" using d ts by simp
  have r: "remove1 p (threads s) = xs @ ys" using x by (simp add: ts remove1_append)
  show ?thesis using assms(1,3) x y unfolding exec_inv_def r by (auto simp: ts)
qed

lemma thread_body_task:
  "thread_body p s = Inr s' \<Longrightarrow> \<exists>t. params s p = Some t \<and> s' = s\<lparr>ran := ran s @ [t], params := (params s)(p := None)\<rparr>"
  by (auto simp: thread_body_def execute_invoke_vertex_def execute_invoke_closure_def delete_param_def
      split: option.splits task.splits thread_fun.splits)

lemmas run_defs = run_vertex_def run_closure_def new_param_def delete_param_def started_def

lemma exec_step_inv:
  assumes "exec_step x y" "exec_inv (fst x) (snd x)"
  shows "exec_inv (fst y) (snd y)"
  using assms
proof (induction rule: exec_step.induct)
  case (finish p s s' acc)
  obtain t where t: "params s p = Some t" "s' = s\<lparr>ran := ran s @ [t], params := (params s)(p := None)\<rparr>"
    using thread_body_task [OF finish.hyps(2)] by blast
  then show ?case using exec_inv_finish [OF _ finish.hyps(1) t(1)] finish.prems by simp
qed (auto simp: run_defs split: if_splits dest: exec_inv_accept [where t = "Vertex_task _ _"]
    exec_inv_accept [where t = "Closure_task _ _"] exec_inv_refuse)

lemma exec_reach_inv: "exec_reach x \<Longrightarrow> exec_inv (fst x) (snd x)"
proof (induction rule: exec_reach.induct)
  case start
  show ?case by (simp add: exec_inv_def executor_instance_def)
next
  case (step x y)
  then show ?case by (blast intro: exec_step_inv)
qed

subsection \<open>Properties\<close>

text \<open>
  C21: in every interleaving each accepted task has either been run once or is held by exactly
  one thread that has not finished; every allocated tuple belongs to such a thread, whose body is able to
  run, so no tuple is leaked, run twice or freed twice.
\<close>

theorem executor_conserves_tasks:
  assumes "exec_reach (s, acc)"
  shows "mset acc = mset (ran s) + mset (held (params s) (threads s)) \<and> distinct (threads s) \<and>
    dom (params s) = set (threads s) \<and> list_all (\<lambda>p. \<exists>s'. thread_body p s = Inr s') (threads s)"
proof -
  have i: "exec_inv s acc" using exec_reach_inv [OF assms] by simp
  have "\<exists>s'. thread_body p s = Inr s'" if "p \<in> set (threads s)" for p
  proof -
    have "p \<in> dom (params s)" using i that by (simp add: exec_inv_def)
    then obtain t where "params s p = Some t" by blast
    moreover from this have "entry s p = Some (task_fun t)" using i that by (simp add: exec_inv_def)
    ultimately show ?thesis
      by (cases t) (auto simp: thread_body_def execute_invoke_vertex_def execute_invoke_closure_def)
  qed
  then have "list_all (\<lambda>p. \<exists>s'. thread_body p s = Inr s') (threads s)" by (simp add: list_all_iff)
  then show ?thesis using i by (simp add: exec_inv_def)
qed

theorem executor_conserves_tasks_witness:
  "mset [Vertex_task (1::nat) (2::nat)] =
     mset [] + mset (held [0 \<mapsto> Vertex_task 1 2] [0])"
proof -
  let ?s = "\<lparr>params = [0 \<mapsto> Vertex_task (1::nat) (2::nat)], next_param = 1, threads = [0], entry = [0 \<mapsto> Invoke_vertex], ran = []\<rparr>"
  have "exec_step (executor_instance, []) (?s, [] @ [Vertex_task 1 2])"
    by (rule exec_step.accept_vertex [where r = 0 and c' = None]) (simp add: run_defs executor_instance_def)
  then have "exec_reach (?s, [Vertex_task 1 2])" using exec_reach.step [OF exec_reach.start] by simp
  from executor_conserves_tasks [OF this] show ?thesis by simp
qed

text \<open>
  When the bthread cannot be started the executor reports it, the caller has the closure back, and
  nothing else has changed but the address the next tuple gets.
\<close>

theorem failed_start_returns_closure:
  assumes "exec_reach (s, acc)" and "r \<noteq> 0"
  shows "run_vertex r v c s = (- 1, Some c, s\<lparr>next_param := Suc (next_param s)\<rparr>)"
proof -
  have "params s (next_param s) = None" using exec_reach_inv [OF assms(1)] by (auto dest: exec_inv_fresh)
  then have "(params s)(next_param s := None) = params s" by auto
  then show ?thesis using assms(2) by (simp add: run_defs)
qed

theorem failed_start_returns_closure_witness:
  "run_vertex 11 (1::nat) (2::nat) executor_instance = (- 1, Some 2, executor_instance\<lparr>next_param := 1\<rparr>)"
  using failed_start_returns_closure [OF exec_reach.start, of 11 "1::nat" "2::nat"]
  by (simp add: executor_instance_def)

subsection \<open>ButexInterface\<close>

text \<open>The functions of \<open>bthread\<close> the interface forwards to.\<close>

record ('b, 'w) butex_lib =
  butex_create :: "'w \<Rightarrow> 'b \<times> 'w"
  butex_destroy :: "'b \<Rightarrow> 'w \<Rightarrow> 'w"
  butex_wait :: "'b \<Rightarrow> 32 word \<Rightarrow> int option \<Rightarrow> 'w \<Rightarrow> int \<times> 'w"
  butex_wake :: "'b \<Rightarrow> 'w \<Rightarrow> int \<times> 'w"
  butex_wake_all :: "'b \<Rightarrow> 'w \<Rightarrow> int \<times> 'w"

definition futex_need_create :: bool where
  "futex_need_create = True"

definition create_futex :: "('b, 'w) butex_lib \<Rightarrow> 'w \<Rightarrow> 'b \<times> 'w" where
  "create_futex B w = butex_create B w"

definition destroy_futex :: "('b, 'w) butex_lib \<Rightarrow> 'b \<Rightarrow> 'w \<Rightarrow> 'w" where
  "destroy_futex B f w = butex_destroy B f w"

text \<open>A relative timeout (in nanoseconds) becomes an absolute time.\<close>

definition futex_wait :: "('b, 'w) butex_lib \<Rightarrow> int \<Rightarrow> 'b \<Rightarrow> 32 word \<Rightarrow> int option \<Rightarrow> 'w \<Rightarrow> int \<times> 'w" where
  "futex_wait B now f val timeout w =
     (case timeout of None \<Rightarrow> butex_wait B f val None w | Some t \<Rightarrow> butex_wait B f val (Some (now + t)) w)"

definition futex_wake_one :: "('b, 'w) butex_lib \<Rightarrow> 'b \<Rightarrow> 'w \<Rightarrow> int \<times> 'w" where
  "futex_wake_one B f w = butex_wake B f w"

definition futex_wake_all :: "('b, 'w) butex_lib \<Rightarrow> 'b \<Rightarrow> 'w \<Rightarrow> int \<times> 'w" where
  "futex_wake_all B f w = butex_wake_all B f w"

end
