(* ===== verification/Bounded_Queue.thy ===== *)
theory Bounded_Queue
  imports Prelude
begin

text \<open>
  The program \<open>example/babylon/concurrent/bounded_queue_main.cpp\<close>: main reserves room for 1000 strings, starts a consumer
  whose pops are commented out and a producer that pushes 2000 strings, pushes one string, pops one and joins
  both. The bounded queue is Babylon's and an argument: a push waits while the queue is full, a pop while it is empty. So are the
  results of the two calls of \<open>bthread_start_background\<close>; joining a thread that could not be started returns at once.
\<close>

subsection \<open>The program\<close>

text \<open>\<open>None\<close> is a call that waits.\<close>

record 'q queue_lib =
  q_reserve :: "nat \<Rightarrow> 'q \<Rightarrow> 'q"
  q_capacity :: "'q \<Rightarrow> nat"
  q_push :: "string \<Rightarrow> 'q \<Rightarrow> 'q option"
  q_pop :: "'q \<Rightarrow> (string \<times> 'q) option"

datatype main_pc = Reserve | Start_consumer | Start_producer | Push_10086 | Pop_result | Join_consumer | Join_producer | Finished

text \<open>\<open>producer_on\<close> and \<open>consumer_on\<close>: whether the thread has been started.\<close>

record 'q queue_program =
  queue_state :: 'q
  producer_on :: bool
  put_next :: nat
  consumer_on :: bool
  get_next :: nat
  main_at :: main_pc
  printed_capacity :: "nat option"
  printed :: "string option"

definition program_start :: "'q \<Rightarrow> 'q queue_program" where
  "program_start q = \<lparr>queue_state = q, producer_on = False, put_next = 0, consumer_on = False, get_next = 0, main_at = Reserve,
     printed_capacity = None, printed = None\<rparr>"

definition put_string :: "nat \<Rightarrow> string" where
  "put_string i = ''data:'' @ decimal i"

text \<open>One iteration of each thread, and one call of main; \<open>ret2\<close> and \<open>ret1\<close> are the results of starting the consumer and the
  producer, which main does not look at.\<close>

definition put_data_by_thread :: "'q queue_lib \<Rightarrow> 'q queue_program \<Rightarrow> 'q queue_program option" where
  "put_data_by_thread L s =
     (if producer_on s \<and> put_next s < 2000
      then case q_push L (put_string (put_next s)) (queue_state s) of
             None \<Rightarrow> None
           | Some q \<Rightarrow> Some (s\<lparr>queue_state := q, put_next := put_next s + 1\<rparr>)
      else None)"

definition get_data_by_thread :: "'q queue_program \<Rightarrow> 'q queue_program option" where
  "get_data_by_thread s = (if consumer_on s \<and> get_next s < 2000 then Some (s\<lparr>get_next := get_next s + 1\<rparr>) else None)"

definition queue_main :: "'q queue_lib \<Rightarrow> int \<Rightarrow> int \<Rightarrow> 'q queue_program \<Rightarrow> 'q queue_program option" where
  "queue_main L ret2 ret1 s =
     (case main_at s of
        Reserve \<Rightarrow> (let q = q_reserve L 1000 (queue_state s)
          in Some (s\<lparr>queue_state := q, main_at := Start_consumer, printed_capacity := Some (q_capacity L q)\<rparr>))
      | Start_consumer \<Rightarrow> Some (s\<lparr>consumer_on := (ret2 = 0), main_at := Start_producer\<rparr>)
      | Start_producer \<Rightarrow> Some (s\<lparr>producer_on := (ret1 = 0), main_at := Push_10086\<rparr>)
      | Push_10086 \<Rightarrow> (case q_push L ''10086'' (queue_state s) of
            None \<Rightarrow> None | Some q \<Rightarrow> Some (s\<lparr>queue_state := q, main_at := Pop_result\<rparr>))
      | Pop_result \<Rightarrow> (case q_pop L (queue_state s) of
            None \<Rightarrow> None | Some (x, q) \<Rightarrow> Some (s\<lparr>queue_state := q, main_at := Join_consumer, printed := Some x\<rparr>))
      | Join_consumer \<Rightarrow> if consumer_on s \<and> get_next s < 2000 then None else Some (s\<lparr>main_at := Join_producer\<rparr>)
      | Join_producer \<Rightarrow> if producer_on s \<and> put_next s < 2000 then None else Some (s\<lparr>main_at := Finished\<rparr>)
      | Finished \<Rightarrow> None)"

inductive queue_step :: "'q queue_lib \<Rightarrow> int \<Rightarrow> int \<Rightarrow> 'q queue_program \<Rightarrow> 'q queue_program \<Rightarrow> bool" for L ret2 ret1 where
  producer: "put_data_by_thread L s = Some s' \<Longrightarrow> queue_step L ret2 ret1 s s'"
| consumer: "get_data_by_thread s = Some s' \<Longrightarrow> queue_step L ret2 ret1 s s'"
| main: "queue_main L ret2 ret1 s = Some s' \<Longrightarrow> queue_step L ret2 ret1 s s'"

inductive_cases queue_stepE: "queue_step L ret2 ret1 s s'"

text \<open>What the program relies on: a FIFO queue with the contents \<open>cont\<close>; reserving clears it and makes room for at least as many
  elements as asked for, and only reserving changes the capacity.\<close>

definition bounded_fifo :: "'q queue_lib \<Rightarrow> ('q \<Rightarrow> string list) \<Rightarrow> bool" where
  "bounded_fifo L cont \<longleftrightarrow>
     (\<forall>n q. cont (q_reserve L n q) = [] \<and> n \<le> q_capacity L (q_reserve L n q)) \<and>
     (\<forall>x q. q_push L x q = None \<longrightarrow> q_capacity L q \<le> length (cont q)) \<and>
     (\<forall>x q q'. q_push L x q = Some q' \<longrightarrow> length (cont q) < q_capacity L q \<and> cont q' = cont q @ [x] \<and> q_capacity L q' = q_capacity L q) \<and>
     (\<forall>q. q_pop L q = None \<longrightarrow> cont q = []) \<and>
     (\<forall>q x q'. q_pop L q = Some (x, q') \<longrightarrow> cont q = x # cont q' \<and> q_capacity L q' = q_capacity L q)"

lemma fifo:
  assumes "bounded_fifo L cont"
  shows "cont (q_reserve L n q) = []" "n \<le> q_capacity L (q_reserve L n q)"
    and "q_push L x q = None \<Longrightarrow> q_capacity L q \<le> length (cont q)"
    and "q_push L x q = Some q' \<Longrightarrow> length (cont q) < q_capacity L q \<and> cont q' = cont q @ [x] \<and> q_capacity L q' = q_capacity L q"
    and "q_pop L q = None \<Longrightarrow> cont q = []"
    and "q_pop L q = Some (x, q') \<Longrightarrow> cont q = x # cont q' \<and> q_capacity L q' = q_capacity L q"
  using assms by (simp_all add: bounded_fifo_def)

lemma push_room:
  assumes "bounded_fifo L cont" "length (cont q) < q_capacity L q"
  obtains q' where "q_push L x q = Some q'" "cont q' = cont q @ [x]" "q_capacity L q' = q_capacity L q"
proof (cases "q_push L x q")
  case None
  then show ?thesis using fifo(3) [OF assms(1) None] assms(2) by simp
next
  case (Some q')
  then show ?thesis using fifo(4) [OF assms(1) Some] that by blast
qed

lemma pop_some:
  assumes "bounded_fifo L cont" "cont q = x # xs"
  obtains q' where "q_pop L q = Some (x, q')" "cont q' = xs" "q_capacity L q' = q_capacity L q"
proof (cases "q_pop L q")
  case None
  then show ?thesis using fifo(5) [OF assms(1) None] assms(2) by simp
next
  case (Some r)
  then obtain y q' where r: "q_pop L q = Some (y, q')" by (cases r) simp
  then show ?thesis using fifo(6) [OF assms(1) r] assms(2) that by simp
qed

subsection \<open>Invariant\<close>

text \<open>What is in the queue: the data pushed so far and possibly the main thread's string, less what main has popped.\<close>

definition data_until :: "nat \<Rightarrow> string list" where
  "data_until n = map put_string [0..<n]"

definition main_string_in :: "string list \<Rightarrow> bool" where
  "main_string_in c \<longleftrightarrow> (\<exists>i xs. c = data_until i @ ''10086'' # xs)"

primrec main_items :: "main_pc \<Rightarrow> nat" where
  "main_items Reserve = 0"
| "main_items Start_consumer = 0"
| "main_items Start_producer = 0"
| "main_items Push_10086 = 0"
| "main_items Pop_result = 1"
| "main_items Join_consumer = 0"
| "main_items Join_producer = 0"
| "main_items Finished = 0"

text \<open>Where main is when it has started the threads, and when it has printed.\<close>

primrec consumer_begun :: "main_pc \<Rightarrow> bool" where
  "consumer_begun Reserve = False"
| "consumer_begun Start_consumer = False"
| "consumer_begun Start_producer = True"
| "consumer_begun Push_10086 = True"
| "consumer_begun Pop_result = True"
| "consumer_begun Join_consumer = True"
| "consumer_begun Join_producer = True"
| "consumer_begun Finished = True"

primrec producer_begun :: "main_pc \<Rightarrow> bool" where
  "producer_begun Reserve = False"
| "producer_begun Start_consumer = False"
| "producer_begun Start_producer = False"
| "producer_begun Push_10086 = True"
| "producer_begun Pop_result = True"
| "producer_begun Join_consumer = True"
| "producer_begun Join_producer = True"
| "producer_begun Finished = True"

primrec has_printed :: "main_pc \<Rightarrow> bool" where
  "has_printed Reserve = False"
| "has_printed Start_consumer = False"
| "has_printed Start_producer = False"
| "has_printed Push_10086 = False"
| "has_printed Pop_result = False"
| "has_printed Join_consumer = True"
| "has_printed Join_producer = True"
| "has_printed Finished = True"

definition counts_ok :: "int \<Rightarrow> int \<Rightarrow> 'q queue_program \<Rightarrow> bool" where
  "counts_ok ret2 ret1 s \<longleftrightarrow> put_next s \<le> 2000 \<and> get_next s \<le> 2000 \<and>
     producer_on s = (ret1 = 0 \<and> producer_begun (main_at s)) \<and> consumer_on s = (ret2 = 0 \<and> consumer_begun (main_at s)) \<and>
     (\<not> producer_on s \<longrightarrow> put_next s = 0) \<and> (main_at s = Finished \<longrightarrow> producer_on s \<longrightarrow> put_next s = 2000)"

definition contents_ok :: "'q queue_lib \<Rightarrow> ('q \<Rightarrow> string list) \<Rightarrow> nat \<Rightarrow> 'q queue_program \<Rightarrow> bool" where
  "contents_ok L cont cap s \<longleftrightarrow>
     (if main_at s = Reserve then q_capacity L (q_reserve L 1000 (queue_state s)) = cap
      else q_capacity L (queue_state s) = cap \<and> 1000 \<le> cap \<and> length (cont (queue_state s)) = put_next s + main_items (main_at s) \<and>
        length (cont (queue_state s)) \<le> cap \<and>
        (\<not> has_printed (main_at s) \<longrightarrow>
          (if main_at s = Pop_result then main_string_in (cont (queue_state s)) else cont (queue_state s) = data_until (put_next s))))"

definition printed_ok :: "int \<Rightarrow> 'q queue_program \<Rightarrow> bool" where
  "printed_ok ret1 s \<longleftrightarrow>
     has_printed (main_at s) = (printed s \<noteq> None) \<and>
     (printed s = None \<or> printed s = Some ''10086'' \<or> printed s = Some ''data:0'' \<and> ret1 = 0)"

definition queue_inv :: "'q queue_lib \<Rightarrow> ('q \<Rightarrow> string list) \<Rightarrow> int \<Rightarrow> int \<Rightarrow> nat \<Rightarrow> 'q queue_program \<Rightarrow> bool" where
  "queue_inv L cont ret2 ret1 cap s \<longleftrightarrow> counts_ok ret2 ret1 s \<and> contents_ok L cont cap s \<and> printed_ok ret1 s"

lemmas inv_defs = queue_inv_def counts_ok_def contents_ok_def printed_ok_def

lemma data_until_simps [simp]:
  "data_until 0 = []" "data_until (Suc n) = data_until n @ [put_string n]" "length (data_until n) = n"
  by (simp_all add: data_until_def)

lemma main_string_in_simps [simp]:
  "main_string_in (data_until i @ [''10086''])" "main_string_in c \<Longrightarrow> main_string_in (c @ [x])"
  unfolding main_string_in_def by (blast, metis append_Cons append_assoc)

lemma put_string_0: "put_string 0 = ''data:0''"
  by code_simp

lemma main_string_in_first:
  assumes "main_string_in (x # c)"
  shows "x = ''10086'' \<or> x = ''data:0'' \<and> c \<noteq> []"
proof -
  obtain i xs where c: "x # c = data_until i @ ''10086'' # xs" using assms by (auto simp: main_string_in_def)
  have "data_until (Suc k) = put_string 0 # map put_string [1..<Suc k]" for k
    by (simp add: data_until_def upt_conv_Cons del: upt_Suc)
  then show ?thesis using c put_string_0 by (cases i) (auto simp del: data_until_simps(2))
qed

lemma producer_inv:
  assumes L: "bounded_fifo L cont" and inv: "queue_inv L cont ret2 ret1 cap s" and step: "put_data_by_thread L s = Some s'"
  shows "queue_inv L cont ret2 ret1 cap s'"
proof -
  obtain q where q: "producer_on s" "put_next s < 2000" "q_push L (put_string (put_next s)) (queue_state s) = Some q"
    "s' = s\<lparr>queue_state := q, put_next := put_next s + 1\<rparr>"
    using step by (auto simp: put_data_by_thread_def split: if_splits option.splits)
  have "counts_ok ret2 ret1 s'" using inv q by (auto simp: queue_inv_def counts_ok_def)
  moreover have "contents_ok L cont cap s'" using inv q fifo(4) [OF L q(3)]
    by (cases "main_at s") (simp_all add: queue_inv_def counts_ok_def contents_ok_def)
  moreover have "printed_ok ret1 s'" using inv q(4) by (simp add: queue_inv_def printed_ok_def)
  ultimately show ?thesis by (simp add: queue_inv_def)
qed

lemma consumer_inv:
  assumes inv: "queue_inv L cont ret2 ret1 cap s" and step: "get_data_by_thread s = Some s'"
  shows "queue_inv L cont ret2 ret1 cap s'"
proof -
  have s': "consumer_on s" "get_next s < 2000" "s' = s\<lparr>get_next := get_next s + 1\<rparr>"
    using step by (simp_all add: get_data_by_thread_def split: if_split_asm)
  have "counts_ok ret2 ret1 s'" using inv s' by (simp add: queue_inv_def counts_ok_def)
  moreover have "contents_ok L cont cap s'" using inv
    by (cases "main_at s") (simp_all add: s'(3) queue_inv_def contents_ok_def)
  moreover have "printed_ok ret1 s'" using inv by (simp add: s'(3) queue_inv_def printed_ok_def)
  ultimately show ?thesis by (simp add: queue_inv_def)
qed

lemma main_inv:
  assumes L: "bounded_fifo L cont" and inv: "queue_inv L cont ret2 ret1 cap s" and step: "queue_main L ret2 ret1 s = Some s'"
  shows "queue_inv L cont ret2 ret1 cap s'"
proof (cases "main_at s")
  case Reserve
  then have s': "s' = s\<lparr>queue_state := q_reserve L 1000 (queue_state s), main_at := Start_consumer,
      printed_capacity := Some (q_capacity L (q_reserve L 1000 (queue_state s)))\<rparr>"
    using step by (simp add: queue_main_def Let_def)
  show ?thesis using inv fifo(1,2) [OF L, of 1000 "queue_state s"] Reserve by (simp add: s' inv_defs split: option.splits)
next
  case Start_consumer
  then show ?thesis using step inv by (auto simp: queue_main_def inv_defs split: option.splits)
next
  case Start_producer
  then show ?thesis using step inv by (auto simp: queue_main_def inv_defs split: option.splits)
next
  case Push_10086
  then obtain q where q: "q_push L ''10086'' (queue_state s) = Some q" "s' = s\<lparr>queue_state := q, main_at := Pop_result\<rparr>"
    using step by (auto simp: queue_main_def split: option.splits)
  show ?thesis using inv Push_10086 fifo(4) [OF L q(1)] by (simp add: q(2) inv_defs split: option.splits)
next
  case Pop_result
  then obtain x q where q: "q_pop L (queue_state s) = Some (x, q)"
    "s' = s\<lparr>queue_state := q, main_at := Join_consumer, printed := Some x\<rparr>"
    using step by (auto simp: queue_main_def split: option.splits)
  note c = fifo(6) [OF L q(1)]
  have "main_string_in (x # cont q)" using inv Pop_result c by (simp add: inv_defs)
  then have "x = ''10086'' \<or> x = ''data:0'' \<and> cont q \<noteq> []" by (rule main_string_in_first)
  moreover have "length (cont q) = put_next s" using inv Pop_result c by (simp add: inv_defs)
  moreover have "ret1 \<noteq> 0 \<longrightarrow> put_next s = 0" using inv by (simp add: inv_defs)
  ultimately have x: "x = ''10086'' \<or> x = ''data:0'' \<and> ret1 = 0" by auto
  show ?thesis using inv Pop_result c x by (simp add: q(2) inv_defs)
next
  case Join_consumer
  then have "s' = s\<lparr>main_at := Join_producer\<rparr>" using step by (simp add: queue_main_def split: if_splits)
  then show ?thesis using inv Join_consumer by (simp add: inv_defs split: option.splits)
next
  case Join_producer
  then have s': "s' = s\<lparr>main_at := Finished\<rparr>" "\<not> (producer_on s \<and> put_next s < 2000)"
    using step by (simp_all add: queue_main_def split: if_splits)
  then show ?thesis using inv Join_producer by (auto simp: inv_defs split: option.splits)
qed (use step in \<open>simp add: queue_main_def\<close>)

lemma queue_inv_step:
  assumes "bounded_fifo L cont" "queue_inv L cont ret2 ret1 cap s" "queue_step L ret2 ret1 s s'"
  shows "queue_inv L cont ret2 ret1 cap s'"
  using assms(3) producer_inv [OF assms(1,2)] consumer_inv [OF assms(2)] main_inv [OF assms(1,2)] by (auto elim: queue_stepE)

abbreviation queue_reach :: "'q queue_lib \<Rightarrow> int \<Rightarrow> int \<Rightarrow> 'q \<Rightarrow> 'q queue_program \<Rightarrow> bool" where
  "queue_reach L ret2 ret1 q \<equiv> (queue_step L ret2 ret1)\<^sup>*\<^sup>* (program_start q)"

lemma queue_inv_reachable:
  assumes "bounded_fifo L cont" "queue_reach L ret2 ret1 q s"
  shows "queue_inv L cont ret2 ret1 (q_capacity L (q_reserve L 1000 q)) s"
  using assms(2)
proof (induction rule: rtranclp_induct)
  case base
  then show ?case by (simp add: inv_defs program_start_def)
qed (rule queue_inv_step [OF assms(1)])

subsection \<open>Steps cannot go on for ever\<close>

primrec main_left :: "main_pc \<Rightarrow> nat" where
  "main_left Reserve = 7"
| "main_left Start_consumer = 6"
| "main_left Start_producer = 5"
| "main_left Push_10086 = 4"
| "main_left Pop_result = 3"
| "main_left Join_consumer = 2"
| "main_left Join_producer = 1"
| "main_left Finished = 0"

definition steps_left :: "'q queue_program \<Rightarrow> nat" where
  "steps_left s = (2000 - put_next s) + (2000 - get_next s) + main_left (main_at s)"

lemma steps_left_less: "queue_step L ret2 ret1 s s' \<Longrightarrow> steps_left s' < steps_left s"
  by (erule queue_step.cases)
    (auto simp: steps_left_def put_data_by_thread_def get_data_by_thread_def queue_main_def Let_def
      split: if_splits option.splits main_pc.splits)

lemma steps_wf: "wf {(s', s). queue_step L ret2 ret1 s s'}"
  by (rule wf_subset [OF wf_measure [of steps_left]]) (auto simp: steps_left_less)

lemma printed_cases:
  "printed_ok ret1 s \<Longrightarrow> case printed s of None \<Rightarrow> main_at s \<notin> {Join_consumer, Join_producer, Finished}
     | Some x \<Rightarrow> x = ''10086'' \<or> x = ''data:0'' \<and> ret1 = 0"
  by (cases "printed s"; cases "main_at s") (simp_all add: printed_ok_def)

text \<open>A state without a step: main has finished, or the producer has filled the queue and main waits to push or for the producer.\<close>

lemma queue_stuck:
  assumes L: "bounded_fifo L cont" and inv: "queue_inv L cont ret2 ret1 cap s" and stuck: "\<nexists>s'. queue_step L ret2 ret1 s s'"
  shows "main_at s = Finished \<or> ret1 = 0 \<and> main_at s \<in> {Push_10086, Join_producer} \<and> length (cont (queue_state s)) = cap \<and> cap \<le> 2000"
proof -
  have g: "get_data_by_thread s = None" and p: "put_data_by_thread L s = None" and m: "queue_main L ret2 ret1 s = None"
    using stuck by (meson not_None_eq queue_step.consumer queue_step.producer queue_step.main)+
  show ?thesis
  proof (cases "main_at s")
    case Push_10086
    then have "q_push L ''10086'' (queue_state s) = None" using m by (simp add: queue_main_def split: option.splits)
    then have "cap \<le> length (cont (queue_state s))" using fifo(3) [OF L, of "''10086''" "queue_state s"] inv Push_10086 by (simp add: inv_defs)
    then show ?thesis using inv Push_10086 by (auto simp: inv_defs)
  next
    case Pop_result
    then have "cont (queue_state s) \<noteq> []" using inv by (auto simp: inv_defs)
    moreover have "q_pop L (queue_state s) = None" using m Pop_result by (simp add: queue_main_def split: option.splits prod.splits)
    ultimately show ?thesis using fifo(5) [OF L] by simp
  next
    case Join_producer
    then have on: "producer_on s" "put_next s < 2000" using m by (simp_all add: queue_main_def split: if_splits)
    then have "q_push L (put_string (put_next s)) (queue_state s) = None" using p by (simp add: put_data_by_thread_def split: option.splits)
    then have "cap \<le> length (cont (queue_state s))" using fifo(3) [OF L, of "put_string (put_next s)" "queue_state s"] inv Join_producer by (simp add: inv_defs)
    then show ?thesis using inv on Join_producer by (auto simp: inv_defs)
  next
    case Join_consumer
    then show ?thesis using m g by (simp add: queue_main_def get_data_by_thread_def split: if_splits)
  qed (use m in \<open>simp_all add: queue_main_def Let_def\<close>)
qed

subsection \<open>Either string may be printed\<close>

lemma main_steps:
  assumes "queue_reach L ret2 ret1 q s" "queue_main L ret2 ret1 s = Some s'"
  shows "queue_reach L ret2 ret1 q s'"
  using assms queue_step.main [of L ret2 ret1 s s'] by (meson rtranclp.rtrancl_into_rtrancl)

lemma reach_push:
  "\<exists>s. queue_reach L ret2 ret1 q s \<and> main_at s = Push_10086 \<and> queue_state s = q_reserve L 1000 q \<and> put_next s = 0 \<and> producer_on s = (ret1 = 0)"
proof -
  define s1 where "s1 = program_start q\<lparr>queue_state := q_reserve L 1000 q, main_at := Start_consumer,
    printed_capacity := Some (q_capacity L (q_reserve L 1000 q))\<rparr>"
  define s2 where "s2 = s1\<lparr>consumer_on := (ret2 = 0), main_at := Start_producer\<rparr>"
  define s3 where "s3 = s2\<lparr>producer_on := (ret1 = 0), main_at := Push_10086\<rparr>"
  have "queue_reach L ret2 ret1 q s1" by (rule main_steps [OF rtranclp.rtrancl_refl]) (simp add: queue_main_def program_start_def s1_def Let_def)
  then have "queue_reach L ret2 ret1 q s2" by (rule main_steps) (simp add: queue_main_def s1_def s2_def)
  then have "queue_reach L ret2 ret1 q s3" by (rule main_steps) (simp add: queue_main_def s2_def s3_def)
  then show ?thesis by (intro exI [of _ s3]) (simp add: s3_def s2_def s1_def program_start_def)
qed

lemma reach_printed:
  assumes L: "bounded_fifo L cont" and s: "queue_reach L ret2 ret1 q s" "main_at s = Push_10086"
    and room: "length (cont (queue_state s)) < q_capacity L (queue_state s)"
    and first: "hd (cont (queue_state s) @ [''10086'']) = x"
  shows "\<exists>s'. queue_reach L ret2 ret1 q s' \<and> printed s' = Some x"
proof -
  obtain q1 where q1: "q_push L ''10086'' (queue_state s) = Some q1" "cont q1 = cont (queue_state s) @ [''10086'']"
    by (rule push_room [OF L room])
  let ?s1 = "s\<lparr>queue_state := q1, main_at := Pop_result\<rparr>"
  have r1: "queue_reach L ret2 ret1 q ?s1" by (rule main_steps [OF s(1)]) (simp add: queue_main_def s(2) q1(1))
  have "cont q1 = x # tl (cont q1)" using first q1(2) by (cases "cont (queue_state s)") auto
  then obtain q2 where q2: "q_pop L q1 = Some (x, q2)" by (rule pop_some [OF L])
  let ?s2 = "?s1\<lparr>queue_state := q2, main_at := Join_consumer, printed := Some x\<rparr>"
  have "queue_reach L ret2 ret1 q ?s2" by (rule main_steps [OF r1]) (simp add: queue_main_def q2)
  moreover have "printed ?s2 = Some x" by simp
  ultimately show ?thesis by blast
qed

lemma either_printed:
  assumes L: "bounded_fifo L cont"
  shows "\<exists>s. queue_reach L ret2 ret1 q s \<and> printed s = Some ''10086''"
    and "ret1 = 0 \<Longrightarrow> \<exists>s. queue_reach L ret2 ret1 q s \<and> printed s = Some ''data:0''"
proof -
  obtain s where s: "queue_reach L ret2 ret1 q s" "main_at s = Push_10086" "queue_state s = q_reserve L 1000 q" "put_next s = 0"
    "producer_on s = (ret1 = 0)" using reach_push [of L ret2 ret1 q] by (elim exE conjE)
  note e = fifo(1,2) [OF L, of 1000 q]
  have room: "length (cont (queue_state s)) < q_capacity L (queue_state s)" using e by (simp add: s(3))
  show "\<exists>s. queue_reach L ret2 ret1 q s \<and> printed s = Some ''10086''"
  proof (rule reach_printed [OF L s(1,2)])
    show "length (cont (queue_state s)) < q_capacity L (queue_state s)" by (rule room)
    show "hd (cont (queue_state s) @ [''10086'']) = ''10086''" by (simp add: s(3) e(1))
  qed
  assume "ret1 = 0"
  obtain q1 where q1: "q_push L (put_string 0) (queue_state s) = Some q1" "cont q1 = cont (queue_state s) @ [put_string 0]"
    "q_capacity L q1 = q_capacity L (queue_state s)"
    by (rule push_room [OF L room])
  let ?s1 = "s\<lparr>queue_state := q1, put_next := 1\<rparr>"
  have "queue_step L ret2 ret1 s ?s1"
    by (rule queue_step.producer) (simp add: put_data_by_thread_def s(4,5) \<open>ret1 = 0\<close> q1(1))
  with s(1) have "queue_reach L ret2 ret1 q ?s1" by (rule rtranclp.rtrancl_into_rtrancl)
  then show "\<exists>s. queue_reach L ret2 ret1 q s \<and> printed s = Some ''data:0''"
  proof (rule reach_printed [OF L])
    show "main_at ?s1 = Push_10086" by (simp add: s(2))
    show "length (cont (queue_state ?s1)) < q_capacity L (queue_state ?s1)" using e(2) by (simp add: q1(2,3) s(3) e(1))
    show "hd (cont (queue_state ?s1) @ [''10086'']) = ''data:0''" by (simp add: q1(2) s(3) e(1) put_string_0)
  qed
qed

subsection \<open>Properties\<close>

text \<open>C29. The capacity decides whether the program ends. Steps cannot go on for ever, so every run comes to a
  state without a step. If the producer could not be started, or the queue has room for more than 2000, main has then finished.
  With a started producer and a capacity below 2000, such as the one the program asks for, main never finishes: nobody takes the
  data out, the producer waits for ever at the full queue, and main waits to push its own string or for the producer. What main pops
  and prints is its own string or the producer's first, if there is a producer, and both happen.\<close>

theorem bounded_queue_blocks:
  assumes "bounded_fifo L cont" and "queue_reach L ret2 ret1 q s" and "cap = q_capacity L (q_reserve L 1000 q)"
  shows "wf {(s', s). queue_step L ret2 ret1 s s'} \<and>
    ((\<nexists>s'. queue_step L ret2 ret1 s s') \<and> (ret1 \<noteq> 0 \<or> 2000 < cap) \<longrightarrow> main_at s = Finished) \<and>
    (ret1 = 0 \<and> cap < 2000 \<longrightarrow> main_at s \<noteq> Finished \<and>
      ((\<nexists>s'. queue_step L ret2 ret1 s s') \<longrightarrow>
        main_at s \<in> {Push_10086, Join_producer} \<and> length (cont (queue_state s)) = cap \<and> put_next s < 2000)) \<and>
    (case printed s of None \<Rightarrow> main_at s \<notin> {Join_consumer, Join_producer, Finished}
      | Some x \<Rightarrow> x = ''10086'' \<or> x = ''data:0'' \<and> ret1 = 0) \<and>
    (\<exists>s'. queue_reach L ret2 ret1 q s' \<and> printed s' = Some ''10086'') \<and>
    (ret1 = 0 \<longrightarrow> (\<exists>s'. queue_reach L ret2 ret1 q s' \<and> printed s' = Some ''data:0''))"
proof -
  have inv: "queue_inv L cont ret2 ret1 cap s" using queue_inv_reachable [OF assms(1,2)] by (simp add: assms(3))
  note stuck = queue_stuck [OF assms(1) inv]
  have nf: "main_at s \<noteq> Finished" if "ret1 = 0" "cap < 2000" using inv that by (auto simp: inv_defs)
  have wait: "main_at s \<in> {Push_10086, Join_producer} \<and> length (cont (queue_state s)) = cap \<and> put_next s < 2000"
    if "ret1 = 0" "cap < 2000" "\<nexists>s'. queue_step L ret2 ret1 s s'"
  proof -
    have "main_at s \<in> {Push_10086, Join_producer}" "length (cont (queue_state s)) = cap"
      using stuck [OF that(3)] nf [OF that(1,2)] by auto
    moreover from this have "put_next s = cap" using inv by (auto simp: inv_defs)
    ultimately show ?thesis using that(2) by simp
  qed
  have fin: "main_at s = Finished" if "\<nexists>s'. queue_step L ret2 ret1 s s'" "ret1 \<noteq> 0 \<or> 2000 < cap"
    using stuck [OF that(1)] that(2) by auto
  show ?thesis
    by (intro conjI impI steps_wf printed_cases either_printed [OF assms(1)])
      (use inv nf wait fin in \<open>auto simp: queue_inv_def\<close>)
qed

text \<open>A list with a capacity, rounded up to a power of two.\<close>

definition list_queue :: "(string list \<times> nat) queue_lib" where
  "list_queue = \<lparr>q_reserve = (\<lambda>n q. ([], if n \<le> 1024 then 1024 else n)), q_capacity = snd,
     q_push = (\<lambda>x q. if length (fst q) < snd q then Some (fst q @ [x], snd q) else None),
     q_pop = (\<lambda>q. case fst q of [] \<Rightarrow> None | x # q' \<Rightarrow> Some (x, (q', snd q)))\<rparr>"

lemma list_queue_fifo: "bounded_fifo list_queue fst"
  by (auto simp: bounded_fifo_def list_queue_def split: if_splits list.split_asm)

text \<open>With the capacity 1024 a run in which main prints the producer's string exists, and it cannot finish from there.\<close>

lemma list_queue_prints: "\<exists>s. queue_reach list_queue 0 0 ([], 2) s \<and> printed s = Some ''data:0''"
  using either_printed(2) [OF list_queue_fifo, of 0] by simp

theorem bounded_queue_blocks_witness:
  "\<exists>s. queue_reach list_queue 0 0 ([], 2) s \<and> printed s = Some ''data:0'' \<and> main_at s \<noteq> Finished \<and>
     ((\<nexists>s'. queue_step list_queue 0 0 s s') \<longrightarrow> length (fst (queue_state s)) = 1024 \<and> put_next s < 2000)"
proof -
  obtain s where s: "queue_reach list_queue 0 0 ([], 2) s" "printed s = Some ''data:0''" using list_queue_prints by blast
  have c: "1024 = q_capacity list_queue (q_reserve list_queue 1000 ([], 2))" by (simp add: list_queue_def)
  show ?thesis using bounded_queue_blocks [OF list_queue_fifo s(1) c] s by (intro exI [of _ s]) simp
qed

end
