(* ===== verification/Queue_Program.thy ===== *)
theory Queue_Program
  imports Lock_Free_Queue
begin

text \<open>
  The program around the lock-free queue, \<open>main\<close> of \<open>example/performance_units/lock_free_queue.cpp\<close>: ten producers
  that insert \<open>datata--1\<close>, \<open>datata--2\<close> and so on, twenty consumers that print what they take out, all in
  loops without an end, and a main thread that starts them and returns. Its steps are composed of those of the queue.
\<close>

subsection \<open>The program\<close>

datatype run_state = Running | Exited int | Aborted cxx_error

text \<open>Threads 1 to 10 are the producers, with their variable \<open>i\<close> and whether the loop body has called \<open>input\<close>
  already; 11 to 30 are the consumers. \<open>spawned\<close> is the length of the vector \<open>threads\<close>.\<close>

record queue_prog =
  log_test :: LockFreeQueue
  spawned :: nat
  loop_i :: "nat \<Rightarrow> int"
  in_body :: "nat \<Rightarrow> bool"
  run_state :: run_state

definition queue_prog_start :: queue_prog where
  "queue_prog_start =
     \<lparr>log_test = LockFreeQueue_new, spawned = 0, loop_i = (\<lambda>_. 1), in_body = (\<lambda>_. False), run_state = Running\<rparr>"

definition produce_count :: nat where "produce_count = 10"

definition consume_count :: nat where "consume_count = 20"

definition datata :: "int \<Rightarrow> string" where
  "datata i = ''datata--'' @ show_int i"

text \<open>Destroying a vector that holds joinable threads ends the program.\<close>

definition destroy_threads :: "nat \<Rightarrow> run_state" where
  "destroy_threads joinable = (if joinable = 0 then Exited 0 else Aborted Terminate)"

definition main_step :: "queue_prog \<Rightarrow> queue_prog" where
  "main_step s =
     (if spawned s < produce_count + consume_count then s\<lparr>spawned := Suc (spawned s)\<rparr>
      else s\<lparr>run_state := destroy_threads (spawned s)\<rparr>)"

text \<open>What a thread does between its accesses to the queue.\<close>

definition producer_step :: "nat \<Rightarrow> queue_prog \<Rightarrow> queue_prog" where
  "producer_step t s =
     (if in_body s t
      then case int_result (loop_i s t + 1) of
             Inl e \<Rightarrow> s\<lparr>run_state := Aborted e\<rparr>
           | Inr j \<Rightarrow> s\<lparr>loop_i := (loop_i s)(t := j), in_body := (in_body s)(t := False)\<rparr>
      else s\<lparr>log_test := input t (datata (loop_i s t)) (log_test s), in_body := (in_body s)(t := True)\<rparr>)"

text \<open>The call of \<open>input\<close> this makes, if it is one.\<close>

definition producer_call :: "nat \<Rightarrow> queue_prog \<Rightarrow> event list" where
  "producer_call t s = (if in_body s t then [] else [Call_in t (datata (loop_i s t))])"

definition consumer_step :: "nat \<Rightarrow> queue_prog \<Rightarrow> queue_prog" where
  "consumer_step t s = s\<lparr>log_test := output_call t (log_test s)\<rparr>"

abbreviation producers :: "nat set" where "producers \<equiv> {1..produce_count}"

abbreviation consumers :: "nat set" where "consumers \<equiv> {produce_count + 1..produce_count + consume_count}"

inductive queue_run :: "event list \<Rightarrow> queue_prog \<Rightarrow> bool" where
  start: "queue_run [] queue_prog_start"
| main: "queue_run tr s \<Longrightarrow> run_state s = Running \<Longrightarrow> queue_run tr (main_step s)"
| producer: "queue_run tr s \<Longrightarrow> run_state s = Running \<Longrightarrow> t \<in> producers \<Longrightarrow> t \<le> spawned s \<Longrightarrow>
    pcs (log_test s) t = Idle \<Longrightarrow> queue_run (tr @ producer_call t s) (producer_step t s)"
| consumer: "queue_run tr s \<Longrightarrow> run_state s = Running \<Longrightarrow> t \<in> consumers \<Longrightarrow> t \<le> spawned s \<Longrightarrow>
    pcs (log_test s) t = Idle \<Longrightarrow> queue_run (tr @ [Call_out t]) (consumer_step t s)"
| access: "queue_run tr s \<Longrightarrow> run_state s = Running \<Longrightarrow> pcs (log_test s) t \<noteq> Idle \<Longrightarrow>
    thread_step t (log_test s) = (e, q) \<Longrightarrow> queue_run (tr @ [e]) (s\<lparr>log_test := q\<rparr>)"

lemma run_state_simps [simp]:
  "log_test (main_step s) = log_test s" "loop_i (main_step s) = loop_i s" "in_body (main_step s) = in_body s"
  "loop_i (consumer_step t s) = loop_i s" "in_body (consumer_step t s) = in_body s"
  "log_test (consumer_step t s) = output_call t (log_test s)"
  by (simp_all add: main_step_def consumer_step_def)

text \<open>The program is a client of the queue.\<close>

lemma queue_run_trace: "queue_run tr s \<Longrightarrow> lfq_trace tr (log_test s)"
proof (induction rule: queue_run.induct)
  case start
  then show ?case by (simp add: queue_prog_start_def lfq_trace.start)
next
  case (producer tr s t)
  then show ?case by (auto simp: producer_step_def producer_call_def lfq_trace.call_input split: sum.splits)
qed (simp_all add: lfq_trace.call_output lfq_trace.step)

subsection \<open>What the producers insert\<close>

fun enqueued :: "nat \<Rightarrow> event list \<Rightarrow> string list" where
  "enqueued t [] = []"
| "enqueued t (Enq u x # es) = (if u = t then x # enqueued t es else enqueued t es)"
| "enqueued t (_ # es) = enqueued t es"

lemma enqueued_append: "enqueued t (es @ fs) = enqueued t es @ enqueued t fs"
  by (induction t es rule: enqueued.induct) auto

text \<open>What a thread has handed to \<open>input\<close> and \<open>input\<close> has not linked yet.\<close>

definition to_enqueue :: "LockFreeQueue \<Rightarrow> nat \<Rightarrow> string list" where
  "to_enqueue q t = (case pending (pcs q t) of None \<Rightarrow> [] | Some n \<Rightarrow> [log_info q n])"

lemma to_enqueue_goto [simp]:
  "to_enqueue (goto u p q) t = (if t = u then (case pending p of None \<Rightarrow> [] | Some n \<Rightarrow> [log_info q n]) else to_enqueue q t)"
  by (simp add: to_enqueue_def cong: option.case_cong)

lemma to_enqueue_shared [simp]:
  "to_enqueue (q\<lparr>nexts := f\<rparr>) t = to_enqueue q t" "to_enqueue (q\<lparr>tail := x\<rparr>) t = to_enqueue q t"
  "to_enqueue (q\<lparr>head := x\<rparr>) t = to_enqueue q t"
  by (simp_all add: to_enqueue_def cong: option.case_cong)

lemma to_enqueue_self: "pcs q t = p \<Longrightarrow> to_enqueue q t = (case pending p of None \<Rightarrow> [] | Some n \<Rightarrow> [log_info q n])"
  by (simp add: to_enqueue_def)

lemma thread_step_enqueues:
  assumes "thread_step u q = (e, q')" "pcs q u \<noteq> Idle"
  shows "enqueued t [e] @ to_enqueue q' t = to_enqueue q t"
  using assms
  by (cases "pcs q u")
    (auto simp: thread_step_def in_output_def input_step_def output_step_def pending_def to_enqueue_self [of q u] split: if_splits)

lemma input_enqueues:
  assumes "lfq_inv ch q" "pcs q u = Idle"
  shows "to_enqueue (input u x q) t = (if t = u then [x] else to_enqueue q t)"
  using lfq_invD(3) [OF assms(1), of t]
  by (auto simp: to_enqueue_def input_def pending_def unlinked_def split: option.splits)

definition inserted :: "queue_prog \<Rightarrow> nat \<Rightarrow> int" where
  "inserted s t = (if in_body s t then loop_i s t else loop_i s t - 1)"

lemma queue_run_inserts:
  "queue_run tr s \<Longrightarrow> enqueued t tr @ to_enqueue (log_test s) t = map datata [1..inserted s t] \<and> 1 \<le> loop_i s t \<and>
     (t \<notin> producers \<longrightarrow> loop_i s t = 1 \<and> \<not> in_body s t)"
proof (induction arbitrary: t rule: queue_run.induct)
  case start
  then show ?case by (simp add: queue_prog_start_def inserted_def to_enqueue_def LockFreeQueue_new_def pending_def)
next
  case (main tr s)
  then show ?case by (simp add: inserted_def)
next
  case (producer tr s u)
  show ?case
  proof (cases "in_body s u")
    case True
    then show ?thesis using producer.IH [of t] producer.hyps(3)
      by (cases "t = u") (auto simp: producer_step_def producer_call_def inserted_def int_result_def)
  next
    case False
    obtain ch where "lfq_inv ch (log_test s)" using lfq_trace_fifo [OF queue_run_trace [OF producer.hyps(1)]] by blast
    note i = input_enqueues [OF this producer.hyps(5)]
    have "to_enqueue (log_test s) u = []" using producer.hyps(5) by (simp add: to_enqueue_def pending_def)
    moreover have "[1..loop_i s u] = [1..loop_i s u - 1] @ [loop_i s u]"
      using producer.IH [of u] by (intro upto_rec2) simp
    ultimately show ?thesis using producer.IH [of t] producer.hyps(3) False
      by (cases "t = u") (simp_all add: producer_step_def producer_call_def inserted_def enqueued_append i)
  qed
next
  case (consumer tr s u)
  have "to_enqueue (output_call u (log_test s)) t = to_enqueue (log_test s) t"
    using consumer.hyps(5) by (auto simp: output_call_def pending_def to_enqueue_self)
  then show ?case using consumer.IH [of t] by (simp add: inserted_def enqueued_append)
next
  case (access tr s u e q)
  then show ?case using thread_step_enqueues [OF access.hyps(4,3), of t] access.IH [of t]
    by (simp add: inserted_def enqueued_append)
qed

lemma queue_run_enqueued:
  assumes "queue_run tr s"
  shows "\<exists>k \<le> loop_i s t. enqueued t tr = map datata [1..k]"
proof -
  note i = queue_run_inserts [OF assms, of t]
  obtain p where p: "to_enqueue (log_test s) t = p" "length p \<le> 1" by (auto simp: to_enqueue_def split: option.splits)
  show ?thesis
  proof (cases p)
    case Nil
    then show ?thesis using i p by (intro exI [of _ "inserted s t"]) (simp add: inserted_def)
  next
    case (Cons x xs)
    then have 1: "enqueued t tr @ [x] = map datata [1..inserted s t]" using i p by simp
    then have "1 \<le> inserted s t" by (cases "1 \<le> inserted s t") auto
    then have "[1..inserted s t] = [1..inserted s t - 1] @ [inserted s t]" by (intro upto_rec2)
    then show ?thesis using 1 by (intro exI [of _ "inserted s t - 1"]) (simp add: inserted_def)
  qed
qed

lemma datata_inject: "1 \<le> i \<Longrightarrow> 1 \<le> j \<Longrightarrow> datata i = datata j \<longleftrightarrow> i = j"
  by (auto simp: datata_def show_int_def)

lemma distinct_count_list: "distinct xs \<Longrightarrow> count_list xs x \<le> 1"
  by (induction xs) (auto simp: count_notin)

lemma enqueued_once: "queue_run tr s \<Longrightarrow> count_list (enqueued t tr) x \<le> 1"
proof -
  assume "queue_run tr s"
  then obtain k where k: "enqueued t tr = map datata [1..k]" using queue_run_enqueued by blast
  have "distinct (enqueued t tr)" by (auto simp: k distinct_map datata_inject intro!: inj_onI)
  then show ?thesis by (rule distinct_count_list)
qed

lemma enqueued_others: "queue_run tr s \<Longrightarrow> t \<notin> producers \<Longrightarrow> enqueued t tr = []"
  using queue_run_inserts [of tr s t] by (auto simp: inserted_def)

subsection \<open>Counting strings\<close>

definition enq_of :: "string \<Rightarrow> event \<Rightarrow> bool" where
  "enq_of x e = (case e of Enq t y \<Rightarrow> y = x | _ \<Rightarrow> False)"

definition deq_of :: "string \<Rightarrow> event \<Rightarrow> bool" where
  "deq_of x e = (case e of Deq t y \<Rightarrow> y = x | _ \<Rightarrow> False)"

abbreviation occurrences :: "('a \<Rightarrow> bool) \<Rightarrow> 'a list \<Rightarrow> nat" where
  "occurrences P es \<equiv> length (filter P es)"

text \<open>In a run of the abstract queue a string leaves as often as it has entered, less what is still inside.\<close>

lemma fifo_counts:
  "fifo_run es q = Some q' \<Longrightarrow> occurrences (deq_of x) es + count_list q' x = count_list q x + occurrences (enq_of x) es"
proof (induction es arbitrary: q)
  case (Cons e es)
  then obtain q1 where q1: "fifo e q = Some q1" "fifo_run es q1 = Some q'" by (auto split: Option.bind_splits)
  show ?case using Cons.IH [OF q1(2)] q1(1)
    by (cases e) (auto simp: deq_of_def enq_of_def split: list.splits if_splits)
qed simp

text \<open>Counting by thread.\<close>

lemma sum_enqueued:
  assumes "finite T" "\<And>t. t \<notin> T \<Longrightarrow> enqueued t es = []"
  shows "(\<Sum>t \<in> T. count_list (enqueued t es) x) = occurrences (enq_of x) es"
  using assms(2)
proof (induction es)
  case (Cons e es)
  have e: "enqueued t (e # es) = enqueued t [e] @ enqueued t es" for t using enqueued_append [of t "[e]" es] by simp
  have IH: "(\<Sum>t \<in> T. count_list (enqueued t es) x) = occurrences (enq_of x) es"
    using Cons.prems by (intro Cons.IH) (simp add: e)
  have "(\<Sum>t \<in> T. count_list (enqueued t [e]) x) = (if enq_of x e then 1 else 0)"
  proof (cases e)
    case (Enq u y)
    have "u \<in> T" using Cons.prems [of u] Enq by auto
    then show ?thesis using assms(1) by (auto simp: Enq enq_of_def if_distrib [of "\<lambda>l. count_list l x"] cong: if_cong)
  qed (simp_all add: enq_of_def)
  then show ?case using IH by (simp only: e count_list_append sum.distrib) simp
qed simp

lemma sum_results:
  assumes "finite T" and "x \<noteq> []"
  shows "(\<Sum>t \<in> T. count_list (results t es) x) \<le> occurrences (deq_of x) es"
proof (induction es)
  case (Cons e es)
  have e: "results t (e # es) = results t [e] @ results t es" for t using results_append [of t "[e]" es] by simp
  have "(\<Sum>t \<in> T. count_list (results t [e]) x) \<le> (if deq_of x e then 1 else 0)"
  proof (cases e)
    case (Deq u y)
    then show ?thesis using assms
      by (cases "u \<in> T") (auto simp: deq_of_def if_distrib [of "\<lambda>l. count_list l x"] cong: if_cong)
  next
    case (Deq_empty u)
    then show ?thesis using assms by (simp add: deq_of_def)
  qed (simp_all add: deq_of_def)
  then have "(\<Sum>t \<in> T. count_list (results t [e]) x) + (\<Sum>t \<in> T. count_list (results t es) x)
      \<le> (if deq_of x e then 1 else 0) + occurrences (deq_of x) es" using Cons.IH by (rule add_mono)
  then show ?case by (simp only: e count_list_append sum.distrib) (cases "deq_of x e"; simp)
qed simp

text \<open>What all threads together have printed of a string that is not empty, at most what the producers have inserted of it.\<close>

lemma printed_at_most_inserted:
  assumes "queue_run tr s" "finite T" "x \<noteq> []"
  shows "(\<Sum>t \<in> T. count_list (returned t tr) x) \<le> (\<Sum>t \<in> producers. count_list (enqueued t tr) x)"
proof -
  note tr = queue_run_trace [OF assms(1)]
  have "(\<Sum>t \<in> T. count_list (returned t tr) x) \<le> (\<Sum>t \<in> T. count_list (results t tr) x)"
    by (intro sum_mono) (simp add: lfq_trace_results [OF tr])
  also have "\<dots> \<le> occurrences (deq_of x) tr" by (rule sum_results [OF assms(2,3)])
  also have "\<dots> \<le> occurrences (enq_of x) tr" using lfq_trace_fifo [OF tr] fifo_counts [of tr "[]" _ x] by fastforce
  also have "\<dots> = (\<Sum>t \<in> producers. count_list (enqueued t tr) x)"
    by (rule sum_enqueued [symmetric]) (simp_all add: enqueued_others [OF assms(1)])
  finally show ?thesis .
qed

subsection \<open>How the program ends\<close>

lemma never_exits: "queue_run tr s \<Longrightarrow> run_state s \<noteq> Exited c"
  by (induction rule: queue_run.induct)
    (auto simp: queue_prog_start_def main_step_def destroy_threads_def producer_step_def consumer_step_def
      produce_count_def consume_count_def split: sum.splits)

text \<open>Main alone gets to its end, where it aborts the program.\<close>

lemma main_aborts:
  assumes "queue_run tr s" "run_state s = Running"
  shows "\<exists>s'. queue_run tr s' \<and> run_state s' = Aborted Terminate"
  using assms
proof (induction "produce_count + consume_count - spawned s" arbitrary: s rule: less_induct)
  case less
  show ?case
  proof (cases "spawned s < produce_count + consume_count")
    case True
    then show ?thesis using less(1) [of "main_step s"] queue_run.main [OF less(2,3)] less(3) by (simp add: main_step_def)
  next
    case False
    then show ?thesis using queue_run.main [OF less(2,3)]
      by (intro exI [of _ "main_step s"]) (simp add: main_step_def destroy_threads_def produce_count_def consume_count_def)
  qed
qed

subsection \<open>Properties\<close>

text \<open>A run by a schedule.\<close>

datatype queue_action = Main | Produce nat | Consume nat | Access nat

fun queue_exec :: "queue_action list \<Rightarrow> event list \<Rightarrow> queue_prog \<Rightarrow> event list \<times> queue_prog" where
  "queue_exec [] tr s = (tr, s)"
| "queue_exec (a # as) tr s =
     (if run_state s \<noteq> Running then (tr, s)
      else case a of
        Main \<Rightarrow> queue_exec as tr (main_step s)
      | Produce t \<Rightarrow> if t \<in> producers \<and> t \<le> spawned s \<and> pcs (log_test s) t = Idle
          then queue_exec as (tr @ producer_call t s) (producer_step t s) else (tr, s)
      | Consume t \<Rightarrow> if t \<in> consumers \<and> t \<le> spawned s \<and> pcs (log_test s) t = Idle
          then queue_exec as (tr @ [Call_out t]) (consumer_step t s) else (tr, s)
      | Access t \<Rightarrow> if pcs (log_test s) t = Idle then (tr, s)
          else case thread_step t (log_test s) of (e, q) \<Rightarrow> queue_exec as (tr @ [e]) (s\<lparr>log_test := q\<rparr>))"

lemma queue_exec_run: "queue_run tr s \<Longrightarrow> queue_exec as tr s = (tr', s') \<Longrightarrow> queue_run tr' s'"
proof (induction as arbitrary: tr s)
  case (Cons a as)
  note run = Cons.prems(1) and e = Cons.prems(2)
  show ?case
  proof (cases "run_state s = Running")
    case True
    show ?thesis
    proof (cases a)
      case Main
      then show ?thesis using e True Cons.IH [OF queue_run.main [OF run True]] by simp
    next
      case (Produce t)
      then show ?thesis using e True run Cons.IH [OF queue_run.producer [OF run True, of t]] by (simp split: if_splits)
    next
      case (Consume t)
      then show ?thesis using e True run Cons.IH [OF queue_run.consumer [OF run True, of t]] by (simp split: if_splits)
    next
      case (Access t)
      then show ?thesis using e True run Cons.IH [OF queue_run.access [OF run True, of t]]
        by (cases "thread_step t (log_test s)") (simp split: if_splits)
    qed
  qed (use run e in simp)
qed simp

text \<open>Producer 1 inserts its first string, consumer 11 prints it and then, from the empty queue, the empty string.\<close>

lemma one_string_printed:
  "\<exists>tr s. queue_run tr s \<and> run_state s = Running \<and> returned 11 tr = [datata 1, []] \<and> enqueued 1 tr = [datata 1]"
proof -
  let ?as = "replicate 11 Main @ [Produce 1, Access 1, Access 1, Access 1, Access 1, Consume 11, Access 11, Access 11, Access 11, Access 11,
    Consume 11, Access 11, Access 11, Access 11]"
  obtain tr s where e: "queue_exec ?as [] queue_prog_start = (tr, s)" by (cases "queue_exec ?as [] queue_prog_start")
  then have "run_state s = Running \<and> returned 11 tr = [datata 1, []] \<and> enqueued 1 tr = [datata 1]"
    by (auto simp: numeral_eq_Suc queue_prog_start_def main_step_def producer_step_def producer_call_def consumer_step_def produce_count_def
        consume_count_def thread_step_def in_output_def input_step_def output_step_def input_def output_call_def LockFreeQueue_new_def)
  then show ?thesis using queue_exec_run [OF queue_run.start e] by blast
qed

text \<open>C32: what the program around the lock-free queue prints and how it ends, for every interleaving. Each producer
  inserts \<open>datata--1\<close>, \<open>datata--2\<close> and so on in order, each once. A consumer prints nothing but the empty string, when it finds the
  queue empty, and strings that a producer has inserted; of each string but the empty one all consumers together print at most
  ten, one for each producer. The program never exits: as soon as main returns, the destruction of its vector of joinable
  threads terminates it, and main can always get there.\<close>

theorem queue_program_prints:
  assumes "queue_run tr s"
  shows "(\<exists>k \<le> loop_i s p. enqueued p tr = map datata [1..k]) \<and>
    (x = [] \<or> (\<Sum>t \<in> consumers. count_list (returned t tr) x) \<le> 10) \<and>
    (x \<in> set (returned c tr) \<longrightarrow> x = [] \<or> (\<exists>u \<in> producers. \<exists>k. 1 \<le> k \<and> k \<le> loop_i s u \<and> x = datata k)) \<and>
    run_state s \<noteq> Exited code \<and>
    (run_state s = Running \<longrightarrow> (\<exists>s'. queue_run tr s' \<and> run_state s' = Aborted Terminate))"
proof (intro conjI impI)
  show "\<exists>k \<le> loop_i s p. enqueued p tr = map datata [1..k]" by (rule queue_run_enqueued [OF assms])
  have "(\<Sum>t \<in> producers. count_list (enqueued t tr) x) \<le> (\<Sum>t \<in> producers. 1)"
    by (intro sum_mono enqueued_once [OF assms])
  then show "x = [] \<or> (\<Sum>t \<in> consumers. count_list (returned t tr) x) \<le> 10"
    using printed_at_most_inserted [OF assms, of consumers x] by (cases "x = []") (simp_all add: produce_count_def)
  show "x = [] \<or> (\<exists>u \<in> producers. \<exists>k. 1 \<le> k \<and> k \<le> loop_i s u \<and> x = datata k)" if x: "x \<in> set (returned c tr)"
  proof (cases "x = []")
    case False
    have "count_list (returned c tr) x \<noteq> 0" using x by (simp add: count_list_0_iff)
    then have "(\<Sum>t \<in> producers. count_list (enqueued t tr) x) \<noteq> 0"
      using printed_at_most_inserted [OF assms, of "{c}" x] False by (simp del: sum_eq_0_iff)
    then obtain u where "u \<in> producers" "count_list (enqueued u tr) x \<noteq> 0" by (meson sum.neutral)
    then have u: "u \<in> producers" "x \<in> set (enqueued u tr)" by (simp_all add: count_list_0_iff)
    then have "\<exists>k. 1 \<le> k \<and> k \<le> loop_i s u \<and> x = datata k" using queue_run_enqueued [OF assms, of u] by force
    then show ?thesis using u(1) by blast
  qed simp
  show "run_state s \<noteq> Exited code" by (rule never_exits [OF assms])
  show "\<exists>s'. queue_run tr s' \<and> run_state s' = Aborted Terminate" if "run_state s = Running"
    by (rule main_aborts [OF assms that])
qed

theorem queue_program_prints_witness:
  "\<exists>tr (s :: queue_prog). returned 11 tr = [datata 1, []] \<and> enqueued 1 tr = map datata [1..1] \<and>
    (\<Sum>t \<in> consumers. count_list (returned t tr) (datata 1)) \<le> 10 \<and> (\<exists>u \<in> producers. 1 \<le> loop_i s u) \<and>
    (\<exists>s'. queue_run tr s' \<and> run_state s' = Aborted Terminate)"
proof -
  obtain tr s where r: "queue_run tr s" "run_state s = Running" "returned 11 tr = [datata 1, []]" "enqueued 1 tr = [datata 1]"
    using one_string_printed by blast
  have "datata 1 \<noteq> []" by (simp add: datata_def)
  note q = queue_program_prints [OF r(1), of 1 "datata 1" 11 0]
  have "\<exists>u \<in> producers. 1 \<le> loop_i s u" 
    using conjunct1 [OF conjunct2 [OF conjunct2 [OF q]]] r(3) \<open>datata 1 \<noteq> []\<close> by (metis list.set_intros(1) order_trans)
  then show ?thesis using q r \<open>datata 1 \<noteq> []\<close> by (intro exI [of _ tr] exI [of _ s]) auto
qed

end
