(* ===== verification/Shared_Ptr.thy ===== *)
theory Shared_Ptr
  imports Prelude
begin

text \<open>
  \<open>MySharedPtr\<close> (\<open>example/performance_units/my_shared_ptr.cpp\<close>): a reference-counted pointer with an
  explicit heap of counters and a set of live objects. Copying tests \<open>used_count == nullptr\<close> where it
  means the opposite, so the model has a null dereference in one branch and a missing
  increment in the other.
\<close>

subsection \<open>State\<close>

text \<open>Addresses are numbers, 0 is null; \<open>counts\<close> are the live counters, \<open>objects\<close> the live objects.\<close>

record sp_heap =
  counts :: "nat \<Rightarrow> int option"
  objects :: "nat set"
  next_addr :: nat

record MySharedPtr =
  sp_ptr :: nat
  used_count :: nat

definition null_sp :: MySharedPtr where
  "null_sp = \<lparr>sp_ptr = 0, used_count = 0\<rparr>"

definition delete_object :: "nat \<Rightarrow> sp_heap \<Rightarrow> sp_heap cxx" where
  "delete_object p H = (if p = 0 then Inr H else if p \<in> objects H then Inr (H\<lparr>objects := objects H - {p}\<rparr>) else Inl Invalid_access)"

subsection \<open>Operations\<close>

definition sp_release :: "MySharedPtr \<Rightarrow> sp_heap \<Rightarrow> sp_heap cxx" where
  "sp_release x H =
     (if used_count x = 0 then Inr H
      else case counts H (used_count x) of
             None \<Rightarrow> Inl Invalid_access
           | Some c \<Rightarrow>
               let H1 = H\<lparr>counts := (counts H)(used_count x \<mapsto> c - 1)\<rparr>
               in if c - 1 = 0 then bind_cxx (delete_object (sp_ptr x) H1) (\<lambda>H2. Inr (H2\<lparr>counts := (counts H2)(used_count x := None)\<rparr>))
                  else Inr H1)"

definition sp_new :: "nat \<Rightarrow> sp_heap \<Rightarrow> MySharedPtr \<times> sp_heap" where
  "sp_new p H =
     (if p \<noteq> 0 then (\<lparr>sp_ptr = p, used_count = next_addr H\<rparr>,
                     H\<lparr>counts := (counts H)(next_addr H \<mapsto> 1), next_addr := Suc (next_addr H)\<rparr>)
      else (null_sp, H))"

text \<open>\<open>if (used_count == nullptr) ++*used_count;\<close>\<close>

definition count_copy :: "nat \<Rightarrow> sp_heap cxx \<Rightarrow> sp_heap cxx" where
  "count_copy c H = (if c = 0 then Inl Null_deref else H)"

definition sp_copy :: "MySharedPtr \<Rightarrow> sp_heap \<Rightarrow> (MySharedPtr \<times> sp_heap) cxx" where
  "sp_copy other H = bind_cxx (count_copy (used_count other) (Inr H)) (\<lambda>H'. Inr (other, H'))"

text \<open>The moved-from pointer is the second component.\<close>

definition sp_move :: "MySharedPtr \<Rightarrow> MySharedPtr \<times> MySharedPtr" where
  "sp_move other = (other, null_sp)"

text \<open>The assignments; \<open>same\<close> says whether \<open>&other == this\<close>.\<close>

definition sp_assign :: "bool \<Rightarrow> MySharedPtr \<Rightarrow> MySharedPtr \<Rightarrow> sp_heap \<Rightarrow> (MySharedPtr \<times> sp_heap) cxx" where
  "sp_assign same self other H =
     (if same then Inr (self, H)
      else bind_cxx (sp_release self H) (\<lambda>H1. bind_cxx (count_copy (used_count other) (Inr H1)) (\<lambda>H2. Inr (other, H2))))"

definition sp_move_assign :: "bool \<Rightarrow> MySharedPtr \<Rightarrow> MySharedPtr \<Rightarrow> sp_heap \<Rightarrow> (MySharedPtr \<times> MySharedPtr \<times> sp_heap) cxx" where
  "sp_move_assign same self other H =
     (if same then Inr (self, other, H) else bind_cxx (sp_release self H) (\<lambda>H1. Inr (other, null_sp, H1)))"

definition sp_destroy :: "MySharedPtr \<Rightarrow> sp_heap \<Rightarrow> sp_heap cxx" where
  "sp_destroy x H = sp_release x H"

text \<open>\<open>operator*\<close> falls off its end for a null pointer.\<close>

definition sp_deref :: "MySharedPtr \<Rightarrow> nat cxx" where
  "sp_deref x = (if sp_ptr x \<noteq> 0 then Inr (sp_ptr x) else Inl Missing_return)"

definition sp_arrow :: "MySharedPtr \<Rightarrow> nat" where
  "sp_arrow x = sp_ptr x"

definition get_count :: "MySharedPtr \<Rightarrow> sp_heap \<Rightarrow> int cxx" where
  "get_count x H =
     (if used_count x = 0 then Inr 0 else case counts H (used_count x) of None \<Rightarrow> Inl Invalid_access | Some c \<Rightarrow> Inr c)"

text \<open>\<open>main\<close>: \<open>sp1(new Test())\<close>, a copy \<open>sp2\<close> in an inner block, the counts it prints, and the use of
  \<open>sp1\<close> and its destruction at the end.\<close>

definition sp_main :: "(int list \<times> sp_heap) cxx" where
  "sp_main =
     (let H0 = \<lparr>counts = Map.empty, objects = {1}, next_addr = 2\<rparr>; (sp1, H1) = sp_new 1 H0
      in bind_cxx (sp_copy sp1 H1) (\<lambda>(sp2, H2).
         bind_cxx (get_count sp1 H2) (\<lambda>c1.
         bind_cxx (sp_destroy sp2 H2) (\<lambda>H3.
         bind_cxx (get_count sp1 H3) (\<lambda>c2.
         bind_cxx (sp_destroy sp1 H3) (\<lambda>H4. Inr ([c1, c2], H4)))))))"

subsection \<open>Properties\<close>

text \<open>A pointer owns a live object through a live counter of its own.\<close>

definition sole_owner :: "MySharedPtr \<Rightarrow> sp_heap \<Rightarrow> bool" where
  "sole_owner x H \<longleftrightarrow> sp_ptr x \<in> objects H \<and> sp_ptr x \<noteq> 0 \<and> used_count x \<noteq> 0 \<and> counts H (used_count x) = Some 1"

lemma sole_owner_new: "p \<noteq> 0 \<Longrightarrow> p \<in> objects H \<Longrightarrow> next_addr H \<noteq> 0 \<Longrightarrow> sole_owner (fst (sp_new p H)) (snd (sp_new p H))"
  by (simp add: sole_owner_def sp_new_def)

lemma sole_owner_release:
  "sole_owner x H \<Longrightarrow> sp_release x H = Inr (H\<lparr>objects := objects H - {sp_ptr x}, counts := (counts H)(used_count x := None)\<rparr>)"
  by (simp add: sole_owner_def sp_release_def delete_object_def)

text \<open>
  Without copies the class manages its object: a pointer made from a live object and
  moved any number of times destroys the object exactly once and leaves no counter behind.
\<close>

fun sp_moves :: "nat \<Rightarrow> MySharedPtr \<Rightarrow> MySharedPtr" where
  "sp_moves 0 x = x"
| "sp_moves (Suc k) x = sp_moves k (fst (sp_move x))"

theorem shared_ptr_moves_once:
  assumes "p \<noteq> 0" and "p \<in> objects H" and "next_addr H \<noteq> 0" and "counts H (next_addr H) = None"
  shows "sp_destroy (sp_moves k (fst (sp_new p H))) (snd (sp_new p H)) =
    Inr (H\<lparr>objects := objects H - {p}, next_addr := Suc (next_addr H)\<rparr>) \<and>
    sp_destroy (snd (sp_move (fst (sp_new p H)))) H = Inr H"
proof -
  have m: "sp_moves k x = x" for x by (induction k arbitrary: x) (simp_all add: sp_move_def)
  have "(counts H)(next_addr H := None) = counts H" using assms(4) by auto
  then show ?thesis using sole_owner_release [OF sole_owner_new [OF assms(1-3)]] assms(1)
    by (simp add: m sp_destroy_def sp_new_def sp_move_def null_sp_def sp_release_def)
qed

theorem shared_ptr_moves_once_witness:
  "sp_destroy (sp_moves 3 (fst (sp_new 1 \<lparr>counts = Map.empty, objects = {1, 5}, next_addr = 2\<rparr>)))
     (snd (sp_new 1 \<lparr>counts = Map.empty, objects = {1, 5}, next_addr = 2\<rparr>)) =
   Inr \<lparr>counts = Map.empty, objects = {5}, next_addr = 3\<rparr>"
  using shared_ptr_moves_once [of 1 "\<lparr>counts = Map.empty, objects = {1, 5}, next_addr = 2\<rparr>" 3] by simp

text \<open>
  C33: copying a pointer that owns an object does not count the copy: when the copy is destroyed the
  object is gone, and the original then reads a freed counter. Copying an empty pointer
  dereferences null.
\<close>

theorem shared_ptr_copy_dangles:
  assumes "sole_owner x H"
  shows "(\<exists>H1. sp_copy x H = Inr (x, H1) \<and> get_count x H1 = Inr 1 \<and>
      (\<exists>H2. sp_destroy x H1 = Inr H2 \<and> sp_ptr x \<notin> objects H2 \<and> get_count x H2 = Inl Invalid_access \<and>
        sp_destroy x H2 = Inl Invalid_access)) \<and>
    sp_copy null_sp H = Inl Null_deref \<and> sp_assign False x null_sp H = Inl Null_deref"
  using assms sole_owner_release [OF assms]
  by (simp add: sp_copy_def count_copy_def sp_assign_def sp_destroy_def get_count_def null_sp_def sole_owner_def sp_release_def)

theorem shared_ptr_copy_dangles_witness:
  "sp_destroy \<lparr>sp_ptr = 1, used_count = 2\<rparr> \<lparr>counts = [2 \<mapsto> 1], objects = {1}, next_addr = 3\<rparr> =
     Inr \<lparr>counts = Map.empty, objects = {}, next_addr = 3\<rparr> \<and>
   sp_copy null_sp \<lparr>counts = [2 \<mapsto> 1], objects = {1}, next_addr = 3\<rparr> = Inl Null_deref"
proof -
  have "sole_owner \<lparr>sp_ptr = 1, used_count = 2\<rparr> \<lparr>counts = [2 \<mapsto> 1], objects = {1}, next_addr = 3\<rparr>"
    by (simp add: sole_owner_def)
  from shared_ptr_copy_dangles [OF this] sole_owner_release [OF this] show ?thesis by (simp add: sp_destroy_def)
qed

lemma sp_main_fails: "sp_main = Inl Invalid_access"
  by (simp add: sp_main_def sp_new_def sp_copy_def count_copy_def get_count_def sp_destroy_def sp_release_def delete_object_def Let_def)

end
