(* ===== verification/Design_Patterns.thy ===== *)
theory Design_Patterns
  imports Prelude "HOL-Library.Sublist"
begin

text \<open>
  The design-pattern examples (\<open>example/design_model\<close>). What a method writes to \<open>std::cout\<close> is a list
  of lines.
\<close>

subsection \<open>Strategy\<close>

datatype MapStrategy = CarMapStrategy | BikeMapStrategy | BusMapStrategy

fun strategy_who :: "MapStrategy \<Rightarrow> string list" where
  "strategy_who CarMapStrategy = [''i am audi'']"
| "strategy_who BikeMapStrategy = [''i am bike'']"
| "strategy_who BusMapStrategy = [''i am bus'']"

fun strategy_route :: "MapStrategy \<Rightarrow> string list" where
  "strategy_route CarMapStrategy = [''i am audi,and i fast'']"
| "strategy_route BikeMapStrategy = [''i am bike, and it is free'']"
| "strategy_route BusMapStrategy = [''i am bus, and it is big'']"

text \<open>A \<open>Context\<close> is the strategy it owns.\<close>

type_synonym Context = "MapStrategy option"

definition context_do_something :: "Context \<Rightarrow> string list cxx" where
  "context_do_something strategy =
     bind_cxx (case strategy of None \<Rightarrow> Inl Null_deref | Some s \<Rightarrow> Inr (strategy_who s)) (\<lambda>out.
     case strategy of
       None \<Rightarrow> Inr (out @ [''strategy == nullptr''])
     | Some s \<Rightarrow> Inr (out @ strategy_route s @ [''strategy finish'']))"

definition set_strategy :: "MapStrategy option \<Rightarrow> Context \<Rightarrow> Context" where
  "set_strategy str c = str"

definition client_code :: "string list cxx" where
  "client_code =
     (let c0 = Some CarMapStrategy; c1 = set_strategy (Some BusMapStrategy) c0; c2 = set_strategy (Some BikeMapStrategy) c1
      in bind_cxx (context_do_something c0) (\<lambda>o0. bind_cxx (context_do_something c1) (\<lambda>o1.
         bind_cxx (context_do_something c2) (\<lambda>o2. Inr (o0 @ o1 @ o2)))))"

text \<open>The null check comes after the first use: without a strategy the call never gets there.\<close>

lemma context_null_check_dead:
  "context_do_something None = Inl Null_deref"
  "context_do_something c = Inr out \<Longrightarrow> ''strategy == nullptr'' \<notin> set out"
proof -
  show "context_do_something None = Inl Null_deref" by (simp add: context_do_something_def)
  assume "context_do_something c = Inr out"
  then obtain s where "out = strategy_who s @ strategy_route s @ [''strategy finish'']"
    by (auto simp: context_do_something_def split: option.splits)
  then show "''strategy == nullptr'' \<notin> set out" by (cases s) auto
qed

lemma client_code_output:
  "client_code = Inr (concat (map (\<lambda>s. strategy_who s @ strategy_route s @ [''strategy finish''])
     [CarMapStrategy, BusMapStrategy, BikeMapStrategy]))"
  by (simp add: client_code_def context_do_something_def set_strategy_def Let_def)

subsection \<open>Simple factory and factory method\<close>

datatype Product = ProductA | ProductB

fun product_who :: "Product \<Rightarrow> string list" where
  "product_who ProductA = [''I am ProductA'']"
| "product_who ProductB = [''I am ProductB'']"

definition Factory_create :: "string \<Rightarrow> string list \<times> Product option" where
  "Factory_create name =
     (if name = ''ProductA'' then ([], Some ProductA)
      else if name = ''ProductB'' then ([], Some ProductB)
      else ([''No such product''], None))"

lemma Factory_create_known:
  "snd (Factory_create name) \<noteq> None \<longleftrightarrow> name \<in> {''ProductA'', ''ProductB''}"
  "snd (Factory_create name) = Some p \<Longrightarrow> product_who p = [''I am '' @ name]"
  by (auto simp: Factory_create_def split: if_splits)

text \<open>The program of \<open>simple_factory_main.cpp\<close>; \<open>who\<close> through the returned pointer.\<close>

definition product_ptr_who :: "Product option \<Rightarrow> string list cxx" where
  "product_ptr_who p = (case p of None \<Rightarrow> Inl Null_deref | Some q \<Rightarrow> Inr (product_who q))"

definition simple_factory_main :: "string list cxx" where
  "simple_factory_main =
     (let (o1, product_a) = Factory_create ''ProductA''; (o2, product_b) = Factory_create ''ProductB'' in
      bind_cxx (product_ptr_who product_a) (\<lambda>o3.
      bind_cxx (product_ptr_who product_b) (\<lambda>o4. Inr (o1 @ o3 @ o2 @ o4))))"

lemma simple_factory_main_output:
  "simple_factory_main = Inr [''I am ProductA'', ''I am ProductB'']"
  by (simp add: simple_factory_main_def Factory_create_def product_ptr_who_def)

datatype ConcreteProduct = ConcreteProductA | ConcreteProductB

fun product_use :: "ConcreteProduct \<Rightarrow> string list" where
  "product_use ConcreteProductA = [''ConcreteProductA'']"
| "product_use ConcreteProductB = [''ConcreteProductB'']"

definition ConcreteFactoryA_CreateProduct :: ConcreteProduct where
  "ConcreteFactoryA_CreateProduct = ConcreteProductA"

definition ConcreteFactoryB_CreateProduct :: ConcreteProduct where
  "ConcreteFactoryB_CreateProduct = ConcreteProductB"

definition factory_method_main :: "string list" where
  "factory_method_main =
     [''Hello, World!''] @ product_use ConcreteFactoryA_CreateProduct @ product_use ConcreteFactoryB_CreateProduct"

lemma factory_method_main_output:
  "factory_method_main = [''Hello, World!'', ''ConcreteProductA'', ''ConcreteProductB'']"
  by (simp add: factory_method_main_def ConcreteFactoryA_CreateProduct_def ConcreteFactoryB_CreateProduct_def)

subsection \<open>Abstract factory\<close>

record AbstractPhoneProduct =
  call :: "string list"
  bell :: "string list"

record AbstractTvProduct =
  open_tv :: "string list"
  play :: "string list"

record AbstractPcProduct =
  work :: "string list"
  down :: "string list"

record AbstractFactory =
  create_phone :: AbstractPhoneProduct
  create_tv :: AbstractTvProduct
  create_pc :: AbstractPcProduct

definition ApplePhone :: AbstractPhoneProduct where
  "ApplePhone = \<lparr>call = [''Apple Phone call''], bell = [''Apple Phone bell'']\<rparr>"

definition AppleTv :: AbstractTvProduct where
  "AppleTv = \<lparr>open_tv = [''Apple Tv open''], play = [''Apple Tv play'']\<rparr>"

definition ApplePc :: AbstractPcProduct where
  "ApplePc = \<lparr>work = [''Apple Pc''], down = [''Apple Pc down'']\<rparr>"

definition HuaweiPhone :: AbstractPhoneProduct where
  "HuaweiPhone = \<lparr>call = [''Huawei Phone call''], bell = [''Huawei Phone bell'']\<rparr>"

definition HuaweiTv :: AbstractTvProduct where
  "HuaweiTv = \<lparr>open_tv = [''Huawei Tv open''], play = [''Huawei Tv play'']\<rparr>"

definition HuaweiPc :: AbstractPcProduct where
  "HuaweiPc = \<lparr>work = [''Huawei Pc''], down = [''Huawei Pc down'']\<rparr>"

definition XiaomiPhone :: AbstractPhoneProduct where
  "XiaomiPhone = \<lparr>call = [''Xiaomi Phone call''], bell = [''Xiaomi Phone bell'']\<rparr>"

definition XiaomiTv :: AbstractTvProduct where
  "XiaomiTv = \<lparr>open_tv = [''Xiaomi Tv open''], play = [''Xiaomi Tv play'']\<rparr>"

definition XiaomiPc :: AbstractPcProduct where
  "XiaomiPc = \<lparr>work = [''Xiaomi Pc''], down = [''Xiaomi Pc down'']\<rparr>"

definition AppleFactory :: AbstractFactory where
  "AppleFactory = \<lparr>create_phone = ApplePhone, create_tv = AppleTv, create_pc = ApplePc\<rparr>"

definition HuaweiFactory :: AbstractFactory where
  "HuaweiFactory = \<lparr>create_phone = HuaweiPhone, create_tv = HuaweiTv, create_pc = HuaweiPc\<rparr>"

definition XiaomiFactory :: AbstractFactory where
  "XiaomiFactory = \<lparr>create_phone = XiaomiPhone, create_tv = XiaomiTv, create_pc = XiaomiPc\<rparr>"

text \<open>The calls of \<open>abstract_factory_main.cpp\<close> on one factory.\<close>

definition use_factory :: "AbstractFactory \<Rightarrow> string list" where
  "use_factory F =
     bell (create_phone F) @ call (create_phone F) @ down (create_pc F) @ work (create_pc F) @
     play (create_tv F) @ open_tv (create_tv F)"

definition abstract_factory_main :: "string list" where
  "abstract_factory_main = use_factory AppleFactory @ use_factory HuaweiFactory @ use_factory XiaomiFactory"

text \<open>The contract of an abstract factory: everything it makes is of one brand.\<close>

locale product_family =
  fixes F :: AbstractFactory and brand :: string
  assumes phones: "list_all (prefix brand) (call (create_phone F) @ bell (create_phone F))"
    and tvs: "list_all (prefix brand) (open_tv (create_tv F) @ play (create_tv F))"
    and pcs: "list_all (prefix brand) (work (create_pc F) @ down (create_pc F))"
begin

lemma one_brand: "list_all (prefix brand) (use_factory F)"
  using phones tvs pcs by (simp add: use_factory_def)

end

lemmas product_defs = AppleFactory_def HuaweiFactory_def XiaomiFactory_def ApplePhone_def AppleTv_def ApplePc_def
  HuaweiPhone_def HuaweiTv_def HuaweiPc_def XiaomiPhone_def XiaomiTv_def XiaomiPc_def

interpretation apple: product_family AppleFactory "''Apple''"
  by unfold_locales (simp_all add: product_defs)

interpretation huawei: product_family HuaweiFactory "''Huawei''"
  by unfold_locales (simp_all add: product_defs)

interpretation xiaomi: product_family XiaomiFactory "''Xiaomi''"
  by unfold_locales (simp_all add: product_defs)

lemma abstract_factory_main_brands:
  "\<exists>a h x. abstract_factory_main = a @ h @ x \<and> list_all (prefix ''Apple'') a \<and> list_all (prefix ''Huawei'') h \<and>
     list_all (prefix ''Xiaomi'') x"
  using apple.one_brand huawei.one_brand xiaomi.one_brand unfolding abstract_factory_main_def by blast

subsection \<open>Template method and command\<close>

definition library_clock :: "string list" where
  "library_clock = [''clock time is'']"

definition library_get_off_work :: "string list" where
  "library_get_off_work = [''get_off_work time is'']"

definition library_do_bussiness :: "string list" where
  "library_do_bussiness = [''xxx'']"

definition application_do_bussiness :: "string list" where
  "application_do_bussiness = [''goofing'']"

text \<open>\<open>Library::run\<close> with the \<open>do_bussiness\<close> of the object's class.\<close>

definition library_run :: "string list \<Rightarrow> string list" where
  "library_run do_bussiness = library_clock @ do_bussiness @ library_get_off_work"

lemma library_run_order:
  "hd (library_run b) = ''clock time is'' \<and> last (library_run b) = ''get_off_work time is'' \<and>
   butlast (tl (library_run b)) = b"
  by (simp add: library_run_def library_clock_def library_get_off_work_def butlast_append)

definition template_method_main :: "string list" where
  "template_method_main = library_run application_do_bussiness"

lemma template_method_main_output:
  "template_method_main = [''clock time is'', ''goofing'', ''get_off_work time is'']"
  by (simp add: template_method_main_def library_run_def library_clock_def library_get_off_work_def
      application_do_bussiness_def)

text \<open>\<open>PlayCommand::execute\<close> has an empty body and a \<open>bool\<close> result.\<close>

definition PlayCommand_execute :: "bool cxx" where
  "PlayCommand_execute = Inl Missing_return"

definition Received_action :: "string list" where
  "Received_action = ['' Received'']"

end
