(* ===== verification/Sample_Classes.thy ===== *)
theory Sample_Classes
  imports Binary_Float
begin

text \<open>
  The classes and functions behind the unit tests of \<open>example/googletest\<close> and \<open>example/boost\<close>: the
  dictionary class template with its specialisations, the ordering of \<open>TestData\<close>, the overloaded function
  templates and the functions the tests call. An \<open>int\<close> that overflows is an error value.
\<close>

subsection \<open>The class template CommonFileDict\<close>

text \<open>The members \<open>count\<close> and \<open>name\<close> are never written or read.\<close>

record ('k, 'v) ct_dict =
  ct_dict_file :: string
  kv_container :: "'k \<rightharpoonup> 'v"

definition ct_new :: "string \<Rightarrow> ('k, 'v) ct_dict" where
  "ct_new file_name = \<lparr>ct_dict_file = file_name, kv_container = Map.empty\<rparr>"

definition ct_is_exist :: "'k \<Rightarrow> ('k, 'v) ct_dict \<Rightarrow> bool" where
  "ct_is_exist key d \<longleftrightarrow> kv_container d key \<noteq> None"

definition ct_insert :: "'k \<Rightarrow> 'v \<Rightarrow> ('k, 'v) ct_dict \<Rightarrow> ('k, 'v) ct_dict" where
  "ct_insert key val d = d\<lparr>kv_container := (kv_container d)(key \<mapsto> val)\<rparr>"

text \<open>\<open>op_plus\<close> is the operator of the value type.\<close>

definition ct_add ::
  "('v \<Rightarrow> 'v \<Rightarrow> 'v cxx) \<Rightarrow> 'k \<Rightarrow> 'v \<Rightarrow> ('k, 'v) ct_dict \<Rightarrow> ('k, 'v) ct_dict cxx" where
  "ct_add op_plus key val d =
     (case kv_container d key of
        None \<Rightarrow> Inr (d\<lparr>kv_container := (kv_container d)(key \<mapsto> val)\<rparr>)
      | Some old \<Rightarrow> bind_cxx (op_plus old val) (\<lambda>s. Inr (d\<lparr>kv_container := (kv_container d)(key \<mapsto> s)\<rparr>)))"

text \<open>\<open>dflt\<close> is \<open>V()\<close>.\<close>

definition ct_get_value :: "'v \<Rightarrow> 'k \<Rightarrow> ('k, 'v) ct_dict \<Rightarrow> 'v" where
  "ct_get_value dflt key d = (case kv_container d key of Some x \<Rightarrow> x | None \<Rightarrow> dflt)"

text \<open>The full specialisation for \<open>std::string\<close> and \<open>int\<close>.\<close>

definition int_plus :: "int \<Rightarrow> int \<Rightarrow> int cxx" where
  "int_plus x y = int_result (x + y)"

definition ct_full_add :: "string \<Rightarrow> int \<Rightarrow> (string, int) ct_dict \<Rightarrow> (string, int) ct_dict cxx" where
  "ct_full_add key val d =
     (case kv_container d key of
        None \<Rightarrow> Inr (d\<lparr>kv_container := (kv_container d)(key \<mapsto> val)\<rparr>)
      | Some old \<Rightarrow> bind_cxx (int_plus old val) (\<lambda>s. Inr (d\<lparr>kv_container := (kv_container d)(key \<mapsto> s)\<rparr>)))"

definition ct_full_insert :: "string \<Rightarrow> int \<Rightarrow> (string, int) ct_dict \<Rightarrow> (string, int) ct_dict" where
  "ct_full_insert key val d = d\<lparr>kv_container := (kv_container d)(key \<mapsto> val)\<rparr>"

text \<open>The partial specialisation for \<open>std::string\<close> keys in a \<open>std::map\<close>.\<close>

definition ct_partial_insert :: "string \<Rightarrow> 'v \<Rightarrow> (string, 'v) ct_dict \<Rightarrow> (string, 'v) ct_dict" where
  "ct_partial_insert key val d = d"

definition ct_partial_add ::
  "('v \<Rightarrow> 'v \<Rightarrow> 'v cxx) \<Rightarrow> string \<Rightarrow> 'v \<Rightarrow> (string, 'v) ct_dict \<Rightarrow> (string, 'v) ct_dict cxx" where
  "ct_partial_add op_plus key val d =
     (case kv_container d key of
        None \<Rightarrow> Inr (d\<lparr>kv_container := (kv_container d)(key \<mapsto> val)\<rparr>)
      | Some old \<Rightarrow> bind_cxx (op_plus old val) (\<lambda>s. Inr (d\<lparr>kv_container := (kv_container d)(key \<mapsto> s)\<rparr>)))"

lemma ct_lookup_insert:
  "ct_get_value dflt key' (ct_insert key val d) = (if key' = key then val else ct_get_value dflt key' d)"
  "ct_is_exist key' (ct_insert key val d) \<longleftrightarrow> key' = key \<or> ct_is_exist key' d"
  by (simp_all add: ct_get_value_def ct_insert_def ct_is_exist_def)

text \<open>The specialisations agree with the general template, but for the empty \<open>insert\<close>.\<close>

lemma ct_specialisations:
  "ct_full_add = ct_add int_plus" "ct_partial_add op_plus = ct_add op_plus" "ct_full_insert = ct_insert"
  "ct_partial_insert key val d = ct_insert key val d \<longleftrightarrow> kv_container d key = Some val"
  by (auto simp: fun_eq_iff ct_full_add_def ct_add_def ct_partial_add_def ct_full_insert_def ct_insert_def
      ct_partial_insert_def map_upd_triv dest: arg_cong [where f = "\<lambda>d. kv_container d key"])

text \<open>A dictionary of \<open>int\<close> sums up what is added, key by key.\<close>

fun ct_adds :: "('k \<times> int) list \<Rightarrow> ('k, int) ct_dict \<Rightarrow> ('k, int) ct_dict cxx" where
  "ct_adds [] d = Inr d"
| "ct_adds ((key, val) # xs) d = bind_cxx (ct_add int_plus key val d) (ct_adds xs)"

abbreviation total :: "'k \<Rightarrow> ('k \<times> int) list \<Rightarrow> int" where
  "total key xs \<equiv> sum_list (map snd (filter (\<lambda>x. fst x = key) xs))"

lemma ct_add_value:
  "ct_add int_plus key val d = Inr d' \<Longrightarrow>
   ct_get_value 0 key' d' = ct_get_value 0 key' d + (if key' = key then val else 0)"
  by (auto simp: ct_add_def ct_get_value_def int_plus_def bind_cxx_eq_Inr split: option.splits)

lemma ct_adds_total: "ct_adds xs d = Inr d' \<Longrightarrow> ct_get_value 0 key d' = ct_get_value 0 key d + total key xs"
proof (induction xs d rule: ct_adds.induct)
  case (2 k v xs d)
  then obtain e where e: "ct_add int_plus k v d = Inr e" "ct_adds xs e = Inr d'" by (auto simp: bind_cxx_eq_Inr)
  show ?case using 2(1) [OF e(2)] ct_add_value [OF e(1), of key] by simp
qed simp

text \<open>Non-negative values whose totals fit are always accepted.\<close>

lemma total_nonneg: "list_all (\<lambda>x. 0 \<le> snd x) xs \<Longrightarrow> 0 \<le> total key xs"
  by (induction xs) auto

lemma ct_adds_ok:
  assumes "list_all (\<lambda>x. 0 \<le> snd x) xs" "\<And>key. 0 \<le> ct_get_value 0 key d"
    "\<And>key. ct_get_value 0 key d + total key xs < 2 ^ 31"
  shows "\<exists>d'. ct_adds xs d = Inr d'"
  using assms
proof (induction xs d rule: ct_adds.induct)
  case (2 k v xs d)
  have le: "0 \<le> ct_get_value 0 key d + (if key = k then v else 0) \<and>
      ct_get_value 0 key d + (if key = k then v else 0) + total key xs < 2 ^ 31" for key
    using 2(2) 2(3) [of key] 2(4) [of key] by auto
  have "int32_ok (ct_get_value 0 k d + v)" using le [of k] total_nonneg [of xs k] 2(2) by (simp add: int32_ok_def)
  then obtain e where e: "ct_add int_plus k v d = Inr e"
    by (auto simp: ct_add_def ct_get_value_def int_plus_def int_result_def split: option.splits)
  have "\<exists>d'. ct_adds xs e = Inr d'"
    using 2(2) le by (intro 2(1)) (auto simp: ct_add_value [OF e])
  then show ?case using e by simp
qed simp

subsection \<open>TestData\<close>

record TestData =
  td_a :: int
  td_b :: int
  td_name :: string

definition TestData_eq :: "TestData \<Rightarrow> TestData \<Rightarrow> bool" where
  "TestData_eq x y \<longleftrightarrow> td_a x = td_a y \<and> td_b x = td_b y \<and> td_name x = td_name y"

definition TestData_lt :: "TestData \<Rightarrow> TestData \<Rightarrow> bool" where
  "TestData_lt x y \<longleftrightarrow> td_a x < td_a y \<and> td_b x < td_b y"

definition TestData_gt :: "TestData \<Rightarrow> TestData \<Rightarrow> bool" where
  "TestData_gt x y \<longleftrightarrow> td_a x > td_a y \<and> td_b x > td_b y"

text \<open>The data of \<open>test_sort.cpp\<close>.\<close>

definition sort_data :: "TestData list" where
  "sort_data = map (\<lambda>(a, b). \<lparr>td_a = a, td_b = b, td_name = ''abc''\<rparr>) [(1, 2), (2, 3), (5, 6), (4, 5), (5, 6), (3, 4)]"

text \<open>\<open>std::sort\<close> asks that its comparison is irreflexive and transitive, and that being incomparable is transitive.\<close>

definition incomparable :: "TestData \<Rightarrow> TestData \<Rightarrow> bool" where
  "incomparable x y \<longleftrightarrow> \<not> TestData_lt x y \<and> \<not> TestData_lt y x"

lemma TestData_order:
  "\<not> TestData_lt x x" "TestData_lt x y \<Longrightarrow> TestData_lt y z \<Longrightarrow> TestData_lt x z"
  "TestData_gt x y = TestData_lt y x" "TestData_eq x y \<longleftrightarrow> x = y"
  by (auto simp: TestData_lt_def TestData_gt_def TestData_eq_def)

text \<open>In general the last condition fails; for the data of the test it holds.\<close>

lemma TestData_not_weak:
  "\<exists>x y z. incomparable x y \<and> incomparable y z \<and> \<not> incomparable x z"
proof (intro exI conjI)
  show "incomparable \<lparr>td_a = 1, td_b = 1, td_name = []\<rparr> \<lparr>td_a = 0, td_b = 5, td_name = []\<rparr>"
    "incomparable \<lparr>td_a = 0, td_b = 5, td_name = []\<rparr> \<lparr>td_a = 2, td_b = 2, td_name = []\<rparr>"
    "\<not> incomparable \<lparr>td_a = 1, td_b = 1, td_name = []\<rparr> \<lparr>td_a = 2, td_b = 2, td_name = []\<rparr>"
    by (simp_all add: incomparable_def TestData_lt_def)
qed

lemma TestData_chain_weak:
  assumes "list_all (\<lambda>x. td_b x = td_a x + c) xs" "x \<in> set xs" "y \<in> set xs"
  shows "incomparable x y \<longleftrightarrow> td_a x = td_a y"
proof -
  have "td_b x = td_a x + c" "td_b y = td_a y + c" using assms by (auto simp: list_all_iff)
  then show ?thesis by (auto simp: incomparable_def TestData_lt_def)
qed

lemma sort_data_weak:
  "x \<in> set sort_data \<Longrightarrow> y \<in> set sort_data \<Longrightarrow> z \<in> set sort_data \<Longrightarrow>
   incomparable x y \<Longrightarrow> incomparable y z \<Longrightarrow> incomparable x z"
  using TestData_chain_weak [of 1 sort_data] by (simp add: sort_data_def)

subsection \<open>Function templates and functions\<close>

text \<open>The overloads of \<open>add\<close> for strings and for \<open>int\<close>, \<open>decrease\<close> and its specialisation.\<close>

definition add_string :: "string \<Rightarrow> string \<Rightarrow> string" where
  "add_string a b = a @ '' '' @ b"

definition add_int :: "int \<Rightarrow> int \<Rightarrow> int cxx" where
  "add_int a b = int_result (a + b)"

definition decrease_int :: "int \<Rightarrow> int \<Rightarrow> int cxx" where
  "decrease_int a b = int_result (a - b)"

definition decrease_string :: "string \<Rightarrow> string \<Rightarrow> string" where
  "decrease_string a b = b @ '' '' @ a"

text \<open>\<open>add\<close> and \<open>decrease\<close> at \<open>double\<close>: the first scales its arguments.\<close>

definition add_double :: "bfloat \<Rightarrow> bfloat \<Rightarrow> bfloat" where
  "add_double a b = fl_add 53 (fl_mult 53 a (fl_of_nat 53 100)) (fl_mult 53 b (fl_of_nat 53 100))"

definition decrease_double :: "bfloat \<Rightarrow> bfloat \<Rightarrow> bfloat" where
  "decrease_double a b = fl_add 53 a (fl_neg b)"

definition foo_int :: int where
  "foo_int = 10"

text \<open>The assertions of \<open>test_func_template.cpp\<close>.\<close>

definition override_include_test :: "bool list" where
  "override_include_test =
     (let a = ''hello''; b = ''word''
      in [add_string a b = ''hello word'', add_int 1 1 = Inr 2,
          fl_eq (add_double (fl_of_nat 53 10) (fl_of_nat 53 10)) (fl_of_nat 53 2000)])"

definition decrease_test :: "bool list" where
  "decrease_test =
     (let a = ''hello''; b = ''word''
      in [decrease_string a b = ''word hello'', decrease_int 1 1 = Inr 0,
          fl_eq (decrease_double (fl_of_nat 53 10) (fl_of_nat 53 10)) (fl_of_nat 53 0), foo_int = 10])"

lemma func_template_tests: "list_all id override_include_test" "list_all id decrease_test"
  by (simp_all add: override_include_test_def decrease_test_def add_string_def decrease_string_def add_int_def decrease_int_def
      add_double_def decrease_double_def foo_int_def fl_of_nat_def fl_mult_def fl_add_def fl_exact_add_def fl_neg_def fl_eq_def
      fl_round_small int_result_def int32_ok_def)

lemma decrease_swaps_add: "decrease_string a b = add_string b a"
  by (simp add: decrease_string_def add_string_def)

lemma add_decrease_int: "add_int a b = Inr s \<Longrightarrow> int32_ok a \<Longrightarrow> decrease_int s b = Inr a"
  by (auto simp: add_int_def decrease_int_def)

record Res =
  res_type :: int
  res_id :: string
  res_name :: string

definition func_optional :: "int list \<Rightarrow> Res option" where
  "func_optional result =
     (if length result = 0 then Some \<lparr>res_type = 1, res_id = ''id'', res_name = ''name''\<rparr> else None)"

definition asan_f :: "int cxx" where
  "asan_f = (let a = [1, 0] :: int list; i = 1 in if i < length a then Inr (a ! i) else Inl Invalid_access)"

definition print_func2 :: "string \<Rightarrow> int \<Rightarrow> int \<Rightarrow> int cxx" where
  "print_func2 nm a b = int_result (a + b)"

lemma asan_f_in_bounds: "asan_f = Inr 0"
  by (simp add: asan_f_def)

subsection \<open>Callables\<close>

function Factorial_loop :: "int \<Rightarrow> int \<Rightarrow> int \<Rightarrow> int cxx" where
  "Factorial_loop i n result =
     (if i \<le> n
      then bind_cxx (int_result (result * i)) (\<lambda>r. bind_cxx (int_result (i + 1)) (\<lambda>j. Factorial_loop (i + 1) n r))
      else Inr result)"
  by pat_completeness auto
termination
  by (relation "measure (\<lambda>(i, n, result). nat (n + 1 - i))") auto

declare Factorial_loop.simps [simp del]

definition Factorial :: "int \<Rightarrow> int cxx" where
  "Factorial n = Factorial_loop 1 n 1"

definition func_lambda :: "int \<Rightarrow> int cxx" where
  "func_lambda a = int_result (a + 10)"

record CompareObject =
  co_x :: int

definition CompareObject_new :: CompareObject where
  "CompareObject_new = \<lparr>co_x = 0\<rparr>"

definition CompareObject_call0 :: "CompareObject \<Rightarrow> int" where
  "CompareObject_call0 c = co_x c"

definition CompareObject_call :: "CompareObject \<Rightarrow> int \<Rightarrow> int cxx" where
  "CompareObject_call c a = int_result (co_x c + a)"

definition Base_add :: "int \<Rightarrow> int cxx" where
  "Base_add a = int_result (a * a)"

lemma fact_int32: "int32_ok (fact m) \<longleftrightarrow> m \<le> 12"
proof (cases "m \<le> 12")
  case True
  then have "(fact m :: int) \<le> fact 12" by (rule fact_mono)
  moreover have "- (2 ^ 31) \<le> (fact m :: int)" by (rule order_trans [of _ 0]) simp_all
  ultimately show ?thesis using True by (simp add: int32_ok_def fact_numeral)
next
  case False
  then have "(fact 13 :: int) \<le> fact m" by (intro fact_mono) simp
  then show ?thesis using False by (simp add: int32_ok_def fact_numeral)
qed

lemma Factorial_loop_result:
  assumes "k \<le> m" "k \<le> 12"
  shows "Factorial_loop (int k + 1) (int m) (fact k) = (if m \<le> 12 then Inr (fact m) else Inl Signed_overflow)"
  using assms
proof (induction k rule: inc_induct)
  case base
  then show ?case by (simp add: Factorial_loop.simps)
next
  case (step k)
  have f: "fact k * (int k + 1) = fact (Suc k)" by (simp add: algebra_simps)
  have "Factorial_loop (int k + 1) (int m) (fact k) =
      bind_cxx (int_result (fact (Suc k))) (\<lambda>r. bind_cxx (int_result (int k + 1 + 1)) (\<lambda>j. Factorial_loop (int k + 1 + 1) (int m) r))"
    using step(2) unfolding f [symmetric] by (subst Factorial_loop.simps) simp
  then show ?case using step fact_int32 [of "Suc k"]
    by (cases "Suc k \<le> 12") (auto simp: int_result_def int32_ok_def add.commute simp del: fact_Suc)
qed

lemma Factorial_result:
  "Factorial n = (if n \<le> 12 then Inr (fact (nat n)) else Inl Signed_overflow)"
proof (cases "0 \<le> n")
  case True
  then show ?thesis using Factorial_loop_result [of 0 "nat n"] by (auto simp: Factorial_def)
next
  case False
  then show ?thesis by (simp add: Factorial_def Factorial_loop.simps)
qed

text \<open>The assertions of \<open>function_test.cpp\<close>.\<close>

lemma callback_test:
  "Factorial (- 1) = Inr 1" "func_lambda 0 = Inr 10" "CompareObject_call CompareObject_new 10 = Inr 10" "Base_add 2 = Inr 4"
  by (simp_all add: Factorial_result func_lambda_def CompareObject_call_def CompareObject_new_def Base_add_def int32_ok_def)

end
