(* ===== verification/Sample_Objects.thy ===== *)
theory Sample_Objects
  imports Prelude
begin

text \<open>
  Object lifetimes in the unit tests: the class template \<open>UnitTestClass\<close> of \<open>example/googletest/test_class.h\<close>,
  which prints a line whenever an object is created, copied, moved or destroyed, the functions over it, the tests that
  count those lines (\<open>test_optional.cpp\<close>, \<open>test_future.cpp\<close>) and the vectors that two tests destroy by hand.
\<close>

subsection \<open>UnitTestClass\<close>

datatype unit_line = Construct | Destruct | Copy_construct | Move_construct | Copy_assign | Move_assign | Shows string

text \<open>The objects that are alive with their data, the number of objects created so far, and the lines printed.\<close>

record 'a units =
  alive :: "(nat \<times> 'a) list"
  created :: nat
  lines_printed :: "unit_line list"

definition no_units :: "'a units" where
  "no_units = \<lparr>alive = [], created = 0, lines_printed = []\<rparr>"

definition print_unit_line :: "unit_line \<Rightarrow> 'a units \<Rightarrow> 'a units" where
  "print_unit_line l u = u\<lparr>lines_printed := lines_printed u @ [l]\<rparr>"

definition data_of :: "nat \<Rightarrow> 'a units \<Rightarrow> 'a cxx" where
  "data_of x u = (case map_of (alive u) x of None \<Rightarrow> Inl Invalid_access | Some v \<Rightarrow> Inr v)"

definition set_data :: "nat \<Rightarrow> 'a \<Rightarrow> 'a units \<Rightarrow> 'a units" where
  "set_data x v u = u\<lparr>alive := map (\<lambda>(y, w). (y, if y = x then v else w)) (alive u)\<rparr>"

definition new_unit :: "'a \<Rightarrow> 'a units \<Rightarrow> 'a units" where
  "new_unit v u = u\<lparr>alive := (created u, v) # alive u, created := created u + 1\<rparr>"

text \<open>The constructors return the new object.\<close>

definition unit_construct :: "'a \<Rightarrow> 'a units \<Rightarrow> nat \<times> 'a units" where
  "unit_construct s u = (created u, print_unit_line Construct (new_unit s u))"

definition unit_copy :: "nat \<Rightarrow> 'a units \<Rightarrow> (nat \<times> 'a units) cxx" where
  "unit_copy x u = bind_cxx (data_of x u) (\<lambda>v. Inr (created u, print_unit_line Copy_construct (new_unit v u)))"

text \<open>\<open>moved\<close> is what moving from a value of the type leaves behind.\<close>

definition unit_move :: "('a \<Rightarrow> 'a) \<Rightarrow> nat \<Rightarrow> 'a units \<Rightarrow> (nat \<times> 'a units) cxx" where
  "unit_move moved x u =
     bind_cxx (data_of x u) (\<lambda>v. Inr (created u, print_unit_line Move_construct (set_data x (moved v) (new_unit v u))))"

definition unit_copy_assign :: "nat \<Rightarrow> nat \<Rightarrow> 'a units \<Rightarrow> 'a units cxx" where
  "unit_copy_assign x y u =
     bind_cxx (data_of x u) (\<lambda>_. bind_cxx (data_of y u) (\<lambda>v. Inr (print_unit_line Copy_assign (set_data x v u))))"

definition unit_move_assign :: "('a \<Rightarrow> 'a) \<Rightarrow> nat \<Rightarrow> nat \<Rightarrow> 'a units \<Rightarrow> 'a units cxx" where
  "unit_move_assign moved x y u =
     bind_cxx (data_of x u) (\<lambda>_. bind_cxx (data_of y u) (\<lambda>v.
       Inr (print_unit_line Move_assign (set_data y (moved v) (set_data x v u)))))"

definition unit_destruct :: "nat \<Rightarrow> 'a units \<Rightarrow> 'a units cxx" where
  "unit_destruct x u =
     bind_cxx (data_of x u) (\<lambda>_. Inr (print_unit_line Destruct (u\<lparr>alive := filter (\<lambda>p. fst p \<noteq> x) (alive u)\<rparr>)))"

subsection \<open>The functions\<close>

text \<open>The compiler may build the local variable in place of the result (\<open>elide\<close>); otherwise it is moved.\<close>

definition get_copy_obj :: "('a \<Rightarrow> 'a) \<Rightarrow> bool \<Rightarrow> 'a \<Rightarrow> 'a units \<Rightarrow> (nat \<times> 'a units) cxx" where
  "get_copy_obj moved elide val u =
     (let (unit, u1) = unit_construct val u
      in if elide then Inr (unit, u1)
         else bind_cxx (unit_move moved unit u1) (\<lambda>(res, u2). bind_cxx (unit_destruct unit u2) (\<lambda>u3. Inr (res, u3))))"

text \<open>The parameter is destroyed when the function returns.\<close>

definition copy_obj :: "nat \<Rightarrow> 'a units \<Rightarrow> 'a units cxx" where
  "copy_obj obj u = unit_destruct obj u"

definition OptFunc :: "nat option \<Rightarrow> string units \<Rightarrow> string units cxx" where
  "OptFunc x u =
     (case x of
        None \<Rightarrow> Inl Invalid_access
      | Some y \<Rightarrow> bind_cxx (data_of y u) (\<lambda>v. unit_destruct y (print_unit_line (Shows v) u)))"

definition DefaultFunc :: "nat \<Rightarrow> string units \<Rightarrow> string units cxx" where
  "DefaultFunc x u = bind_cxx (data_of x u) (\<lambda>v. Inr (print_unit_line (Shows v) u))"

subsection \<open>Every object is destroyed once\<close>

definition creations :: "unit_line list \<Rightarrow> nat" where
  "creations ls = length (filter (\<lambda>l. l \<in> {Construct, Copy_construct, Move_construct}) ls)"

definition destructions :: "unit_line list \<Rightarrow> nat" where
  "destructions ls = length (filter (\<lambda>l. l = Destruct) ls)"

definition units_inv :: "'a units \<Rightarrow> bool" where
  "units_inv u \<longleftrightarrow> distinct (map fst (alive u)) \<and> (\<forall>x \<in> fst ` set (alive u). x < created u) \<and>
     creations (lines_printed u) = created u \<and> length (alive u) + destructions (lines_printed u) = created u"

lemma line_counts [simp]:
  "creations (ls @ [l]) = creations ls + (if l \<in> {Construct, Copy_construct, Move_construct} then 1 else 0)"
  "destructions (ls @ [l]) = destructions ls + (if l = Destruct then 1 else 0)"
  "creations [] = 0" "destructions [] = 0"
  by (simp_all add: creations_def destructions_def)

lemma set_data_keys [simp]:
  "map fst (alive (set_data x v u)) = map fst (alive u)" "fst ` set (alive (set_data x v u)) = fst ` set (alive u)"
  "length (alive (set_data x v u)) = length (alive u)"
  "created (set_data x v u) = created u" "lines_printed (set_data x v u) = lines_printed u"
  by (simp_all add: set_data_def comp_def case_prod_beta image_image)

lemma data_of_set_data: "data_of y (set_data x v u) = (if y = x then map_sum id (\<lambda>_. v) (data_of x u) else data_of y u)"
proof -
  have "map_of (map (\<lambda>(y, w). (y, if y = x then v else w)) xs) y =
      (if y = x then map_option (\<lambda>_. v) (map_of xs x) else map_of xs y)" for xs
    by (induction xs) auto
  then show ?thesis by (auto simp: data_of_def set_data_def split: option.splits)
qed

lemma data_of_new: "data_of y (new_unit v u) = (if y = created u then Inr v else data_of y u)"
  by (simp add: data_of_def new_unit_def)

lemma data_of_print [simp]: "data_of y (print_unit_line l u) = data_of y u"
  by (simp add: data_of_def print_unit_line_def)

lemma data_of_alive: "data_of x u = Inr v \<Longrightarrow> x \<in> fst ` set (alive u)"
  by (auto simp: data_of_def split: option.splits dest: map_of_SomeD) (force dest: map_of_SomeD)

lemma length_remove_key:
  "distinct (map fst xs) \<Longrightarrow> x \<in> fst ` set xs \<Longrightarrow> Suc (length (filter (\<lambda>p. fst p \<noteq> x) xs)) = length xs"
proof (induction xs)
  case (Cons a xs)
  have "filter (\<lambda>p. fst p \<noteq> fst a) xs = xs" using Cons(2) by (auto simp: filter_id_conv rev_image_eqI)
  then show ?case using Cons by auto
qed simp

lemma units_inv_start [simp]: "units_inv no_units"
  by (simp add: units_inv_def no_units_def)

lemma print_unit_line_simps [simp]:
  "lines_printed (print_unit_line l u) = lines_printed u @ [l]" "alive (print_unit_line l u) = alive u"
  "created (print_unit_line l u) = created u"
  by (simp_all add: print_unit_line_def)

lemma units_inv_set_data [simp]: "units_inv (set_data x v u) \<longleftrightarrow> units_inv u"
  unfolding units_inv_def set_data_keys by (rule refl)

lemma units_inv_line:
  "l \<notin> {Construct, Copy_construct, Move_construct, Destruct} \<Longrightarrow> units_inv (print_unit_line l u) \<longleftrightarrow> units_inv u"
  by (simp add: units_inv_def)

text \<open>A new object, whose constructor prints one line.\<close>

lemma units_inv_new:
  assumes "units_inv u" "l \<in> {Construct, Copy_construct, Move_construct}"
  shows "units_inv (print_unit_line l (new_unit v u))" "units_inv (print_unit_line l (set_data x w (new_unit v u)))"
proof -
  have *: "k < created u" if "k \<in> fst ` set (alive u)" for k using assms(1) that by (auto simp: units_inv_def)
  have **: "created u \<notin> fst ` set (alive u)" using * [of "created u"] by auto
  have ***: "k < Suc (created u)" if "k \<in> fst ` set (alive u)" for k using * [OF that] by simp
  have n: "map fst (alive (new_unit v u)) = created u # map fst (alive u)"
    "fst ` set (alive (new_unit v u)) = insert (created u) (fst ` set (alive u))"
    "length (alive (new_unit v u)) = Suc (length (alive u))"
    "created (new_unit v u) = Suc (created u)" "lines_printed (new_unit v u) = lines_printed u"
    by (simp_all add: new_unit_def)
  have l: "l \<noteq> Destruct" using assms(2) by auto
  show "units_inv (print_unit_line l (new_unit v u))" "units_inv (print_unit_line l (set_data x w (new_unit v u)))"
    using assms ** *** l unfolding units_inv_def print_unit_line_simps n set_data_keys line_counts by simp_all
qed

lemma units_inv_construct: "units_inv u \<Longrightarrow> unit_construct s u = (x, u') \<Longrightarrow> units_inv u'"
  by (auto simp: unit_construct_def units_inv_new)

lemma units_inv_copy: "units_inv u \<Longrightarrow> unit_copy x u = Inr (y, u') \<Longrightarrow> units_inv u'"
  by (auto simp: unit_copy_def bind_cxx_eq_Inr units_inv_new)

lemma units_inv_move: "units_inv u \<Longrightarrow> unit_move moved x u = Inr (y, u') \<Longrightarrow> units_inv u'"
  by (auto simp: unit_move_def bind_cxx_eq_Inr units_inv_new)

lemma units_inv_assign:
  "units_inv u \<Longrightarrow> unit_copy_assign x y u = Inr u' \<Longrightarrow> units_inv u'"
  "units_inv u \<Longrightarrow> unit_move_assign moved x y u = Inr u' \<Longrightarrow> units_inv u'"
  by (auto simp: unit_copy_assign_def unit_move_assign_def bind_cxx_eq_Inr units_inv_line)

lemma units_inv_destruct:
  assumes "units_inv u" "unit_destruct x u = Inr u'"
  shows "units_inv u'"
proof -
  obtain v where v: "data_of x u = Inr v" and u': "u' = print_unit_line Destruct (u\<lparr>alive := filter (\<lambda>p. fst p \<noteq> x) (alive u)\<rparr>)"
    using assms(2) by (auto simp: unit_destruct_def bind_cxx_eq_Inr)
  have "Suc (length (filter (\<lambda>p. fst p \<noteq> x) (alive u))) = length (alive u)"
    using assms(1) data_of_alive [OF v] by (intro length_remove_key) (simp_all add: units_inv_def)
  then show ?thesis using assms(1) by (auto simp: u' units_inv_def distinct_map_filter)
qed

lemma units_inv_get_copy_obj:
  assumes "units_inv u" "get_copy_obj moved elide v u = Inr (x, u')"
  shows "units_inv u'"
proof -
  obtain c u1 where c: "unit_construct v u = (c, u1)" by (rule prod.exhaust)
  show ?thesis using assms(2) units_inv_construct [OF assms(1) c]
    by (auto simp: get_copy_obj_def c bind_cxx_eq_Inr split: if_splits intro: units_inv_destruct units_inv_move)
qed

text \<open>With or without the optimisation the caller gets one object with the value, and one more object is alive.\<close>

lemma get_copy_obj_result:
  assumes "units_inv u"
  shows "\<exists>x u'. get_copy_obj moved elide v u = Inr (x, u') \<and> data_of x u' = Inr v \<and>
    length (alive u') = length (alive u) + 1 \<and> Copy_construct \<notin> set (drop (length (lines_printed u)) (lines_printed u'))"
proof -
  have "created u \<notin> fst ` set (alive u)" using assms by (auto simp: units_inv_def)
  then have f: "filter (\<lambda>p. fst p \<noteq> created u) (alive u) = alive u" by (auto simp: filter_id_conv rev_image_eqI)
  show ?thesis
    by (cases elide)
      (simp_all add: get_copy_obj_def unit_construct_def unit_move_def unit_destruct_def data_of_def new_unit_def
        set_data_def print_unit_line_def f comp_def case_prod_beta filter_map)
qed

subsection \<open>The tests\<close>

definition obj_copy_test :: "(int \<Rightarrow> int) \<Rightarrow> bool \<Rightarrow> (int \<times> int units) cxx" where
  "obj_copy_test moved elide =
     bind_cxx (get_copy_obj moved elide 42 no_units) (\<lambda>(tmp, u).
     bind_cxx (data_of tmp u) (\<lambda>v. bind_cxx (unit_destruct tmp u) (\<lambda>u'. Inr (v, u'))))"

definition optional_opt_test :: "string units cxx" where
  "optional_opt_test =
     (let (unit, u0) = unit_construct ''unit_test'' no_units
      in bind_cxx (unit_copy unit u0) (\<lambda>(a, u1).
         bind_cxx (OptFunc (Some a) u1) (\<lambda>u2.
         let (b, u3) = unit_construct ''unit_test1'' u2
         in bind_cxx (OptFunc (Some b) u3) (\<lambda>u4.
            bind_cxx (DefaultFunc unit u4) (\<lambda>u5.
            let (c, u6) = unit_construct ''unit_test2'' u5
            in bind_cxx (DefaultFunc c u6) (\<lambda>u7. bind_cxx (unit_destruct c u7) (unit_destruct unit)))))))"

lemma obj_copy_test_result:
  "\<exists>u. obj_copy_test moved elide = Inr (42, u) \<and> alive u = [] \<and> creations (lines_printed u) = (if elide then 1 else 2) \<and>
     destructions (lines_printed u) = creations (lines_printed u)"
  by (simp add: obj_copy_test_def get_copy_obj_def unit_construct_def unit_move_def unit_destruct_def data_of_def
      new_unit_def set_data_def print_unit_line_def no_units_def creations_def destructions_def)

text \<open>One copy, where an lvalue goes into an optional. The sections headed ``move'' move nothing: the optional's object
  and the temporary are built in place.\<close>

lemma optional_opt_test_lines:
  "map_sum id lines_printed optional_opt_test = Inr
     [Construct, Copy_construct, Shows ''unit_test'', Destruct, Construct, Shows ''unit_test1'', Destruct,
      Shows ''unit_test'', Construct, Shows ''unit_test2'', Destruct, Destruct]"
  "map_sum id alive optional_opt_test = Inr []"
  by (simp_all add: optional_opt_test_def OptFunc_def DefaultFunc_def unit_construct_def unit_copy_def unit_destruct_def
      data_of_def new_unit_def print_unit_line_def no_units_def)

subsection \<open>Vectors destroyed by hand\<close>

text \<open>\<open>None\<close> is a vector whose destructor has run.\<close>

definition vec_size :: "'a list option \<Rightarrow> nat cxx" where
  "vec_size v = (case v of None \<Rightarrow> Inl Invalid_access | Some xs \<Rightarrow> Inr (length xs))"

definition vec_push_back :: "'a \<Rightarrow> 'a list option \<Rightarrow> 'a list option cxx" where
  "vec_push_back x v = (case v of None \<Rightarrow> Inl Invalid_access | Some xs \<Rightarrow> Inr (Some (xs @ [x])))"

text \<open>Direct list initialisation with one number: where it converts to the element type the vector has that one
  element, otherwise the number is a count of default elements.\<close>

definition braced_vector :: "(nat \<Rightarrow> 'a option) \<Rightarrow> 'a \<Rightarrow> nat \<Rightarrow> 'a list option" where
  "braced_vector convert dflt n = Some (case convert n of Some x \<Rightarrow> [x] | None \<Rightarrow> replicate n dflt)"

text \<open>\<open>TEST(SkillTrait1, SkillTraitVector1)\<close>: the sizes printed before and after the explicit destructor call, and at
  the end, when the vector has been built again in its place.\<close>

definition SkillTraitVector1 :: "nat list cxx" where
  "SkillTraitVector1 =
     (let datas = Some (map (\<lambda>(a, b). (a, b, ''abc'')) [(1 :: int, 2 :: int), (2, 3), (5, 6), (4, 5), (5, 6), (3, 4)]);
          destroyed = None :: (int \<times> int \<times> string) list option;
          again = braced_vector (\<lambda>_. None) (0 :: int, 0 :: int, []) 1
      in bind_cxx (vec_size datas) (\<lambda>n1.
         bind_cxx (vec_size destroyed) (\<lambda>n2.
         bind_cxx (vec_push_back (1, 2, ''abc'') again) (\<lambda>v.
         bind_cxx (vec_size v) (\<lambda>n3. Inr [n1, n2, n3])))))"

text \<open>\<open>TEST(SkillTrait, SkillTraitVector)\<close>: the sizes its two assertions compare with 0 and 7.\<close>

definition rebuilt_ints :: "int list option cxx" where
  "rebuilt_ints = vec_push_back 1 (braced_vector (\<lambda>n. Some (int n)) 0 6)"

definition SkillTraitVector :: "(nat \<times> nat) cxx" where
  "SkillTraitVector =
     bind_cxx (vec_size (None :: int list option)) (\<lambda>n1.
     bind_cxx rebuilt_ints (\<lambda>v. bind_cxx (vec_size v) (\<lambda>n2. Inr (n1, n2))))"

text \<open>Both tests read the size of a vector that no longer exists. The vectors built again hold two elements: for the
  first test as it asserts, for the second one not, since the number in braces is an element.\<close>

lemma SkillTraitVector_results:
  "SkillTraitVector1 = Inl Invalid_access" "SkillTraitVector = Inl Invalid_access"
  "bind_cxx (vec_push_back x (braced_vector (\<lambda>_. None) d 1)) vec_size = Inr 2"
  "bind_cxx rebuilt_ints vec_size = Inr 2"
  by (simp_all add: SkillTraitVector1_def SkillTraitVector_def rebuilt_ints_def braced_vector_def vec_size_def
      vec_push_back_def Let_def)

end
