(* ===== verification/Sample_Threads.thy ===== *)
theory Sample_Threads
  imports Prelude "HOL-Library.Multiset"
begin

text \<open>
  The threads of the sample programs: atomic counters incremented by several threads
  (\<open>example/protobuf/main.cpp\<close>, \<open>example/performance_units/debug_cache_line.cpp\<close>) and the thread-local
  counter of \<open>example/googletest/base.h\<close>. An atomic increment is one step; a schedule names the thread
  that runs next.
\<close>

subsection \<open>Atomic counters\<close>

text \<open>The atomic cells (arithmetic on them wraps), and for each thread its cell and the iterations left.\<close>

record counters =
  cells :: "nat \<Rightarrow> 32 word"
  workers :: "(nat \<times> nat) list"

definition work_step :: "nat \<Rightarrow> counters \<Rightarrow> counters" where
  "work_step t s =
     (let (c, n) = workers s ! t
      in s\<lparr>cells := (cells s)(c := cells s c + 1), workers := (workers s)[t := (c, n - 1)]\<rparr>)"

inductive counters_step :: "counters \<Rightarrow> counters \<Rightarrow> bool" where
  iterate: "t < length (workers s) \<Longrightarrow> 0 < snd (workers s ! t) \<Longrightarrow> counters_step s (work_step t s)"

inductive_cases counters_stepE: "counters_step s s'"

definition all_joined :: "counters \<Rightarrow> bool" where
  "all_joined s \<longleftrightarrow> list_all (\<lambda>w. snd w = 0) (workers s)"

definition sum_main_start :: counters where
  "sum_main_start = \<lparr>cells = (\<lambda>_. 0), workers = [(0, 10000), (0, 10000)]\<rparr>"

definition sharing_start :: counters where
  "sharing_start = \<lparr>cells = (\<lambda>_. 0), workers = [(0, 100000000), (1, 100000000)]\<rparr>"

definition pending :: "nat \<Rightarrow> counters \<Rightarrow> nat" where
  "pending c s = sum_list (map (\<lambda>w. if fst w = c then snd w else 0) (workers s))"

lemma pending_step:
  assumes "counters_step s s'"
  shows "cells s' c + word_of_nat (pending c s') = cells s c + word_of_nat (pending c s)"
    and "sum_list (map snd (workers s')) < sum_list (map snd (workers s))"
proof -
  obtain t where t: "t < length (workers s)" "0 < snd (workers s ! t)" and s': "s' = work_step t s"
    using assms by (rule counters_stepE)
  obtain d n where w: "workers s ! t = (d, Suc n)" using t(2) by (cases "workers s ! t") (auto simp: gr0_conv_Suc)
  have le: "(if d = c then Suc n else 0) \<le> pending c s"
    using t(1) w member_le_sum_list [of "if d = c then Suc n else 0" "map (\<lambda>w. if fst w = c then snd w else 0) (workers s)"]
    by (force simp: pending_def in_set_conv_nth)
  have "pending c s = pending c s' + (if d = c then 1 else 0)"
    using le t(1) by (auto simp: s' work_step_def w pending_def map_update sum_list_update)
  then show "cells s' c + word_of_nat (pending c s') = cells s c + word_of_nat (pending c s)"
    by (auto simp: s' work_step_def w)
  have "Suc n \<le> sum_list (map snd (workers s))"
    using t(1) w member_le_sum_list [of "Suc n" "map snd (workers s)"] by (force simp: in_set_conv_nth)
  then show "sum_list (map snd (workers s')) < sum_list (map snd (workers s))"
    using t(1) by (simp add: s' work_step_def w map_update sum_list_update)
qed

lemma counters_conserved:
  "counters_step\<^sup>*\<^sup>* s s' \<Longrightarrow> cells s' c + word_of_nat (pending c s') = cells s c + word_of_nat (pending c s)"
  by (induction rule: rtranclp_induct) (auto simp: pending_step(1))

lemma joined_pending: "all_joined s \<Longrightarrow> pending c s = 0"
  by (auto simp: all_joined_def pending_def list_all_iff)

text \<open>However the threads interleave, each counter ends with all increments made to it.\<close>

lemma counters_final:
  "counters_step\<^sup>*\<^sup>* s s' \<Longrightarrow> all_joined s' \<Longrightarrow> cells s' c = cells s c + word_of_nat (pending c s)"
  using counters_conserved [of s s' c] by (simp add: joined_pending)

text \<open>The threads always finish: a state that is not final has a step, and steps cannot go on for ever.\<close>

lemma counters_progress: "\<not> all_joined s \<Longrightarrow> \<exists>s'. counters_step s s'"
proof -
  assume "\<not> all_joined s"
  then obtain w where "w \<in> set (workers s)" "0 < snd w" by (auto simp: all_joined_def list_all_iff)
  then obtain t where "t < length (workers s)" "0 < snd (workers s ! t)" by (metis in_set_conv_nth)
  then show ?thesis by (blast intro: iterate)
qed

lemma counters_terminate: "\<exists>s'. counters_step\<^sup>*\<^sup>* s s' \<and> all_joined s'"
proof (induction "sum_list (map snd (workers s))" arbitrary: s rule: less_induct)
  case less
  show ?case
  proof (cases "all_joined s")
    case False
    then obtain s1 where s1: "counters_step s s1" using counters_progress by blast
    from less(1) [OF pending_step(2) [OF s1]] show ?thesis
      using s1 by (meson converse_rtranclp_into_rtranclp)
  qed blast
qed

lemma sum_main_prints:
  "counters_step\<^sup>*\<^sup>* sum_main_start s \<Longrightarrow> all_joined s \<Longrightarrow> cells s 0 = 20000"
  by (simp add: counters_final [of sum_main_start s 0]) (simp add: sum_main_start_def pending_def)

lemma sharing_prints:
  "counters_step\<^sup>*\<^sup>* sharing_start s \<Longrightarrow> all_joined s \<Longrightarrow> cells s 0 = 100000000 \<and> cells s 1 = 100000000"
  using counters_final [of sharing_start s 0] counters_final [of sharing_start s 1]
  by (simp add: sharing_start_def pending_def)

text \<open>The two examples of \<open>debug_cache_line.cpp\<close> run one after the other; the times they print are given.\<close>

definition no_sharing_start :: counters where
  "no_sharing_start = \<lparr>cells = (\<lambda>_. 0), workers = [(0, 100000000), (1, 100000000)]\<rparr>"

definition print_counters :: "string \<Rightarrow> string \<Rightarrow> counters \<Rightarrow> string list" where
  "print_counters what time s =
     [what @ '' time: '' @ time @ '' seconds'',
      ''Counter1: '' @ show_int (sint (cells s 0)) @ '', Counter2: '' @ show_int (sint (cells s 1))]"

inductive cache_line_main :: "string \<Rightarrow> string \<Rightarrow> string list \<Rightarrow> bool" for time1 time2 where
  "counters_step\<^sup>*\<^sup>* sharing_start s1 \<Longrightarrow> all_joined s1 \<Longrightarrow> counters_step\<^sup>*\<^sup>* no_sharing_start s2 \<Longrightarrow> all_joined s2 \<Longrightarrow>
   cache_line_main time1 time2
     ([''=== False Sharing Example ===''] @ print_counters ''False sharing'' time1 s1 @
      [[], ''=== No False Sharing Example ===''] @ print_counters ''No false sharing'' time2 s2)"

text \<open>Whatever the layout and the schedules, both examples print the same counters.\<close>

lemma cache_line_main_prints:
  "cache_line_main time1 time2 out \<longleftrightarrow>
   out = [''=== False Sharing Example ==='', ''False sharing time: '' @ time1 @ '' seconds'', ''Counter1: 100000000, Counter2: 100000000'',
     [], ''=== No False Sharing Example ==='', ''No false sharing time: '' @ time2 @ '' seconds'', ''Counter1: 100000000, Counter2: 100000000'']"
proof -
  have same: "no_sharing_start = sharing_start" by (simp add: no_sharing_start_def sharing_start_def)
  have digits: "char_of (48 :: nat) = CHR ''0''" "char_of (49 :: nat) = CHR ''1''" by code_simp+
  have d: "show_int (sint (100000000 :: 32 word)) = ''100000000''"
    by (simp add: show_int_def decimal.simps digits)
  have p: "print_counters what time s = [what @ '' time: '' @ time @ '' seconds'', ''Counter1: 100000000, Counter2: 100000000'']"
    if "counters_step\<^sup>*\<^sup>* sharing_start s" "all_joined s" for what time s
    using sharing_prints [OF that] d by (simp add: print_counters_def)
  obtain s where s: "counters_step\<^sup>*\<^sup>* sharing_start s" "all_joined s" using counters_terminate by blast
  have runs: "cache_line_main time1 time2 ([''=== False Sharing Example ===''] @ print_counters ''False sharing'' time1 s @
      [[], ''=== No False Sharing Example ===''] @ print_counters ''No false sharing'' time2 s)"
    using s by (intro cache_line_main.intros) (simp_all add: same)
  show ?thesis (is "_ \<longleftrightarrow> out = ?out")
  proof
    assume "cache_line_main time1 time2 out"
    then show "out = ?out"
    proof cases
      case (1 s1 s2)
      then show ?thesis by (simp add: same p [of s1] p [of s2])
    qed
  next
    assume "out = ?out"
    then show "cache_line_main time1 time2 out" using runs by (simp add: p [OF s])
  qed
qed

subsection \<open>Cache lines\<close>

text \<open>The offsets the language's layout rule gives to members with their sizes and alignments.\<close>

fun member_offsets :: "nat \<Rightarrow> (nat \<times> nat) list \<Rightarrow> nat list" where
  "member_offsets pos [] = []"
| "member_offsets pos ((sz, al) # ms) = (let off = (pos + al - 1) div al * al in off # member_offsets (off + sz) ms)"

definition FalseSharingData :: "nat list" where
  "FalseSharingData = member_offsets 0 [(4, 4), (4, 4)]"

definition AlignedData :: "nat list" where
  "AlignedData = member_offsets 0 [(4, 64), (4, 64)]"

definition cache_line :: "nat \<Rightarrow> nat \<Rightarrow> nat" where
  "cache_line obj off = (obj + off) div 64"

lemma AlignedData_separate:
  "64 dvd obj \<Longrightarrow> cache_line obj (AlignedData ! 0) \<noteq> cache_line obj (AlignedData ! 1)"
  by (auto simp: AlignedData_def cache_line_def elim!: dvdE)

lemma FalseSharingData_shared:
  assumes "4 dvd obj"
  shows "cache_line obj (FalseSharingData ! 0) = cache_line obj (FalseSharingData ! 1) \<longleftrightarrow> obj mod 64 \<noteq> 60"
proof -
  obtain k where k: "obj = 4 * k" using assms by (rule dvdE)
  have "(4 * k) div 64 = k div 16" "(4 * k + 4) div 64 = (k + 1) div 16" "(4 * k) mod 64 = 4 * (k mod 16)"
    using mod_mult_mult1 [of 4 k 16] by simp_all
  moreover have "k div 16 = (k + 1) div 16 \<longleftrightarrow> k mod 16 \<noteq> 15" by (simp add: div_Suc mod_Suc)
  ultimately show ?thesis by (simp add: FalseSharingData_def cache_line_def k)
qed

subsection \<open>The thread-local counter\<close>

text \<open>\<open>Base::increase\<close>: the counter of each thread starts at 1; the call prints its new value.\<close>

definition increase :: "nat \<Rightarrow> (nat \<Rightarrow> int) \<Rightarrow> (int \<times> (nat \<Rightarrow> int)) cxx" where
  "increase t counts = bind_cxx (int_result (counts t + 1)) (\<lambda>c. Inr (c, counts(t := c)))"

definition thread_local_start :: "nat \<Rightarrow> int" where
  "thread_local_start = (\<lambda>_. 1)"

fun increases :: "nat list \<Rightarrow> (nat \<Rightarrow> int) \<Rightarrow> (nat \<times> int) list cxx" where
  "increases [] counts = Inr []"
| "increases (t # ts) counts =
     bind_cxx (increase t counts) (\<lambda>(c, counts'). bind_cxx (increases ts counts') (\<lambda>out. Inr ((t, c) # out)))"

text \<open>\<open>print_thread_local_func\<close> calls it four times, through two objects.\<close>

definition print_thread_local_func :: "nat \<Rightarrow> nat list" where
  "print_thread_local_func t = [t, t, t, t]"

text \<open>What a thread prints does not depend on the other threads.\<close>

lemma increases_per_thread:
  assumes "\<And>t. counts t + int (count_list ts t) < 2 ^ 31" "\<And>t. 0 \<le> counts t"
  shows "\<exists>out. increases ts counts = Inr out \<and>
    (\<forall>t. map snd (filter (\<lambda>p. fst p = t) out) = [counts t + 1 .. counts t + int (count_list ts t)])"
  using assms
proof (induction ts arbitrary: counts)
  case (Cons u ts)
  let ?c = "counts(u := counts u + 1)"
  have ok: "int32_ok (counts u + 1)" using Cons(2,3) [of u] by (simp add: int32_ok_def)
  have 1: "?c t + int (count_list ts t) < 2 ^ 31" for t using Cons(2) [of t] by auto
  have 2: "0 \<le> ?c t" for t using Cons(3) [of t] by auto
  obtain out where out: "increases ts ?c = Inr out"
    "\<And>t. map snd (filter (\<lambda>p. fst p = t) out) = [?c t + 1 .. ?c t + int (count_list ts t)]"
    using Cons(1) [of ?c, OF 1 2] by blast
  moreover have "[counts u + 1 .. counts u + int (Suc n)] = (counts u + 1) # [counts u + 1 + 1 .. counts u + 1 + int n]" for n
    by (simp add: upto_rec1 algebra_simps)
  ultimately show ?case using ok by (simp add: increase_def int_result_ok)
qed simp

lemma two_threads_print:
  assumes "mset ts = mset (print_thread_local_func 0 @ print_thread_local_func 1)"
  shows "\<exists>out. increases ts thread_local_start = Inr out \<and>
    map snd (filter (\<lambda>p. fst p = 0) out) = [2, 3, 4, 5] \<and> map snd (filter (\<lambda>p. fst p = 1) out) = [2, 3, 4, 5]"
proof -
  have c: "count_list ts t = (if t \<le> 1 then 4 else 0)" for t
    using assms by (simp flip: count_mset add: print_thread_local_func_def)
  have "\<exists>out. increases ts thread_local_start = Inr out \<and>
      (\<forall>t. map snd (filter (\<lambda>p. fst p = t) out) = [1 + 1 .. 1 + int (count_list ts t)])"
    using increases_per_thread [of thread_local_start ts] by (simp add: c thread_local_start_def)
  moreover have "[1 + 1 .. 1 + int 4] = [2, 3, 4, 5]" by (simp add: upto.simps)
  ultimately show ?thesis using c [of 0] c [of 1] by (metis le_numeral_extra(4) zero_le)
qed

subsection \<open>Messages and structs\<close>

text \<open>What \<open>DEFINE_STRUCT\<close> makes of \<open>PERSON_FIELDS\<close>; a new \<open>Person\<close> has an uninitialised \<open>status\<close> (\<open>None\<close>).
  \<open>test::Response\<close> has the same two fields, which start with their default values.\<close>

record Person =
  person_data :: string
  person_status :: "int option"

definition Person_new :: Person where
  "Person_new = \<lparr>person_data = [], person_status = None\<rparr>"

record pb_Response =
  pb_data :: string
  pb_status :: int

datatype cpp_type = CPPTYPE_STRING | CPPTYPE_INT32 | Other_cpp_type

text \<open>The macros that copy one field: \<open>desc\<close> finds the type of a field by name; the result is the member afterwards.\<close>

definition ASSIGN_FIELD_STRING :: "(string \<Rightarrow> cpp_type option) \<Rightarrow> (string \<Rightarrow> string) \<Rightarrow> string \<Rightarrow> string \<Rightarrow> string" where
  "ASSIGN_FIELD_STRING desc GetString field_name old =
     (if desc field_name = Some CPPTYPE_STRING then GetString field_name else old)"

definition ASSIGN_FIELD_INT32 :: "(string \<Rightarrow> cpp_type option) \<Rightarrow> (string \<Rightarrow> int) \<Rightarrow> string \<Rightarrow> int option \<Rightarrow> int option" where
  "ASSIGN_FIELD_INT32 desc GetInt32 field_name old =
     (if desc field_name = Some CPPTYPE_INT32 then Some (GetInt32 field_name) else old)"

text \<open>Their uses are commented out, so the copy does nothing.\<close>

definition ProtoToStruct :: "pb_Response \<Rightarrow> Person \<Rightarrow> Person" where
  "ProtoToStruct proto s = s"

definition show_person :: "Person \<Rightarrow> string cxx" where
  "show_person p =
     (case person_status p of
        None \<Rightarrow> Inl Invalid_access
      | Some n \<Rightarrow> Inr (''Name: '' @ person_data p @ '', Age: '' @ show_int n))"

text \<open>\<open>YES_OR_NO\<close> is not defined as a macro, so \<open>BOOST_PP_STRINGIZE\<close> yields its text.\<close>

definition test_reflection :: "string list cxx" where
  "test_reflection =
     (let proto = \<lparr>pb_data = ''Alice'', pb_status = 25\<rparr>; proto2 = \<lparr>pb_data = [], pb_status = 0\<rparr>
      in bind_cxx (show_person (ProtoToStruct proto Person_new)) (\<lambda>line.
         Inr [''YES_OR_NO(1)'', ''YES_OR_NO(0)'', line,
              ''Proto Name: '' @ pb_data proto2 @ '', Age: '' @ show_int (pb_status proto2)]))"

definition testxxxxxx :: "(pb_Response \<Rightarrow> string) \<Rightarrow> int cxx" where
  "testxxxxxx MessageToJsonString = Inl Missing_return"

text \<open>\<open>main\<close> after its threads have been joined.\<close>

definition sum_main_end :: "counters \<Rightarrow> string list cxx" where
  "sum_main_end s =
     bind_cxx test_reflection (\<lambda>out. Inr ((''xxxxxxx:'' @ show_int (sint (cells s 0))) # out))"

text \<open>The struct that the message should fill stays uninitialised and is printed, so no run of the program is defined to
  its end; with the two macros applied to the fields of their types the copy would be complete.\<close>

lemma sum_main_undefined: "sum_main_end s = Inl Invalid_access"
  by (simp add: sum_main_end_def test_reflection_def show_person_def ProtoToStruct_def Person_new_def)

lemma macros_copy_fields:
  assumes "desc ''data'' = Some CPPTYPE_STRING" "desc ''status'' = Some CPPTYPE_INT32"
    "GetString ''data'' = pb_data proto" "GetInt32 ''status'' = pb_status proto"
  shows "show_person (p\<lparr>person_data := ASSIGN_FIELD_STRING desc GetString ''data'' (person_data p),
      person_status := ASSIGN_FIELD_INT32 desc GetInt32 ''status'' (person_status p)\<rparr>) =
    Inr (''Name: '' @ pb_data proto @ '', Age: '' @ show_int (pb_status proto))"
  using assms by (simp add: show_person_def ASSIGN_FIELD_STRING_def ASSIGN_FIELD_INT32_def)

end
