(* ===== verification/Babylon_Graph.thy ===== *)
theory Babylon_Graph
  imports Prelude "HOL-Library.Multiset"
begin

text \<open>
  The graphs of \<open>example/babylon/graph_start.cpp\<close>, \<open>graph_condition.cpp\<close> and
  \<open>dependency/\<close>: the processors as functions of the data they depend on, and the vertices
  that bind them to the named data of the graph, with their conditions. When a vertex runs is decided by the graph library,
  which is not part of the repository: here the vertices run in a given order and what the library does with a condition is
  left open.
\<close>

subsection \<open>Data and processors\<close>

datatype datum = I_data int | S_data string | B_data bool

type_synonym graph_env = "string \<rightharpoonup> datum"

text \<open>Reading a dependency as a type it does not hold, or that nobody emitted, goes through a null pointer.\<close>

definition depend_int :: "graph_env \<Rightarrow> string \<Rightarrow> (int \<Rightarrow> 'b cxx) \<Rightarrow> 'b cxx" where
  "depend_int d name f = (case d name of Some (I_data x) \<Rightarrow> f x | _ \<Rightarrow> Inl Null_deref)"

definition depend_str :: "graph_env \<Rightarrow> string \<Rightarrow> (string \<Rightarrow> 'b cxx) \<Rightarrow> 'b cxx" where
  "depend_str d name f = (case d name of Some (S_data x) \<Rightarrow> f x | _ \<Rightarrow> Inl Null_deref)"

definition PlusProcessor :: "graph_env \<Rightarrow> (string \<times> datum) list cxx" where
  "PlusProcessor d = depend_int d ''x'' (\<lambda>x. depend_int d ''y'' (\<lambda>y.
     bind_cxx (int_result (x + y)) (\<lambda>tmp. Inr [(''z'', I_data tmp)])))"

definition MultiProcessor :: "graph_env \<Rightarrow> (string \<times> datum) list cxx" where
  "MultiProcessor d = depend_int d ''z'' (\<lambda>z. depend_int d ''a'' (\<lambda>a.
     bind_cxx (int_result (z * a)) (\<lambda>p. Inr [(''b'', I_data p)])))"

definition AllProcessor :: "graph_env \<Rightarrow> (string \<times> datum) list cxx" where
  "AllProcessor d = depend_int d ''x'' (\<lambda>x. depend_int d ''a'' (\<lambda>a. depend_int d ''b'' (\<lambda>b.
     bind_cxx (int_result (x + a)) (\<lambda>xa. bind_cxx (int_result (xa + b)) (\<lambda>s. Inr [(''c'', I_data s)])))))"

text \<open>The processors of \<open>graph_condition.cpp\<close>.\<close>

definition StartProcessor :: "graph_env \<Rightarrow> (string \<times> datum) list cxx" where
  "StartProcessor d = depend_str d ''a'' (\<lambda>a. Inr [(''b'', S_data a), (''c'', S_data a), (''c2'', B_data False)])"

definition MiddelProcessor :: "graph_env \<Rightarrow> (string \<times> datum) list cxx" where
  "MiddelProcessor d = depend_str d ''b'' (\<lambda>b. depend_str d ''c'' (\<lambda>c. Inr [(''e'', S_data b), (''f'', S_data c)]))"

definition EndProcessor :: "graph_env \<Rightarrow> (string \<times> datum) list cxx" where
  "EndProcessor d = depend_str d ''e'' (\<lambda>e. depend_str d ''h'' (\<lambda>h. Inr [(''g'', S_data (e @ h))]))"

definition EndSameProcessor :: "graph_env \<Rightarrow> (string \<times> datum) list cxx" where
  "EndSameProcessor d = depend_str d ''e'' (\<lambda>e. Inr [(''h'', S_data e)])"

text \<open>The end of \<open>depend_same.cpp\<close>, which allows for a null second dependency.\<close>

definition EndOptionalProcessor :: "graph_env \<Rightarrow> (string \<times> datum) list cxx" where
  "EndOptionalProcessor d =
     (case d ''f'' of
        Some (S_data f) \<Rightarrow> if f \<noteq> [] then depend_str d ''e'' (\<lambda>e. Inr [(''g'', S_data (e @ f))])
                       else depend_str d ''e'' (\<lambda>e. Inr [(''g'', S_data e)])
      | _ \<Rightarrow> depend_str d ''e'' (\<lambda>e. Inr [(''g'', S_data e)]))"

text \<open>The two processors of \<open>depend_condition.cpp\<close> copy their input; they differ in how they declare it.\<close>

definition ConstProcessor :: "graph_env \<Rightarrow> (string \<times> datum) list cxx" where
  "ConstProcessor d = depend_str d ''a'' (\<lambda>a. Inr [(''x'', S_data a)])"

definition MutableProcessor :: "graph_env \<Rightarrow> (string \<times> datum) list cxx" where
  "MutableProcessor d = depend_str d ''a'' (\<lambda>a. Inr [(''x'', S_data a)])"

text \<open>The processors of \<open>expressor_depend.cpp\<close> forward a dependency of the vertex to its first output inside the library:
  the result is the dependency forwarded, if any. \<open>OneProcessor::process\<close> then runs off its end without
  a return statement. \<open>MProcessor::setup\<close> declares the dependency mutable through a pointer that may be null.\<close>

definition OneProcessor_forwards :: "'d option \<Rightarrow> int \<Rightarrow> (int \<Rightarrow> 'd option) \<Rightarrow> 'e option \<Rightarrow> ('d \<times> 'e) option" where
  "OneProcessor_forwards anonymous index named emit =
     (let ndepend = (if index \<ge> 0 then named index else None)
      in case emit of None \<Rightarrow> None
         | Some out \<Rightarrow> (case anonymous of Some d \<Rightarrow> Some (d, out)
             | None \<Rightarrow> (case ndepend of Some d \<Rightarrow> Some (d, out) | None \<Rightarrow> None)))"

definition OneProcessor_process :: "'d option \<Rightarrow> int \<Rightarrow> (int \<Rightarrow> 'd option) \<Rightarrow> 'e option \<Rightarrow> (int \<times> ('d \<times> 'e) option) cxx" where
  "OneProcessor_process anonymous index named emit =
     (let forwarded = OneProcessor_forwards anonymous index named emit in Inl Missing_return)"

definition MProcessor_setup :: "'d option \<Rightarrow> 'd set \<Rightarrow> (int \<times> 'd set) cxx" where
  "MProcessor_setup anonymous mutable = (case anonymous of None \<Rightarrow> Inl Null_deref | Some d \<Rightarrow> Inr (0, insert d mutable))"

definition MProcessor_process :: "'d option \<Rightarrow> 'e option \<Rightarrow> (int \<times> ('d \<times> 'e) option) cxx" where
  "MProcessor_process anonymous emit =
     Inr (0, case (anonymous, emit) of (Some d, Some out) \<Rightarrow> Some (d, out) | _ \<Rightarrow> None)"

subsection \<open>Vertices and runs\<close>

datatype processor = Plus_kind | Multi_kind | All_kind | Start_kind | Middel_kind | End_kind | End_same_kind
  | End_optional_kind | Const_kind | Mutable_kind

type_synonym process_fun = "graph_env \<Rightarrow> (string \<times> datum) list cxx"

definition processor_process :: "processor \<Rightarrow> process_fun" where
  "processor_process p =
     (case p of Plus_kind \<Rightarrow> PlusProcessor | Multi_kind \<Rightarrow> MultiProcessor | All_kind \<Rightarrow> AllProcessor
      | Start_kind \<Rightarrow> StartProcessor | Middel_kind \<Rightarrow> MiddelProcessor | End_kind \<Rightarrow> EndProcessor
      | End_same_kind \<Rightarrow> EndSameProcessor | End_optional_kind \<Rightarrow> EndOptionalProcessor
      | Const_kind \<Rightarrow> ConstProcessor | Mutable_kind \<Rightarrow> MutableProcessor)"

text \<open>\<open>named_depend(n).to(t).on(c)\<close>: the dependency \<open>n\<close> is bound to the datum \<open>t\<close> under the condition \<open>c\<close>.\<close>

record vertex_spec =
  v_processor :: processor
  v_depends :: "(string \<times> string) list"
  v_conditions :: "(string \<times> string) list"
  v_emits :: "(string \<times> string) list"

definition vertex_env :: "vertex_spec \<Rightarrow> graph_env \<Rightarrow> graph_env" where
  "vertex_env v D = (\<lambda>name. case map_of (v_depends v) name of None \<Rightarrow> None | Some target \<Rightarrow> D target)"

fun publish :: "(string \<times> string) list \<Rightarrow> (string \<times> datum) list \<Rightarrow> graph_env \<Rightarrow> graph_env" where
  "publish emits [] D = D"
| "publish emits ((name, x) # out) D =
     publish emits out (case map_of emits name of None \<Rightarrow> D | Some target \<Rightarrow> D(target \<mapsto> x))"

fun run_graph :: "vertex_spec list \<Rightarrow> graph_env \<Rightarrow> graph_env cxx" where
  "run_graph [] D = Inr D"
| "run_graph (v # vs) D =
     bind_cxx (processor_process (v_processor v) (vertex_env v D)) (\<lambda>out. run_graph vs (publish (v_emits v) out D))"

text \<open>The graph of \<open>graph_start.cpp\<close> and its inputs.\<close>

definition plus_vertex :: vertex_spec where
  "plus_vertex = \<lparr>v_processor = Plus_kind, v_depends = [(''x'', ''A''), (''y'', ''B'')], v_conditions = [], v_emits = [(''z'', ''C'')]\<rparr>"

definition multi_vertex :: vertex_spec where
  "multi_vertex = \<lparr>v_processor = Multi_kind, v_depends = [(''z'', ''C''), (''a'', ''E'')], v_conditions = [], v_emits = [(''b'', ''F'')]\<rparr>"

definition all_vertex :: vertex_spec where
  "all_vertex = \<lparr>v_processor = All_kind, v_depends = [(''x'', ''A''), (''a'', ''E''), (''b'', ''F'')], v_conditions = [], v_emits = [(''c'', ''G'')]\<rparr>"

definition first_graph :: "vertex_spec list" where
  "first_graph = [plus_vertex, multi_vertex, all_vertex]"

definition first_inputs :: "int \<Rightarrow> int \<Rightarrow> int \<Rightarrow> graph_env" where
  "first_inputs a b e = [''A'' \<mapsto> I_data a, ''B'' \<mapsto> I_data b, ''E'' \<mapsto> I_data e]"

text \<open>The graph of \<open>graph_condition.cpp\<close> up to the datum \<open>H\<close>, and its last vertex.\<close>

definition start_vertex :: vertex_spec where
  "start_vertex = \<lparr>v_processor = Start_kind, v_depends = [(''a'', ''A'')], v_conditions = [(''a'', ''C1'')], v_emits = [(''b'', ''B''), (''c'', ''C''), (''c2'', ''C2'')]\<rparr>"

definition middel_vertex :: vertex_spec where
  "middel_vertex = \<lparr>v_processor = Middel_kind, v_depends = [(''b'', ''B''), (''c'', ''C'')], v_conditions = [], v_emits = [(''e'', ''E''), (''f'', ''F'')]\<rparr>"

definition end_vertex :: vertex_spec where
  "end_vertex = \<lparr>v_processor = End_kind, v_depends = [(''e'', ''E''), (''h'', ''H'')], v_conditions = [], v_emits = [(''g'', ''G'')]\<rparr>"

text \<open>The vertices of \<open>depend_condition.cpp\<close> and the graph of \<open>depend_same.cpp\<close>, which differs from the one above in its
  last vertex.\<close>

definition const_vertex1 :: vertex_spec where
  "const_vertex1 = \<lparr>v_processor = Const_kind, v_depends = [(''a'', ''A'')], v_conditions = [(''a'', ''C1'')], v_emits = [(''x'', ''X'')]\<rparr>"

definition const_vertex2 :: vertex_spec where
  "const_vertex2 = \<lparr>v_processor = Const_kind, v_depends = [(''a'', ''A'')], v_conditions = [(''a'', ''C2'')], v_emits = [(''x'', ''Y'')]\<rparr>"

definition mutable_vertex :: vertex_spec where
  "mutable_vertex = \<lparr>v_processor = Mutable_kind, v_depends = [(''a'', ''A'')], v_conditions = [(''a'', ''C3'')], v_emits = [(''x'', ''Z'')]\<rparr>"

definition same_end_vertex :: vertex_spec where
  "same_end_vertex = \<lparr>v_processor = End_optional_kind, v_depends = [(''e'', ''E''), (''f'', ''F'')], v_conditions = [(''f'', ''C2'')],
     v_emits = [(''g'', ''G'')]\<rparr>"

definition same_graph :: "vertex_spec list" where
  "same_graph = [start_vertex, middel_vertex, same_end_vertex]"

lemmas vertex_defs = plus_vertex_def multi_vertex_def all_vertex_def start_vertex_def middel_vertex_def end_vertex_def

lemmas babylon_defs = processor_process_def PlusProcessor_def MultiProcessor_def AllProcessor_def StartProcessor_def
  MiddelProcessor_def EndProcessor_def EndSameProcessor_def EndOptionalProcessor_def ConstProcessor_def MutableProcessor_def depend_int_def depend_str_def vertex_env_def

subsection \<open>Results\<close>

lemma first_graph_result:
  assumes "int32_ok (a + b)" "int32_ok ((a + b) * e)" "int32_ok (a + e)" "int32_ok (a + e + (a + b) * e)"
  shows "\<exists>D. run_graph first_graph (first_inputs a b e) = Inr D \<and> D ''G'' = Some (I_data (a + e + (a + b) * e))"
  using assms by (simp add: first_graph_def vertex_defs babylon_defs first_inputs_def int_result_ok)

text \<open>Only the order of the dependencies gets through.\<close>

lemma early_vertex_fails:
  "run_graph (multi_vertex # vs) (first_inputs a b e) = Inl Null_deref"
  "run_graph (all_vertex # vs) (first_inputs a b e) = Inl Null_deref"
  "run_graph (plus_vertex # all_vertex # vs) (first_inputs a b e) \<noteq> Inr D"
  by (auto simp: vertex_defs babylon_defs first_inputs_def bind_cxx_eq_Inr)

lemma vertices_distinct: "distinct first_graph"
  by (simp add: first_graph_def vertex_defs)

lemma first_graph_orders:
  assumes "mset vs = mset first_graph" "run_graph vs (first_inputs a b e) = Inr D"
  shows "vs = first_graph"
proof -
  have "length vs = 3" using assms(1) by (metis size_mset first_graph_def length_Cons list.size(3) numeral_3_eq_3)
  then obtain u v w where vs: "vs = [u, v, w]" by (auto simp: numeral_eq_Suc length_Suc_conv)
  have "{u, v, w} = set first_graph" using assms(1) vs by (metis set_mset_mset list.set(1,2))
  then have m: "u \<in> set first_graph" "v \<in> set first_graph" "w \<in> set first_graph" "distinct [u, v, w]"
    using vertices_distinct mset_eq_imp_distinct_iff [OF assms(1)] vs by auto
  then show ?thesis using assms(2) early_vertex_fails [of _ a b e]
    by (auto simp: vs first_graph_def simp del: run_graph.simps)
qed

text \<open>The program's inputs give 702.\<close>

lemma first_graph_702:
  "\<exists>D. run_graph first_graph (first_inputs 100 200 2) = Inr D \<and> D ''G'' = Some (I_data 702)"
  using first_graph_result [of 100 200 2] by (simp add: int32_ok_def)

text \<open>With the datum that the expression \<open>C2 ? E: F\<close> selects, the second graph doubles its input.\<close>

lemma condition_graph_result:
  "\<exists>D. run_graph [start_vertex, middel_vertex] [''A'' \<mapsto> S_data s] = Inr D \<and> D ''C2'' = Some (B_data False) \<and>
     (\<exists>D'. run_graph [end_vertex] (D(''H'' := if D ''C2'' = Some (B_data True) then D ''E'' else D ''F'')) = Inr D' \<and>
       D' ''G'' = Some (S_data (s @ s)))"
  by (simp add: vertex_defs babylon_defs)

lemma EndOptional_result:
  "d ''e'' = Some (S_data e) \<Longrightarrow>
   EndOptionalProcessor d = Inr [(''g'', S_data (e @ (case d ''f'' of Some (S_data f) \<Rightarrow> f | _ \<Rightarrow> [])))]"
  by (auto simp: EndOptionalProcessor_def depend_str_def split: option.splits datum.splits)

end
