(* ===== verification/Struct_Benchmark.thy ===== *)
theory Struct_Benchmark
  imports Binary_Float
begin

text \<open>
  The benchmark of \<open>example/performance_units/struct_pb/example.cpp\<close>: the same test case built as C++
  structs and as protobuf messages (\<open>proto/cl_test.proto\<close>), the readers, and the loop that picks one of
  them by the reloadable flag \<open>mode\<close>. Clock and scheduling are left out.
\<close>

subsection \<open>Structs\<close>

datatype SChangeType = FLUCTUATE | SMOOTH

record Stage =
  lower_bound :: int
  upper_bound :: int
  duration_sec :: int
  stage_type :: SChangeType

record STestCase =
  case_name :: string
  max_concurrency :: string
  qps_stage_list :: "Stage list"
  latency_stage_list :: "Stage list"

type_synonym STestCaseSet = "STestCase list"

definition set_struct_value :: STestCaseSet where
  "set_struct_value =
     (let qps_stage_1 = \<lparr>lower_bound = 100, upper_bound = 200, duration_sec = 30, stage_type = FLUCTUATE\<rparr>;
          qps_stage_2 = \<lparr>lower_bound = 200, upper_bound = 300, duration_sec = 40, stage_type = SMOOTH\<rparr>;
          latency_stage_1 = \<lparr>lower_bound = 10, upper_bound = 20, duration_sec = 15, stage_type = FLUCTUATE\<rparr>;
          test_case = \<lparr>case_name = ''Test Case 1'', max_concurrency = ''100'',
            qps_stage_list = [] @ [qps_stage_1] @ [qps_stage_2], latency_stage_list = [] @ [latency_stage_1]\<rparr>
      in [] @ [test_case])"

subsection \<open>Messages\<close>

text \<open>A message of \<open>proto3\<close> starts with default values; a repeated field grows at its end.\<close>

datatype ChangeType = UNKNOW | PB_FLUCTUATE | PB_SMOOTH

record pb_Stage =
  pb_lower_bound :: int
  pb_upper_bound :: int
  pb_duration_sec :: int
  pb_type :: ChangeType

record pb_TestCase =
  pb_case_name :: string
  pb_max_concurrency :: string
  pb_qps_stage_list :: "pb_Stage list"
  pb_latency_stage_list :: "pb_Stage list"

type_synonym pb_TestCaseSet = "pb_TestCase list"

definition pb_Stage_default :: pb_Stage where
  "pb_Stage_default = \<lparr>pb_lower_bound = 0, pb_upper_bound = 0, pb_duration_sec = 0, pb_type = UNKNOW\<rparr>"

definition pb_TestCase_default :: pb_TestCase where
  "pb_TestCase_default =
     \<lparr>pb_case_name = [], pb_max_concurrency = [], pb_qps_stage_list = [], pb_latency_stage_list = []\<rparr>"

text \<open>\<open>add_\<dots>\<close> appends a default message and returns a pointer to it; the setters write through it.\<close>

definition add_message :: "'m \<Rightarrow> ('m \<Rightarrow> 'm) \<Rightarrow> 'm list \<Rightarrow> 'm list" where
  "add_message dflt write ms = (let ms' = ms @ [dflt] in ms'[length ms := write (ms' ! length ms)])"

definition set_stage :: "int \<Rightarrow> int \<Rightarrow> int \<Rightarrow> ChangeType \<Rightarrow> pb_Stage \<Rightarrow> pb_Stage" where
  "set_stage lo up sec ty s = s\<lparr>pb_lower_bound := lo, pb_upper_bound := up, pb_duration_sec := sec, pb_type := ty\<rparr>"

definition set_pb_value :: pb_TestCaseSet where
  "set_pb_value =
     add_message pb_TestCase_default (\<lambda>test_case.
       let c1 = test_case\<lparr>pb_case_name := ''Test Case 1'', pb_max_concurrency := ''100''\<rparr>;
           c2 = c1\<lparr>pb_qps_stage_list :=
             add_message pb_Stage_default (set_stage 100 200 30 PB_FLUCTUATE) (pb_qps_stage_list c1)\<rparr>;
           c3 = c2\<lparr>pb_qps_stage_list :=
             add_message pb_Stage_default (set_stage 200 300 40 PB_SMOOTH) (pb_qps_stage_list c2)\<rparr>
       in c3\<lparr>pb_latency_stage_list :=
             add_message pb_Stage_default (set_stage 10 20 15 PB_FLUCTUATE) (pb_latency_stage_list c3)\<rparr>) []"

text \<open>The message that carries the same values as a struct.\<close>

primrec pb_of_type :: "SChangeType \<Rightarrow> ChangeType" where
  "pb_of_type FLUCTUATE = PB_FLUCTUATE"
| "pb_of_type SMOOTH = PB_SMOOTH"

definition pb_of_stage :: "Stage \<Rightarrow> pb_Stage" where
  "pb_of_stage s = \<lparr>pb_lower_bound = lower_bound s, pb_upper_bound = upper_bound s, pb_duration_sec = duration_sec s,
     pb_type = pb_of_type (stage_type s)\<rparr>"

definition pb_of_case :: "STestCase \<Rightarrow> pb_TestCase" where
  "pb_of_case c = \<lparr>pb_case_name = case_name c, pb_max_concurrency = max_concurrency c,
     pb_qps_stage_list = map pb_of_stage (qps_stage_list c), pb_latency_stage_list = map pb_of_stage (latency_stage_list c)\<rparr>"

lemma add_message_append [simp]: "add_message dflt write ms = ms @ [write dflt]"
  by (simp add: add_message_def)

lemma both_builders_agree: "set_pb_value = map pb_of_case set_struct_value"
  by (simp add: set_pb_value_def set_struct_value_def pb_of_case_def pb_of_stage_def pb_TestCase_default_def
      pb_Stage_default_def set_stage_def)

subsection \<open>Readers\<close>

text \<open>\<open>get_struct_value\<close> reads the stages by index; what it reads is the result. \<open>get_pb_value\<close> iterates.\<close>

function read_stages :: "nat \<Rightarrow> nat \<Rightarrow> Stage list \<Rightarrow> Stage list cxx" where
  "read_stages i n stages =
     (if i < n
      then if i < length stages
           then bind_cxx (read_stages (i + 1) n stages) (\<lambda>rest. Inr (stages ! i # rest))
           else Inl Invalid_access
      else Inr [])"
  by pat_completeness auto
termination
  by (relation "measure (\<lambda>(i, n, stages). n - i)") auto

declare read_stages.simps [simp del]

fun get_struct_value :: "STestCaseSet \<Rightarrow> (string \<times> string \<times> Stage list \<times> Stage list) list cxx" where
  "get_struct_value [] = Inr []"
| "get_struct_value (test_case # rest) =
     bind_cxx (read_stages 0 (length (qps_stage_list test_case)) (qps_stage_list test_case)) (\<lambda>qps.
     bind_cxx (read_stages 0 (length (latency_stage_list test_case)) (latency_stage_list test_case)) (\<lambda>latency.
     bind_cxx (get_struct_value rest) (\<lambda>out. Inr ((case_name test_case, max_concurrency test_case, qps, latency) # out))))"

definition get_pb_value :: "pb_TestCaseSet \<Rightarrow> (string \<times> string \<times> pb_Stage list \<times> pb_Stage list) list" where
  "get_pb_value cases =
     map (\<lambda>c. (pb_case_name c, pb_max_concurrency c, pb_qps_stage_list c, pb_latency_stage_list c)) cases"

lemma read_stages_all: "i \<le> length stages \<Longrightarrow> read_stages i (length stages) stages = Inr (drop i stages)"
proof (induction "length stages - i" arbitrary: i)
  case (Suc k)
  then show ?case by (subst read_stages.simps) (simp add: Cons_nth_drop_Suc)
qed (simp add: read_stages.simps)

text \<open>Both readers see the same values, and indexing stays in bounds.\<close>

lemma readers_agree:
  "\<exists>out. get_struct_value cases = Inr out \<and>
     get_pb_value (map pb_of_case cases) =
       map (\<lambda>(n, m, qps, latency). (n, m, map pb_of_stage qps, map pb_of_stage latency)) out"
  by (induction cases) (auto simp: read_stages_all get_pb_value_def pb_of_case_def)

subsection \<open>The loop\<close>

datatype run_function = Set_pb | Set_struct

definition mode_str :: "int \<Rightarrow> string" where
  "mode_str mode = (if mode = 2 \<or> mode = 4 then ''struct'' else ''pb'')"

text \<open>\<open>run_once\<close>, uninitialised unless the mode is 1 or 2.\<close>

definition select_run_once :: "int \<Rightarrow> run_function option" where
  "select_run_once mode = (if mode = 1 then Some Set_pb else if mode = 2 then Some Set_struct else None)"

text \<open>One call of a batch, with the value the flag has now. The sets that are read are those of the thread, which
  nobody fills.\<close>

definition batch_call :: "run_function option \<Rightarrow> int \<Rightarrow> unit cxx" where
  "batch_call run_once mode =
     (if mode = 3 then Inr (let x = get_pb_value [] in ())
      else if mode = 4 then bind_cxx (get_struct_value []) (\<lambda>_. Inr ())
      else case run_once of None \<Rightarrow> Inl Invalid_access 
           | Some Set_pb \<Rightarrow> Inr (let x = set_pb_value in ())
           | Some Set_struct \<Rightarrow> Inr (let x = set_struct_value in ()))"

fun batches :: "run_function option \<Rightarrow> int list \<Rightarrow> unit cxx" where
  "batches run_once [] = Inr ()"
| "batches run_once (mode # modes) = bind_cxx (batch_call run_once mode) (\<lambda>_. batches run_once modes)"

text \<open>All threads; the lists hold the values the flag has at the calls of each. They share nothing but the flags and
  \<open>run_once\<close>, so their order does not matter.\<close>

fun run_threads :: "run_function option \<Rightarrow> int list list \<Rightarrow> unit cxx" where
  "run_threads run_once [] = Inr ()"
| "run_threads run_once (modes # rest) = bind_cxx (batches run_once modes) (\<lambda>_. run_threads run_once rest)"

text \<open>The time a round should take: \<open>1000.0 * 1000 / qps * batch * concurrency\<close> in \<open>double\<close>, converted to
  \<open>int64_t\<close>. A division by zero yields no finite number, whose conversion is undefined.\<close>

definition double_of :: "nat \<Rightarrow> bfloat" where
  "double_of n = fl_of_nat 53 n"

definition expect_us :: "nat \<Rightarrow> nat \<Rightarrow> nat \<Rightarrow> int cxx" where
  "expect_us qps batch concurrency =
     (if qps = 0 then Inl Undefined_conversion
      else let us = fl_trunc (fl_mult 53 (fl_mult 53 (fl_div 53 (fl_mult 53 (double_of 1000) (double_of 1000)) (double_of qps))
                      (double_of batch)) (double_of concurrency))
           in if us < 2 ^ 63 then Inr us else Inl Undefined_conversion)"

record bench_flags =
  flag_mode :: int
  flag_qps :: nat
  flag_batch :: nat
  flag_concurrency :: nat

definition default_flags :: bench_flags where
  "default_flags = \<lparr>flag_mode = 1, flag_qps = 10000, flag_batch = 1, flag_concurrency = 1\<rparr>"

definition run_loop :: "bench_flags \<Rightarrow> int list list \<Rightarrow> unit cxx" where
  "run_loop F modes =
     bind_cxx (expect_us (flag_qps F) (flag_batch F) (flag_concurrency F)) (\<lambda>_.
       run_threads (select_run_once (flag_mode F)) modes)"

text \<open>\<open>gflags::SetCommandLineOption("mode", "struct")\<close>: a text that is no number leaves the flag as it is; \<open>parse\<close>
  is the conversion.\<close>

definition SetCommandLineOption_mode :: "(string \<Rightarrow> int option) \<Rightarrow> string \<Rightarrow> bench_flags \<Rightarrow> bench_flags" where
  "SetCommandLineOption_mode parse val F =
     (case parse val of None \<Rightarrow> F | Some n \<Rightarrow> if 0 < n then F\<lparr>flag_mode := n\<rparr> else F)"

definition bench_main :: "(string \<Rightarrow> int option) \<Rightarrow> bench_flags \<Rightarrow> int list list \<Rightarrow> unit cxx" where
  "bench_main parse F0 modes =
     (let F = SetCommandLineOption_mode parse ''struct'' F0
      in if flag_mode F = 1 then run_loop F modes else if flag_mode F = 2 then run_loop F modes
         else if flag_mode F = 3 then run_loop F modes else if flag_mode F = 4 then run_loop F modes else Inr ())"

text \<open>The sleep at the end of a round.\<close>

definition round_sleep :: "int \<Rightarrow> int \<Rightarrow> int" where
  "round_sleep expected use_us = (if use_us < expected then expected - use_us else 0)"

lemma round_sleep_total: "0 \<le> use_us \<Longrightarrow> use_us + round_sleep expected use_us = max use_us expected"
  by (simp add: round_sleep_def)

lemma batches_ok:
  "batches run_once modes = Inr () \<longleftrightarrow> run_once \<noteq> None \<or> list_all (\<lambda>m. m = 3 \<or> m = 4) modes"
  by (induction modes) (auto simp: batch_call_def split: option.splits run_function.splits)

lemma run_threads_ok:
  "run_threads run_once modes = Inr () \<longleftrightarrow> run_once \<noteq> None \<or> list_all (list_all (\<lambda>m. m = 3 \<or> m = 4)) modes"
  by (induction modes) (auto simp: bind_cxx_eq_Inr batches_ok)

text \<open>With the default flags a round should take 100 microseconds.\<close>

lemma expect_us_default: "expect_us 10000 1 1 = Inr 100"
proof -
  have d: "double_of n = \<lparr>mant = int n, expo = 0\<rparr>" if "n < 2 ^ 53" for n
    using that by (simp add: double_of_def fl_of_nat_def fl_round_small)
  have b: "bitlen 10000 = 14" "bitlen 118059162071741130342400 = 77"
    using bitlen_unique [of 13 10000] bitlen_unique [of 76 118059162071741130342400] by simp_all
  have q: "(1000000 :: nat) * 2 ^ 69 div 10000 = 59029581035870565171200" "(1000000 :: nat) * 2 ^ 69 mod 10000 = 0" by simp_all
  have r: "round_half_even 118059162071741130342400 24 = 7036874417766400" by (simp add: round_half_even_def)
  have div: "fl_div 53 \<lparr>mant = 1000000, expo = 0\<rparr> \<lparr>mant = 10000, expo = 0\<rparr> = \<lparr>mant = 7036874417766400, expo = - 46\<rparr>"
    unfolding fl_div_def Let_def by (simp add: b q fl_round_def Let_def r)
  have m: "fl_mult 53 (double_of 1000) (double_of 1000) = \<lparr>mant = 1000000, expo = 0\<rparr>"
    by (simp add: d fl_mult_def fl_round_small)
  have one: "fl_mult 53 \<lparr>mant = 7036874417766400, expo = - 46\<rparr> (double_of 1) = \<lparr>mant = 7036874417766400, expo = - 46\<rparr>"
    by (simp add: d fl_mult_def fl_round_small)
  have d4: "double_of 10000 = \<lparr>mant = 10000, expo = 0\<rparr>" by (simp add: d)
  show ?thesis unfolding expect_us_def m d4 div one Let_def by (simp add: fl_trunc_def)
qed

text \<open>The text \<open>struct\<close> is not a number, so the mode stays what the command line has made it. A benchmark whose flag
  is not changed runs; started in a reading mode it calls an uninitialised function pointer as soon as the flag is
  set to a building mode.\<close>

lemma bench_main_mode:
  assumes "parse ''struct'' = None" "expect_us (flag_qps F) (flag_batch F) (flag_concurrency F) = Inr us"
  shows "bench_main parse F modes = Inr () \<longleftrightarrow>
    flag_mode F \<in> {3, 4} \<longrightarrow> list_all (list_all (\<lambda>m. m = 3 \<or> m = 4)) modes"
  using assms by (auto simp: bench_main_def SetCommandLineOption_mode_def run_loop_def run_threads_ok select_run_once_def)

lemma bench_default: "parse ''struct'' = None \<Longrightarrow> bench_main parse default_flags modes = Inr ()"
  using bench_main_mode [of parse default_flags 100] expect_us_default by (simp add: default_flags_def)

lemma bench_zero_qps:
  "parse ''struct'' = None \<Longrightarrow> bench_main parse (default_flags\<lparr>flag_qps := 0\<rparr>) modes = Inl Undefined_conversion"
  by (simp add: bench_main_def SetCommandLineOption_mode_def run_loop_def default_flags_def expect_us_def)

end
