(* ===== verification/Cassandra_Client.thy ===== *)
theory Cassandra_Client
  imports Prelude
begin

text \<open>
  The Cassandra clients: \<open>example/cassandra_driver/main.cpp\<close> (the C driver, with its authentication
  callback) and \<open>example/brpc/cassandra_test.cpp\<close> (the brpc protocol). The driver and the server are
  arguments: whether the connection succeeds and what each query returns.
\<close>

subsection \<open>The authentication callback\<close>

text \<open>The response buffer: bytes not yet written are \<open>None\<close>. Writing past its end is an error.\<close>

definition buffer_write :: "nat \<Rightarrow> string \<Rightarrow> char option list \<Rightarrow> char option list cxx" where
  "buffer_write off bs buf =
     (if off + length bs \<le> length buf then Inr (take off buf @ map Some bs @ drop (off + length bs) buf)
      else Inl Invalid_access)"

definition NUL :: char where
  "NUL = CHR 0x00"

definition on_auth_initial :: "string \<Rightarrow> string \<Rightarrow> char option list cxx" where
  "on_auth_initial username password =
     (let username_size = word_of_nat (length username) :: size_t;
          password_size = word_of_nat (length password) :: size_t;
          size = username_size + password_size + 2
      in bind_cxx (buffer_write 0 [NUL] (replicate (unat size) None)) (\<lambda>b1.
         bind_cxx (buffer_write 1 username b1) (\<lambda>b2.
         bind_cxx (buffer_write (unat (username_size + 1)) [NUL] b2) (\<lambda>b3.
         buffer_write (unat (username_size + 2)) password b3))))"

text \<open>What the server reads: the two strings behind their zero bytes.\<close>

definition plain_text :: "string \<Rightarrow> string \<Rightarrow> string" where
  "plain_text username password = NUL # username @ NUL # password"

definition read_plain :: "string \<Rightarrow> string \<times> string" where
  "read_plain bs = (takeWhile (\<lambda>c. c \<noteq> NUL) (tl bs), tl (dropWhile (\<lambda>c. c \<noteq> NUL) (tl bs)))"

lemma buffer_write_fill:
  assumes "length pre = off" "length bs \<le> n"
  shows "buffer_write off bs (map Some pre @ replicate n None) = Inr (map Some (pre @ bs) @ replicate (n - length bs) None)"
  using assms by (simp add: buffer_write_def)

lemma on_auth_initial_writes:
  assumes "length username + length password + 2 < 2 ^ 64"
  shows "on_auth_initial username password = Inr (map Some (plain_text username password))"
proof -
  have s: "unat (word_of_nat (length username) + word_of_nat (length password) + 2 :: size_t) = length username + length password + 2"
    "unat (word_of_nat (length username) + 1 :: size_t) = length username + 1"
    "unat (word_of_nat (length username) + 2 :: size_t) = length username + 2"
    using assms unat_word_of_nat_64 [of "length username + length password + 2"]
      unat_word_of_nat_64 [of "length username + 1"] unat_word_of_nat_64 [of "length username + 2"]
    by (simp_all add: ac_simps)
  have 1: "buffer_write 0 [NUL] (replicate (length username + length password + 2) None) =
      Inr (map Some [NUL] @ replicate (length username + length password + 1) None)"
    using buffer_write_fill [of "[]" 0 "[NUL]" "length username + length password + 2"] by simp
  have 2: "buffer_write 1 username (map Some [NUL] @ replicate (length username + length password + 1) None) =
      Inr (map Some (NUL # username) @ replicate (length password + 1) None)"
    using buffer_write_fill [of "[NUL]" 1 username "length username + length password + 1"] by simp
  have 3: "buffer_write (length username + 1) [NUL] (map Some (NUL # username) @ replicate (length password + 1) None) =
      Inr (map Some (NUL # username @ [NUL]) @ replicate (length password) None)"
    using buffer_write_fill [of "NUL # username" "length username + 1" "[NUL]" "length password + 1"] by simp
  have 4: "buffer_write (length username + 2) password (map Some (NUL # username @ [NUL]) @ replicate (length password) None) =
      Inr (map Some (plain_text username password))"
    using buffer_write_fill [of "NUL # username @ [NUL]" "length username + 2" password "length password"]
    by (simp add: plain_text_def)
  show ?thesis unfolding on_auth_initial_def Let_def s 1 bind_cxx_Inr 2 3 4 by (rule refl)
qed

text \<open>C strings hold no zero byte, so the server gets the credentials back.\<close>

lemma plain_text_roundtrip: "NUL \<notin> set username \<Longrightarrow> read_plain (plain_text username password) = (username, password)"
  by (simp add: read_plain_def plain_text_def takeWhile_before) (induction username; auto)

subsection \<open>The driver program\<close>

datatype cass_object = Cluster | Session | Connect_future | Close_future | Statement nat | Result_future nat | Result nat

datatype cass_event = New cass_object | Free cass_object | Query string | Print string

text \<open>What a query returns: an error, no row, or a row with the columns \<open>emp_city\<close> and \<open>emp_id\<close>; a null column
  leaves the variable it should be stored in as it was.\<close>

datatype outcome = Query_error string | No_row | Row "string option" "int option"

record cass_lib =
  connected :: "string option"
  answer :: "nat \<Rightarrow> outcome"

definition query_text :: "nat \<Rightarrow> string" where
  "query_text i = ''SELECT emp_id,emp_name,emp_city,emp_phone,emp_sal FROM rs_test_space.emp WHERE emp_id = '' @
     decimal (i mod 11) @ '';''"

text \<open>The row is printed with the city in place of the name; a null city is a null character pointer.\<close>

definition print_row :: "string option \<Rightarrow> int option \<Rightarrow> cass_event list cxx" where
  "print_row city emp_id =
     (case city of
        None \<Rightarrow> Inl Null_deref
      | Some c \<Rightarrow> Inr [Print (''length:'' @ decimal (length c) @ '', emp_name:'' @ c @ '', id:'' @
          show_int (case emp_id of None \<Rightarrow> - 1 | Some x \<Rightarrow> x) @ '', emp_city:'' @ c)])"

definition one_query :: "cass_lib \<Rightarrow> nat \<Rightarrow> cass_event list cxx" where
  "one_query L i =
     bind_cxx (case answer L i of
         Query_error msg \<Rightarrow> Inr [Print (''Unable to run query: '' @ msg)]
       | No_row \<Rightarrow> Inr [New (Result i), Print ''null ptr'', Free (Result i)]
       | Row city emp_id \<Rightarrow> bind_cxx (print_row city emp_id) (\<lambda>out. Inr ([New (Result i)] @ out @ [Free (Result i)])))
     (\<lambda>body. Inr ([Query (query_text i), New (Statement i), New (Result_future i)] @ body @ [Free (Statement i), Free (Result_future i)]))"

fun query_loop :: "cass_lib \<Rightarrow> nat \<Rightarrow> nat \<Rightarrow> cass_event list cxx" where
  "query_loop L i 0 = Inr []"
| "query_loop L i (Suc n) = bind_cxx (one_query L i) (\<lambda>e. bind_cxx (query_loop L (Suc i) n) (\<lambda>es. Inr (e @ es)))"

text \<open>\<open>arg\<close> is the command line argument and \<open>stoi\<close> its conversion, whose exception ends the program.\<close>

definition driver_main :: "(string \<Rightarrow> int cxx) \<Rightarrow> cass_lib \<Rightarrow> string option \<Rightarrow> cass_event list cxx" where
  "driver_main stoi L arg =
     bind_cxx (noexcept_cxx (case arg of None \<Rightarrow> Inr 1000 | Some s \<Rightarrow> stoi s)) (\<lambda>total_req_count.
     bind_cxx (case connected L of
         None \<Rightarrow> bind_cxx (query_loop L 0 (nat total_req_count)) (\<lambda>es. Inr (es @ [New Close_future, Free Close_future]))
       | Some msg \<Rightarrow> Inr [Print (''Unable to connect: '' @ msg)])
     (\<lambda>body. Inr ([New Cluster, New Session, New Connect_future] @ body @ [Free Connect_future, Free Cluster, Free Session])))"

text \<open>Objects are created once and freed once, after their creation.\<close>

fun live_after :: "cass_object set \<Rightarrow> cass_event list \<Rightarrow> cass_object set option" where
  "live_after live [] = Some live"
| "live_after live (New x # es) = (if x \<in> live then None else live_after (insert x live) es)"
| "live_after live (Free x # es) = (if x \<in> live then live_after (live - {x}) es else None)"
| "live_after live (Query q # es) = live_after live es"
| "live_after live (Print s # es) = live_after live es"

lemma live_after_append: "live_after live (es @ fs) = Option.bind (live_after live es) (\<lambda>l. live_after l fs)"
  by (induction live es rule: live_after.induct) auto

definition query_objects :: "cass_object set" where
  "query_objects = range Statement \<union> range Result_future \<union> range Result"

lemma one_query_balanced:
  assumes "one_query L i = Inr es" "live \<inter> query_objects = {}"
  shows "live_after live es = Some live"
proof -
  have "Statement i \<notin> live" "Result_future i \<notin> live" "Result i \<notin> live" using assms(2) by (auto simp: query_objects_def)
  then show ?thesis using assms(1)
    by (auto simp: one_query_def print_row_def bind_cxx_eq_Inr live_after_append insert_Diff_if
        split: outcome.splits option.splits)
qed

lemma query_loop_balanced:
  "query_loop L i n = Inr es \<Longrightarrow> live \<inter> query_objects = {} \<Longrightarrow> live_after live es = Some live"
proof (induction L i n arbitrary: es rule: query_loop.induct)
  case (2 L i n)
  then obtain e fs where e: "one_query L i = Inr e" "query_loop L (Suc i) n = Inr fs" "es = e @ fs"
    by (auto simp: bind_cxx_eq_Inr)
  show ?case using one_query_balanced [OF e(1) 2(3)] 2(1) [OF e(2) 2(3)] by (simp add: e live_after_append)
qed simp

lemma driver_no_leak: "driver_main stoi L arg = Inr es \<Longrightarrow> live_after {} es = Some {}"
  using query_loop_balanced [of L 0 _ _ "{Connect_future, Session, Cluster}"]
  by (auto simp: driver_main_def bind_cxx_eq_Inr live_after_append query_objects_def insert_Diff_if image_iff split: option.splits)

text \<open>The program runs to its end unless a city is null, and sends the queries in order.\<close>

definition null_city :: "outcome \<Rightarrow> bool" where
  "null_city x \<longleftrightarrow> (case x of Row None _ \<Rightarrow> True | _ \<Rightarrow> False)"

lemma one_query_runs: "(\<exists>es. one_query L i = Inr es) \<longleftrightarrow> \<not> null_city (answer L i)"
  by (auto simp: one_query_def print_row_def null_city_def split: outcome.splits option.splits)

lemma query_loop_runs: "(\<exists>es. query_loop L i n = Inr es) \<longleftrightarrow> (\<forall>k < n. \<not> null_city (answer L (i + k)))"
proof (induction L i n rule: query_loop.induct)
  case (2 L i n)
  have "(\<exists>es. query_loop L i (Suc n) = Inr es) \<longleftrightarrow> (\<exists>e. one_query L i = Inr e) \<and> (\<exists>es. query_loop L (Suc i) n = Inr es)"
    by (auto simp: bind_cxx_eq_Inr)
  also have "\<dots> \<longleftrightarrow> \<not> null_city (answer L i) \<and> (\<forall>k < n. \<not> null_city (answer L (i + Suc k)))"
    using 2 one_query_runs [of L i] by (auto simp: bind_cxx_eq_Inr)
  finally show ?case by (metis Suc_less_eq add.right_neutral less_Suc_eq_0_disj)
qed simp

lemma one_query_text: "one_query L i = Inr es \<Longrightarrow> [q. Query q \<leftarrow> es] = [query_text i]"
  by (auto simp: one_query_def print_row_def bind_cxx_eq_Inr split: outcome.splits option.splits)

lemma query_loop_texts: "query_loop L i n = Inr es \<Longrightarrow> [q. Query q \<leftarrow> es] = map query_text [i..<i + n]"
proof (induction L i n arbitrary: es rule: query_loop.induct)
  case (2 L i n)
  then obtain e fs where e: "one_query L i = Inr e" "query_loop L (Suc i) n = Inr fs" "es = e @ fs"
    by (auto simp: bind_cxx_eq_Inr)
  have "[i..<i + Suc n] = i # [Suc i..<Suc i + n]" by (simp add: upt_conv_Cons)
  then show ?case using one_query_text [OF e(1)] 2(1) [OF e(2)] by (simp add: e)
qed simp

subsection \<open>The brpc program\<close>

text \<open>\<open>row_count\<close> and the three columns of each row; a column that could not be read leaves its variable as it
  was, and \<open>emp_id\<close> starts uninitialised.\<close>

record dmp_row =
  dmp_id :: "int option"
  dmp_name :: "string option"
  dmp_city :: "string option"

definition print_dmp_row :: "nat \<Rightarrow> dmp_row \<Rightarrow> string cxx" where
  "print_dmp_row row_count r =
     (case dmp_id r of
        None \<Rightarrow> Inl Invalid_access
      | Some x \<Rightarrow> Inr (''length:'' @ decimal row_count @ '', emp_name:'' @ (case dmp_name r of None \<Rightarrow> [] | Some s \<Rightarrow> s) @
          '', id:'' @ show_int x @ '', emp_city:'' @ (case dmp_city r of None \<Rightarrow> [] | Some s \<Rightarrow> s)))"

fun print_dmp_rows :: "nat \<Rightarrow> dmp_row list \<Rightarrow> string list cxx" where
  "print_dmp_rows n [] = Inr []"
| "print_dmp_rows n (r # rs) = bind_cxx (print_dmp_row n r) (\<lambda>s. bind_cxx (print_dmp_rows n rs) (\<lambda>ss. Inr (s # ss)))"

text \<open>\<open>None\<close> is a failed call.\<close>

definition GetDmpDataFromCassandra :: "dmp_row list option \<Rightarrow> (bool \<times> string list) cxx" where
  "GetDmpDataFromCassandra resp =
     (case resp of
        None \<Rightarrow> Inr (False, [])
      | Some rows \<Rightarrow> if 0 < length rows then bind_cxx (print_dmp_rows (length rows) rows) (\<lambda>out. Inr (True, out)) else Inr (True, []))"

lemma print_dmp_rows_ok:
  "(\<exists>out. print_dmp_rows n rows = Inr out \<and> length out = length rows) \<longleftrightarrow> list_all (\<lambda>r. dmp_id r \<noteq> None) rows"
  by (induction rows) (auto simp: print_dmp_row_def bind_cxx_eq_Inr split: option.splits)

lemma GetDmpData_uninitialised:
  "GetDmpDataFromCassandra (Some rows) = Inl Invalid_access \<longleftrightarrow> \<not> list_all (\<lambda>r. dmp_id r \<noteq> None) rows"
proof -
  have "print_dmp_rows n rows = Inl Invalid_access \<longleftrightarrow> \<not> list_all (\<lambda>r. dmp_id r \<noteq> None) rows" for n
    by (induction rows) (auto simp: print_dmp_row_def bind_cxx_eq_Inl split: option.splits)
  then show ?thesis by (auto simp: GetDmpDataFromCassandra_def bind_cxx_eq_Inl)
qed

text \<open>The program: \<open>init\<close> is what \<open>Channel::Init\<close> returns, \<open>resp i\<close> the answer to query \<open>i\<close>. It returns its exit
  status, what it prints and how many times it deletes the authenticator it has created.\<close>

record dmp_run =
  exit_status :: int
  lines_out :: "string list"
  auth_deletes :: nat

definition dmp_query :: "nat \<Rightarrow> string" where
  "dmp_query i =
     ''SELECT emp_id,emp_name,emp_city,emp_phone,emp_sal FROM rs_test_space.emp WHERE emp_id = '' @ decimal (i mod 11) @ '';''"

fun dmp_loop :: "(nat \<Rightarrow> dmp_row list option) \<Rightarrow> nat \<Rightarrow> nat \<Rightarrow> string list cxx" where
  "dmp_loop resp i 0 = Inr []"
| "dmp_loop resp i (Suc n) =
     bind_cxx (GetDmpDataFromCassandra (resp i)) (\<lambda>(res, out).
     bind_cxx (dmp_loop resp (Suc i) n) (\<lambda>rest. Inr (dmp_query i # out @ rest)))"

definition dmp_main :: "(string \<Rightarrow> int cxx) \<Rightarrow> int \<Rightarrow> (nat \<Rightarrow> dmp_row list option) \<Rightarrow> string option \<Rightarrow> dmp_run cxx" where
  "dmp_main stoi init resp arg =
     (if init \<noteq> 0 then Inr \<lparr>exit_status = 0, lines_out = [], auth_deletes = 0\<rparr>
      else bind_cxx (noexcept_cxx (case arg of None \<Rightarrow> Inr 1000 | Some s \<Rightarrow> stoi s)) (\<lambda>total_req_count.
           bind_cxx (dmp_loop resp 0 (nat total_req_count)) (\<lambda>out.
           Inr \<lparr>exit_status = 0, lines_out = out, auth_deletes = 1\<rparr>)))"

text \<open>The loop reads an uninitialised variable exactly if some answer has a row without \<open>emp_id\<close>.\<close>

definition reads_uninitialised :: "dmp_row list option \<Rightarrow> bool" where
  "reads_uninitialised x \<longleftrightarrow> (case x of None \<Rightarrow> False | Some rows \<Rightarrow> \<not> list_all (\<lambda>r. dmp_id r \<noteq> None) rows)"

lemma GetDmpData_outcome:
  "if reads_uninitialised x then GetDmpDataFromCassandra x = Inl Invalid_access
   else \<exists>out. GetDmpDataFromCassandra x = Inr (x \<noteq> None, out)"
proof (cases x)
  case None
  then show ?thesis by (simp add: reads_uninitialised_def GetDmpDataFromCassandra_def)
next
  case (Some rows)
  then show ?thesis using GetDmpData_uninitialised [of rows] print_dmp_rows_ok [of "length rows" rows]
    by (auto simp: reads_uninitialised_def GetDmpDataFromCassandra_def)
qed

lemma dmp_loop_outcome:
  "if \<exists>k < n. reads_uninitialised (resp (i + k)) then dmp_loop resp i n = Inl Invalid_access
   else \<exists>out. dmp_loop resp i n = Inr out"
proof (induction resp i n rule: dmp_loop.induct)
  case (2 resp i n)
  have split: "(\<exists>k < Suc n. reads_uninitialised (resp (i + k))) \<longleftrightarrow>
      reads_uninitialised (resp i) \<or> (\<exists>k < n. reads_uninitialised (resp (Suc i + k)))"
    by (auto simp: less_Suc_eq_0_disj)
  show ?case
  proof (cases "reads_uninitialised (resp i)")
    case True
    then show ?thesis using GetDmpData_outcome [of "resp i"] split by simp
  next
    case False
    then obtain b out where g: "GetDmpDataFromCassandra (resp i) = Inr (b, out)"
      using GetDmpData_outcome [of "resp i"] by auto
    show ?thesis using 2 False by (auto simp: g split split del: if_split split: if_splits)
  qed
qed simp

text \<open>Whatever happens to the queries, the exit status is 0; the authenticator is deleted unless the channel fails.\<close>

lemma dmp_main_outcome:
  "dmp_main stoi init resp arg = Inr r \<Longrightarrow> exit_status r = 0 \<and> auth_deletes r = (if init = 0 then 1 else 0)"
  by (auto simp: dmp_main_def bind_cxx_eq_Inr split: if_splits)

lemma dmp_main_default:
  "(\<exists>r. dmp_main stoi 0 resp None = Inr r) \<longleftrightarrow> (\<nexists>k. k < 1000 \<and> reads_uninitialised (resp k))"
  using dmp_loop_outcome [of 1000 resp 0] by (auto simp: dmp_main_def bind_cxx_eq_Inr split: if_splits)

end
