(* ===== verification/Boost_Graphs.thy ===== *)
theory Boost_Graphs
  imports Prelude
begin

text \<open>
  The programs on \<open>boost::adjacency_list\<close> (\<open>example/boost/graph_test.cpp\<close>, \<open>my_graph_test.h\<close>). The library's graphs are
  arguments; what its documentation says of them is a hypothesis. The programs are functions to what they print, line by line.
\<close>

subsection \<open>Vertices as numbers\<close>

record 'g adjacency_list =
  empty_graph :: 'g
  add_vertex :: "'g \<Rightarrow> nat \<times> 'g"
  add_edge :: "nat \<Rightarrow> nat \<Rightarrow> 'g \<Rightarrow> 'g"
  vertices :: "'g \<Rightarrow> nat list"
  adjacent_vertices :: "nat \<Rightarrow> 'g \<Rightarrow> nat list"

definition build_test_graph :: "'g adjacency_list \<Rightarrow> string" where
  "build_test_graph L =
     (let (v1, g1) = add_vertex L (empty_graph L); (v2, g2) = add_vertex L g1;
          (v3, g3) = add_vertex L g2; (v4, g4) = add_vertex L g3
      in decimal v1 @ '', '' @ decimal v2 @ '', '' @ decimal v3 @ '', '' @ decimal v4)"

definition print_adjacent :: "'g adjacency_list \<Rightarrow> string \<Rightarrow> 'g \<Rightarrow> string list" where
  "print_adjacent L txt g =
     map (\<lambda>v. decimal v @ txt @ concat (map (\<lambda>w. decimal w @ '' '') (adjacent_vertices L v g))) (vertices L g)"

definition build_test_graph1 :: "'g adjacency_list \<Rightarrow> string list" where
  "build_test_graph1 L =
     (let g = add_edge L 2 3 (add_edge L 1 2 (add_edge L 0 3 (add_edge L 0 1 (empty_graph L))))
      in print_adjacent L '' is connected with '' g)"

text \<open>\<open>graph_test\<close> prints and then reaches the end of a function that should return an \<open>int\<close>.\<close>

definition graph_test :: "'g adjacency_list \<Rightarrow> string list \<times> int cxx" where
  "graph_test L =
     (let g = add_edge L 3 4 (add_edge L 2 3 (add_edge L 1 4 (add_edge L 5 1 (add_edge L 0 5 (add_edge L 0 2
            (add_edge L 0 1 (empty_graph L)))))))
      in (print_adjacent L '' yes '' g, Inl Missing_return))"

text \<open>With \<open>vecS\<close> the vertices are the numbers from 0 on and an edge to a number beyond them adds the missing ones; an
  undirected edge is listed at both its ends, a directed one at its source, in order of insertion.\<close>

definition lists_edges :: "bool \<Rightarrow> 'g adjacency_list \<Rightarrow> bool" where
  "lists_edges directed L \<longleftrightarrow> vertices L (empty_graph L) = [] \<and> (\<forall>w. adjacent_vertices L w (empty_graph L) = []) \<and>
     (\<forall>g n. vertices L g = [0..<n] \<longrightarrow> fst (add_vertex L g) = n \<and> vertices L (snd (add_vertex L g)) = [0..<Suc n]) \<and>
     (\<forall>g n u v. vertices L g = [0..<n] \<longrightarrow> vertices L (add_edge L u v g) = [0..<max n (Suc (max u v))]) \<and>
     (\<forall>g u v w. adjacent_vertices L w (add_edge L u v g) =
        adjacent_vertices L w g @ (if w = u then [v] else []) @ (if w = v \<and> \<not> directed then [u] else []))"

lemma lists_edgesD:
  assumes "lists_edges directed L"
  shows "vertices L (empty_graph L) = [0..<0]" "adjacent_vertices L w (empty_graph L) = []"
    "vertices L g = [0..<n] \<Longrightarrow> fst (add_vertex L g) = n" "vertices L g = [0..<n] \<Longrightarrow> vertices L (snd (add_vertex L g)) = [0..<Suc n]"
    "vertices L g = [0..<n] \<Longrightarrow> vertices L (add_edge L u v g) = [0..<max n (Suc (max u v))]"
    "adjacent_vertices L w (add_edge L u v g) =
        adjacent_vertices L w g @ (if w = u then [v] else []) @ (if w = v \<and> \<not> directed then [u] else [])"
  using assms by (simp_all add: lists_edges_def)

lemma add_edge_vertices:
  assumes "lists_edges directed L" "vertices L g = [0..<n]" "max n (Suc (max u v)) = m"
  shows "vertices L (add_edge L u v g) = [0..<m]"
  using lists_edgesD(5) [OF assms(1,2)] assms(3) by simp

lemma upt_numbers: "[0..<4] = [0, 1, 2, 3 :: nat]" "[0..<6] = [0, 1, 2, 3, 4, 5 :: nat]"
  by code_simp+

lemma digit_strings: "decimal 0 = ''0''" "decimal 1 = ''1''" "decimal (Suc 0) = ''1''" "decimal 2 = ''2''" "decimal 3 = ''3''" "decimal 4 = ''4''" "decimal 5 = ''5''"
  by code_simp+

lemma build_test_graph_prints:
  assumes "lists_edges directed L"
  shows "build_test_graph L = ''0, 1, 2, 3''"
proof -
  obtain v1 g1 where 1: "add_vertex L (empty_graph L) = (v1, g1)" by (cases "add_vertex L (empty_graph L)")
  obtain v2 g2 where 2: "add_vertex L g1 = (v2, g2)" by (cases "add_vertex L g1")
  obtain v3 g3 where 3: "add_vertex L g2 = (v3, g3)" by (cases "add_vertex L g2")
  obtain v4 g4 where 4: "add_vertex L g3 = (v4, g4)" by (cases "add_vertex L g3")
  note d = lists_edgesD [OF assms]
  have v1: "v1 = 0" "vertices L g1 = [0..<1]" using d(3,4) [OF d(1)] 1 by simp_all
  have v2: "v2 = 1" "vertices L g2 = [0..<2]" using d(3,4) [OF v1(2)] 2 by (simp_all add: numeral_2_eq_2)
  have v3: "v3 = 2" "vertices L g3 = [0..<3]" using d(3,4) [OF v2(2)] 3 by (simp_all add: numeral_3_eq_3 numeral_2_eq_2)
  have v4: "v4 = 3" using d(3) [OF v3(2)] 4 by simp
  show ?thesis by (simp add: build_test_graph_def 1 2 3 4 v1 v2 v3 v4 digit_strings)
qed

lemma build_test_graph1_prints:
  assumes "lists_edges False L"
  shows "build_test_graph1 L =
    [''0 is connected with 1 3 '', ''1 is connected with 0 2 '', ''2 is connected with 1 3 '', ''3 is connected with 0 2 '']"
proof -
  note d = lists_edgesD [OF assms] and step = add_edge_vertices [OF assms]
  let ?g = "add_edge L 2 3 (add_edge L 1 2 (add_edge L 0 3 (add_edge L 0 1 (empty_graph L))))"
  have "vertices L ?g = [0..<4]" by (rule step [OF step [OF step [OF step [OF d(1) refl] refl] refl]]) simp
  then show ?thesis by (simp add: build_test_graph1_def print_adjacent_def d(2,6) upt_numbers digit_strings)
qed

lemma graph_test_outcome:
  assumes "lists_edges True L"
  shows "graph_test L =
    ([''0 yes 1 2 5 '', ''1 yes 4 '', ''2 yes 3 '', ''3 yes 4 '', ''4 yes '', ''5 yes 1 ''], Inl Missing_return)"
proof -
  note d = lists_edgesD [OF assms] and step = add_edge_vertices [OF assms]
  let ?g = "add_edge L 3 4 (add_edge L 2 3 (add_edge L 1 4 (add_edge L 5 1 (add_edge L 0 5 (add_edge L 0 2
            (add_edge L 0 1 (empty_graph L)))))))"
  have "vertices L ?g = [0..<6]"
    by (rule step [OF step [OF step [OF step [OF step [OF step [OF step [OF d(1) refl] refl] refl] refl] refl] refl]]) simp
  then show ?thesis by (simp add: graph_test_def print_adjacent_def d(2,6) upt_numbers digit_strings)
qed

text \<open>The hypothesis can hold: a graph as its number of vertices and its edges.\<close>

definition edge_list_graph :: "bool \<Rightarrow> (nat \<times> (nat \<times> nat) list) adjacency_list" where
  "edge_list_graph directed = \<lparr>empty_graph = (0, []), add_vertex = (\<lambda>(n, es). (n, (Suc n, es))),
     add_edge = (\<lambda>u v (n, es). (max n (Suc (max u v)), es @ [(u, v)])), vertices = (\<lambda>(n, es). [0..<n]),
     adjacent_vertices = (\<lambda>w (n, es). concat (map (\<lambda>(u, v). (if w = u then [v] else []) @
       (if w = v \<and> \<not> directed then [u] else [])) es))\<rparr>"

lemma edge_list_graph_lists: "lists_edges directed (edge_list_graph directed)"
proof -
  have eq: "[0..<n] = [0..<m] \<longleftrightarrow> n = m" for n m by (metis length_upt minus_nat.diff_0)
  show ?thesis by (simp add: lists_edges_def edge_list_graph_def split_paired_all eq del: upt_Suc)
qed

subsection \<open>Edges with properties\<close>

text \<open>With \<open>listS\<close> vertex descriptors are opaque. A vertex carries an index, an edge a name; \<open>print_edges\<close> is the library's.\<close>

record ('g, 'v, 'e) property_graph =
  graph_of :: "nat \<Rightarrow> 'g"
  pg_vertices :: "'g \<Rightarrow> 'v list"
  vertex :: "nat \<Rightarrow> 'g \<Rightarrow> 'v"
  pg_add_edge :: "'v \<Rightarrow> 'v \<Rightarrow> string \<Rightarrow> 'g \<Rightarrow> 'g"
  out_edges :: "'v \<Rightarrow> 'g \<Rightarrow> 'e list"
  edge_name :: "'e \<Rightarrow> 'g \<Rightarrow> string"
  source :: "'e \<Rightarrow> 'g \<Rightarrow> 'v"
  target :: "'e \<Rightarrow> 'g \<Rightarrow> 'v"
  remove_between :: "'v \<Rightarrow> 'v \<Rightarrow> 'g \<Rightarrow> 'g"
  remove_edge :: "'e \<Rightarrow> 'g \<Rightarrow> 'g"
  print_edges :: "('v \<Rightarrow> nat) \<Rightarrow> 'g \<Rightarrow> string list"

text \<open>The loop that numbers the vertices, and the loop that prints the edges at each vertex.\<close>

fun number_vertices :: "'v list \<Rightarrow> nat \<Rightarrow> ('v \<Rightarrow> nat) \<Rightarrow> 'v \<Rightarrow> nat" where
  "number_vertices [] vnum ids = ids"
| "number_vertices (v # vs) vnum ids = number_vertices vs (Suc vnum) (ids(v := vnum))"

definition print_out_edges :: "('g, 'v, 'e) property_graph \<Rightarrow> ('v \<Rightarrow> nat) \<Rightarrow> 'g \<Rightarrow> string list" where
  "print_out_edges L ids g =
     map (\<lambda>v. decimal (ids v) @ '' '' @ concat (map (\<lambda>e. '' --'' @ edge_name L e g @ ''--> '' @ decimal (ids (target L e g)) @ ''  '')
       (out_edges L v g))) (pg_vertices L g)"

definition add_the_edges :: "('g, 'v, 'e) property_graph \<Rightarrow> 'g \<Rightarrow> 'g" where
  "add_the_edges L g0 =
     (let g1 = pg_add_edge L (vertex L 0 g0) (vertex L 1 g0) ''joe'' g0;
          g2 = pg_add_edge L (vertex L 1 g1) (vertex L 2 g1) ''curly'' g1;
          g3 = pg_add_edge L (vertex L 1 g2) (vertex L 3 g2) ''dick'' g2;
          g4 = pg_add_edge L (vertex L 2 g3) (vertex L 4 g3) ''tom'' g3
      in pg_add_edge L (vertex L 3 g4) (vertex L 4 g4) ''harry'' g4)"

text \<open>\<open>first\<close> of an empty range of edges must not be read.\<close>

definition build_adjacency_list :: "('g, 'v, 'e) property_graph \<Rightarrow> ('v \<Rightarrow> nat) \<Rightarrow> string list cxx" where
  "build_adjacency_list L ids0 =
     (let g0 = graph_of L 5;
          ids = number_vertices (pg_vertices L g0) 0 ids0;
          g5 = add_the_edges L g0;
          g6 = remove_between L (vertex L 1 g5) (vertex L 3 g5) g5
      in case out_edges L (vertex L 1 g6) g6 of
           [] \<Rightarrow> Inl Invalid_access
         | ei # _ \<Rightarrow>
             let g7 = remove_edge L ei g6
             in Inr (print_out_edges L ids g5 @ print_edges L ids g5 @ [[], ''removing edge (1,3): ''] @
                  [''removing edge ('' @ decimal (ids (source L ei g6)) @ '','' @ decimal (ids (target L ei g6)) @ '')''] @
                  print_out_edges L ids g7 @ print_edges L ids g7))"

text \<open>What a vertex's edges look like: their names and other ends, in order of insertion.\<close>

definition edges_at :: "('g, 'v, 'e) property_graph \<Rightarrow> 'g \<Rightarrow> 'v \<Rightarrow> (string \<times> 'v) list" where
  "edges_at L g v = map (\<lambda>e. (edge_name L e g, target L e g)) (out_edges L v g)"

definition keeps_edges :: "('g, 'v, 'e) property_graph \<Rightarrow> bool" where
  "keeps_edges L \<longleftrightarrow>
     (\<forall>n. distinct (pg_vertices L (graph_of L n)) \<and> length (pg_vertices L (graph_of L n)) = n) \<and>
     (\<forall>n v. edges_at L (graph_of L n) v = []) \<and> (\<forall>k g. vertex L k g = pg_vertices L g ! k) \<and>
     (\<forall>u v s g. pg_vertices L (pg_add_edge L u v s g) = pg_vertices L g) \<and>
     (\<forall>u v g. pg_vertices L (remove_between L u v g) = pg_vertices L g) \<and>
     (\<forall>e g. pg_vertices L (remove_edge L e g) = pg_vertices L g) \<and>
     (\<forall>u v s g w. u \<noteq> v \<longrightarrow> edges_at L (pg_add_edge L u v s g) w =
        edges_at L g w @ (if w = u then [(s, v)] else if w = v then [(s, u)] else [])) \<and>
     (\<forall>u v g w. edges_at L (remove_between L u v g) w =
        filter (\<lambda>(s, x). \<not> (w = u \<and> x = v \<or> w = v \<and> x = u)) (edges_at L g w)) \<and>
     (\<forall>g v e. e \<in> set (out_edges L v g) \<longrightarrow> source L e g = v) \<and>
     (\<forall>g v e es w. out_edges L v g = e # es \<longrightarrow> target L e g \<noteq> v \<longrightarrow>
        edges_at L (remove_edge L e g) w =
          (if w = v then tl (edges_at L g v)
           else if w = target L e g then remove1 (edge_name L e g, v) (edges_at L g w) else edges_at L g w))"

lemma keeps_edgesD:
  assumes "keeps_edges L"
  shows "distinct (pg_vertices L (graph_of L n))" "length (pg_vertices L (graph_of L n)) = n"
    "edges_at L (graph_of L n) v = []" "vertex L k g = pg_vertices L g ! k"
    "pg_vertices L (pg_add_edge L u v s g) = pg_vertices L g" "pg_vertices L (remove_between L u v g) = pg_vertices L g"
    "pg_vertices L (remove_edge L e g) = pg_vertices L g"
    "u \<noteq> v \<Longrightarrow> edges_at L (pg_add_edge L u v s g) w =
        edges_at L g w @ (if w = u then [(s, v)] else if w = v then [(s, u)] else [])"
    "edges_at L (remove_between L u v g) w = filter (\<lambda>(s, x). \<not> (w = u \<and> x = v \<or> w = v \<and> x = u)) (edges_at L g w)"
    "e \<in> set (out_edges L v g) \<Longrightarrow> source L e g = v"
    "out_edges L v g = e # es \<Longrightarrow> target L e g \<noteq> v \<Longrightarrow>
        edges_at L (remove_edge L e g) w =
          (if w = v then tl (edges_at L g v)
           else if w = target L e g then remove1 (edge_name L e g, v) (edges_at L g w) else edges_at L g w)"
  using assms by (simp_all add: keeps_edges_def)

lemma print_out_edges_at:
  "print_out_edges L ids g = map (\<lambda>v. decimal (ids v) @ '' '' @ concat (map (\<lambda>(s, w). '' --'' @ s @ ''--> '' @ decimal (ids w) @ ''  '')
     (edges_at L g v))) (pg_vertices L g)"
  by (simp add: print_out_edges_def edges_at_def comp_def)

lemma five_vertices:
  assumes "distinct vs" "length vs = 5"
  obtains a b c d e where "vs = [a, b, c, d, e]" "distinct [a, b, c, d, e]"
  using assms by (auto simp: numeral_eq_Suc length_Suc_conv)

lemma edges_added:
  assumes "keeps_edges L" "pg_vertices L (graph_of L 5) = [v0, v1, v2, v3, v4]" "distinct [v0, v1, v2, v3, v4]"
  shows "pg_vertices L (add_the_edges L (graph_of L 5)) = [v0, v1, v2, v3, v4]"
    "map (edges_at L (add_the_edges L (graph_of L 5))) [v0, v1, v2, v3, v4] =
      [[(''joe'', v1)], [(''joe'', v0), (''curly'', v2), (''dick'', v3)], [(''curly'', v1), (''tom'', v4)],
       [(''dick'', v1), (''harry'', v4)], [(''tom'', v2), (''harry'', v3)]]"
  using assms(2,3) by (auto simp: add_the_edges_def Let_def keeps_edgesD [OF assms(1)])

lemma edges_removed:
  assumes L: "keeps_edges L" and v: "pg_vertices L g = [v0, v1, v2, v3, v4]" and dist: "distinct [v0, v1, v2, v3, v4]"
    and e: "map (edges_at L g) [v0, v1, v2, v3, v4] =
      [[(''joe'', v1)], [(''joe'', v0), (''curly'', v2), (''dick'', v3)], [(''curly'', v1), (''tom'', v4)],
       [(''dick'', v1), (''harry'', v4)], [(''tom'', v2), (''harry'', v3)]]"
    and g6: "g6 = remove_between L v1 v3 g"
  obtains ei es where "out_edges L v1 g6 = ei # es" "source L ei g6 = v1" "target L ei g6 = v0"
    "pg_vertices L (remove_edge L ei g6) = [v0, v1, v2, v3, v4]"
    "map (edges_at L (remove_edge L ei g6)) [v0, v1, v2, v3, v4] =
      [[], [(''curly'', v2)], [(''curly'', v1), (''tom'', v4)], [(''harry'', v4)], [(''tom'', v2), (''harry'', v3)]]"
proof -
  note d = keeps_edgesD [OF L]
  have e6: "edges_at L g6 v0 = [(''joe'', v1)]" "edges_at L g6 v1 = [(''joe'', v0), (''curly'', v2)]"
    "edges_at L g6 v2 = [(''curly'', v1), (''tom'', v4)]" "edges_at L g6 v3 = [(''harry'', v4)]"
    "edges_at L g6 v4 = [(''tom'', v2), (''harry'', v3)]"
    using dist e by (auto simp: g6 d(9))
  obtain ei es where ei: "out_edges L v1 g6 = ei # es" "edge_name L ei g6 = ''joe''" "target L ei g6 = v0"
    using e6(2) by (auto simp: edges_at_def)
  have e7: "edges_at L (remove_edge L ei g6) w = (if w = v1 then [(''curly'', v2)] else if w = v0 then [] else edges_at L g6 w)" for w
    using d(11) [OF ei(1), of w] dist ei e6 by auto
  show ?thesis
    by (rule that [OF ei(1) _ ei(3)]) (use dist in \<open>auto simp: d(10) ei(1) d(6,7) v g6 [symmetric] e7 e6\<close>, simp add: d(6) g6 v)
qed

text \<open>The program removes the edge (1,3), and then the first edge left at vertex 1, which is the one to vertex 0.\<close>

lemma build_adjacency_list_prints:
  assumes "keeps_edges L"
  shows "\<exists>out1 out2. build_adjacency_list L ids0 = Inr (
    [''0  --joe--> 1  '', ''1  --joe--> 0   --curly--> 2   --dick--> 3  '', ''2  --curly--> 1   --tom--> 4  '',
     ''3  --dick--> 1   --harry--> 4  '', ''4  --tom--> 2   --harry--> 3  ''] @ out1 @
    [[], ''removing edge (1,3): '', ''removing edge (1,0)'',
     ''0 '', ''1  --curly--> 2  '', ''2  --curly--> 1   --tom--> 4  '', ''3  --harry--> 4  '', ''4  --tom--> 2   --harry--> 3  ''] @ out2)"
proof -
  note d = keeps_edgesD [OF assms]
  obtain v0 v1 v2 v3 v4 where vs: "pg_vertices L (graph_of L 5) = [v0, v1, v2, v3, v4]" and dist: "distinct [v0, v1, v2, v3, v4]"
    using five_vertices [OF d(1) [of 5] d(2) [of 5]] by blast
  define ids where "ids = number_vertices [v0, v1, v2, v3, v4] 0 ids0"
  have ids: "ids v0 = 0" "ids v1 = 1" "ids v2 = 2" "ids v3 = 3" "ids v4 = 4" using dist by (auto simp: ids_def)
  define g5 where "g5 = add_the_edges L (graph_of L 5)"
  note e5 = edges_added [OF assms vs dist, folded g5_def]
  define g6 where "g6 = remove_between L v1 v3 g5"
  from edges_removed [OF assms e5(1) dist e5(2) g6_def] obtain ei es where ei: "out_edges L v1 g6 = ei # es"
    "source L ei g6 = v1" "target L ei g6 = v0" "pg_vertices L (remove_edge L ei g6) = [v0, v1, v2, v3, v4]"
    "map (edges_at L (remove_edge L ei g6)) [v0, v1, v2, v3, v4] =
      [[], [(''curly'', v2)], [(''curly'', v1), (''tom'', v4)], [(''harry'', v4)], [(''tom'', v2), (''harry'', v3)]]"
    by blast
  have v6: "pg_vertices L g6 = [v0, v1, v2, v3, v4]" by (simp add: g6_def d(6) e5(1))
  have "build_adjacency_list L ids0 = Inr (print_out_edges L ids g5 @ print_edges L ids g5 @ [[], ''removing edge (1,3): '',
      ''removing edge ('' @ decimal (ids v1) @ '','' @ decimal (ids v0) @ '')''] @
      print_out_edges L ids (remove_edge L ei g6) @ print_edges L ids (remove_edge L ei g6))"
    by (simp add: build_adjacency_list_def Let_def d(4) vs e5(1) v6 ei del: number_vertices.simps flip: ids_def g5_def g6_def)
  moreover have "print_out_edges L ids g5 = [''0  --joe--> 1  '', ''1  --joe--> 0   --curly--> 2   --dick--> 3  '',
      ''2  --curly--> 1   --tom--> 4  '', ''3  --dick--> 1   --harry--> 4  '', ''4  --tom--> 2   --harry--> 3  '']"
    using e5(2) by (simp add: print_out_edges_at e5(1) ids digit_strings)
  moreover have "print_out_edges L ids (remove_edge L ei g6) = [''0 '', ''1  --curly--> 2  '', ''2  --curly--> 1   --tom--> 4  '',
      ''3  --harry--> 4  '', ''4  --tom--> 2   --harry--> 3  '']"
    using ei(5) by (simp add: print_out_edges_at ei(4) ids digit_strings)
  ultimately show ?thesis by (auto simp: ids digit_strings)
qed

text \<open>The hypothesis can hold: a graph as its number of vertices and its list of named edges.\<close>

definition ends :: "nat \<Rightarrow> nat \<times> string \<times> nat \<Rightarrow> (string \<times> nat) list" where
  "ends v e = (case e of (u, s, w) \<Rightarrow> if v = u then [(s, w)] else if v = w then [(s, u)] else [])"

fun drop_edge :: "nat \<times> string \<times> nat \<Rightarrow> (nat \<times> string \<times> nat) list \<Rightarrow> (nat \<times> string \<times> nat) list" where
  "drop_edge e [] = []"
| "drop_edge (v, s, x) (e # es) = (if e = (v, s, x) \<or> e = (x, s, v) then es else e # drop_edge (v, s, x) es)"

definition named_edges :: "(nat \<times> (nat \<times> string \<times> nat) list, nat, nat \<times> string \<times> nat) property_graph" where
  "named_edges = \<lparr>graph_of = (\<lambda>n. (n, [])), pg_vertices = (\<lambda>g. [0..<fst g]), vertex = (\<lambda>k g. [0..<fst g] ! k),
     pg_add_edge = (\<lambda>u v s g. (fst g, snd g @ [(u, s, v)])),
     out_edges = (\<lambda>v g. map (Pair v) (concat (map (ends v) (snd g)))), edge_name = (\<lambda>e g. fst (snd e)),
     source = (\<lambda>e g. fst e), target = (\<lambda>e g. snd (snd e)),
     remove_between = (\<lambda>u v g. (fst g, filter (\<lambda>(a, s, b). \<not> (a = u \<and> b = v \<or> a = v \<and> b = u)) (snd g))),
     remove_edge = (\<lambda>e g. (fst g, drop_edge e (snd g))), print_edges = (\<lambda>ids g. [])\<rparr>"

lemma ends_filter:
  "concat (map (ends w) (filter (\<lambda>(a, s, b). \<not> (a = u \<and> b = v \<or> a = v \<and> b = u)) es)) =
   filter (\<lambda>(s, x). \<not> (w = u \<and> x = v \<or> w = v \<and> x = u)) (concat (map (ends w) es))"
  by (induction es) (auto simp: ends_def)

lemma ends_drop_first:
  "concat (map (ends v) es) = (s, x) # zs \<Longrightarrow> concat (map (ends v) (drop_edge (v, s, x) es)) = zs"
  by (induction es) (auto simp: ends_def split: if_splits)

lemma ends_drop_other:
  "x \<noteq> v \<Longrightarrow> concat (map (ends x) (drop_edge (v, s, x) es)) = remove1 (s, v) (concat (map (ends x) es))"
  by (induction es) (auto simp: ends_def remove1_append split: if_splits)

lemma ends_drop_rest:
  "w \<noteq> v \<Longrightarrow> w \<noteq> x \<Longrightarrow> concat (map (ends w) (drop_edge (v, s, x) es)) = concat (map (ends w) es)"
  by (induction es) (auto simp: ends_def)

lemma named_edges_keeps: "keeps_edges named_edges"
proof -
  have at: "edges_at named_edges g v = concat (map (ends v) (snd g))" for g v
    by (simp add: edges_at_def named_edges_def comp_def)
  have rm: "edges_at named_edges (remove_edge named_edges e g) w =
      (if w = v then tl (edges_at named_edges g v)
       else if w = target named_edges e g then remove1 (edge_name named_edges e g, v) (edges_at named_edges g w)
       else edges_at named_edges g w)"
    if "out_edges named_edges v g = e # es" "target named_edges e g \<noteq> v" for g v e es w
  proof -
    have "map (Pair v) (concat (map (ends v) (snd g))) = e # es" using that(1) by (simp add: named_edges_def)
    then obtain s x zs where c: "concat (map (ends v) (snd g)) = (s, x) # zs" "e = (v, s, x)"
      unfolding map_eq_Cons_conv by (metis surj_pair)
    then have x: "x \<noteq> v" using that(2) by (simp add: named_edges_def)
    show ?thesis unfolding at using c(2) ends_drop_first [OF c(1)] ends_drop_other [OF x] ends_drop_rest [of w v x] c(1)
      by (auto simp: named_edges_def)
  qed
  show ?thesis unfolding keeps_edges_def
  proof (intro conjI allI impI)
    show "edges_at named_edges (remove_between named_edges u v g) w =
        filter (\<lambda>(s, x). \<not> (w = u \<and> x = v \<or> w = v \<and> x = u)) (edges_at named_edges g w)" for u v g w
      unfolding at ends_filter [symmetric] by (simp add: named_edges_def)
  qed (fact rm | simp only: at; auto simp: named_edges_def ends_def; fail | auto simp: named_edges_def; fail)+
qed

end
