(* ===== verification/Spec2Isabelle.thy ===== *)
theory Spec2Isabelle
  imports Single_Consumer Pool_Refinement Struct_Reuse Helper_Theorems Dict_Readers Dict_Startup Client_Server Server_Signals Bthread_Executor Bounded_Queue Queue_Interface Queue_Program Shared_Ptr Design_Patterns Sample_Classes Sample_Objects Sample_Threads Babylon_Graph Struct_Benchmark Cassandra_Client Boost_Graphs
begin

text \<open>
  Verification of the C++ programs of this repository. Paths are relative to \<open>src/example\<close> unless they
  start with \<open>proto\<close>.

  \<^bold>\<open>The program.\<close> The centre is a ranking service on brpc (\<open>brpc/\<close>). Its server
  (\<open>brpc_server.cpp\<close>) initialises dictionaries and a graph engine (\<open>common/global.h\<close>) and answers
  \<open>SayHello\<close> (\<open>service/ranker_service.cpp\<close>) by taking a processing graph from the engine's
  pool and running the processors of \<open>processor/\<close> on bthreads. Beside it stand two libraries for request-scoped
  memory, a memory pool (\<open>brpc/memory_pool.h\<close>, \<open>.hpp\<close>) and dynamic structs placed in it
  (\<open>brpc/dynamic_struct.h\<close>, \<open>.hpp\<close>) with allocator-aware construction (\<open>brpc/helper.h\<close>,
  \<open>.hpp\<close>), two lock-free queues, a shared pointer, and small sample programs.

  \<^bold>\<open>Conventions\<close> (\<open>Prelude\<close>). Fallible code returns \<open>'a cxx\<close>, an error or a value; the
  errors are exceptions, termination through \<open>noexcept\<close>, and the undefined behaviours the code can run into
  (null dereference, invalid access, a missing return statement, an impossible conversion, signed overflow), and
  divergence. Sizes and addresses are 64-bit words and wrap; \<open>post_cxx E Q\<close> says that a call fails only with
  an error in \<open>E\<close> and otherwise returns a value in \<open>Q\<close>. \<open>Binary_Float\<close> has correctly rounded
  binary floating point for the \<open>float\<close> of the pool and the \<open>double\<close> of the prices, without overflow
  and underflow.

  \<^bold>\<open>Memory pool.\<close> \<open>Memory_Block\<close> has the heap of blocks, \<open>operator new\<close> as a function
  argument and its contract as the locale \<open>operator_new\<close> (a block of fresh, aligned, non-null memory or
  \<open>bad_alloc\<close>), interpreted by a bump allocator. \<open>Memory_Pool\<close> has every member function of
  \<open>StaticMemoryPool\<close>. Loops over the block list carry the number of live blocks as a bound; only a cyclic list
  could exceed it, and the invariant excludes that, so no operation diverges. \<open>Pool_Heap\<close>,
  \<open>Pool_Invariant\<close>, \<open>Pool_Alloc\<close>, \<open>Pool_Aligned\<close>, \<open>Pool_Ops\<close> and
  \<open>Pool_Sequences\<close> prove the representation invariant for each operation, inside the locale.
  \<open>Pool_Theorems\<close> states the results: whole lifetimes without leaks or invalid accesses, fresh and aligned
  buffers, contents of strings, the effect of clear, shrink, moves and managed objects, the least admissible block
  size, and the wrap-around of requests near \<open>2 ^ 64\<close>. \<open>Pool_Refinement\<close> has a client that calls the pool and
  writes through the pointers it got, and the abstract arena it sees; every run of the client is a run of the arena.

  \<^bold>\<open>Dynamic structs.\<close> \<open>Dynamic_Struct\<close> has schemas, registration, instances, metadata and the
  reuse pool; \<open>Schema_Layout\<close> the layout invariant; \<open>Struct_Exec\<close> what the constructor lists do
  to memory. \<open>Struct_Theorems\<close> shows that layouts are sound, that creation in a pool gives aligned, zeroed
  and constructed fields (through the locale \<open>aligned_allocator\<close>, which the pool provides by a sublocale of
  \<open>operator_new\<close>), that creation and deletion match, and where registration races, metadata and
  out-of-order members go wrong. Creation stores the address of the schema in the 8 bytes before the fields, and the
  theorems show that it stays there; which schema an address stands for is kept beside the memory (\<open>ds_headers\<close> for instances
  on the free store, the schema argument in a pool). What a user type's constructor writes is an argument that writes only its own
  object: constructors of pool-managed fields that themselves allocate from the pool or register further destructors, and the
  growth of the vector of reusable instances, are left out. \<open>Struct_Lifetime\<close> composes instances with the life of their pool: created one after the other they stay
  apart, and \<open>clear\<close> makes exactly the destructor calls they owe. \<open>Struct_Fields\<close>: a
  program that writes fields by name sees a map from names to values and changes only the bytes of those fields. \<open>Struct_Arena\<close>: in a protobuf arena
  instances are aligned by chance only. \<open>Struct_Reuse\<close>: the pool of reusable instances is
  rebuilt from its metadata for the next request.

  \<^bold>\<open>Construction helpers.\<close> \<open>Construct_Helper\<close> has the compile-time predicates and the overload
  set of \<open>construct\<close> over a datatype of C++ types, with the standard traits as an argument, and the deleters.
  \<open>Helper_Theorems\<close> shows the documented contract for types that are no pairs and that construction of nested
  pairs is type correct, when rebinding an allocator forgets the earlier binding, an allocator converts to its
  rebound form and the traits treat \<open>X\<close> and \<open>X&&\<close> alike.

  \<^bold>\<open>Dictionaries.\<close> \<open>Split_Str\<close> has the tokeniser, \<open>File_Dict\<close> the dictionary classes
  under the locales \<open>dict_base\<close> and \<open>dict_base_true\<close>, interpreted for both classes and for the
  objects the manager holds; \<open>Dict_Manager\<close> registration, the threaded load at start-up and the check loop,
  counted in rounds. \<open>Dict_Theorems\<close>: the tokeniser equals a reference definition, start-up loads well-formed
  files, the check keeps a usable dictionary but never reloads one, and how malformed numbers, missing files and keys that no
  \<open>double\<close> holds behave. \<open>Dict_Readers\<close> splits a round into its writes and a lookup into its two accesses and shows that every
  interleaving gives the reader the dictionary that was current. \<open>Dict_Startup\<close> takes the threaded load one shared
  access at a time: by an invariant over all interleavings of the starting thread and the loader threads, each run is
  one of the sequential model for some moments of the result writes, no thread waits for ever, and with a well-formed
  file every run loads both dictionaries. Files, clock, scheduling, \<open>lexical_cast\<close> and property trees are arguments.

  \<^bold>\<open>Ranking service.\<close> \<open>Processors\<close> has the four processors and their data,
  \<open>Graph_Engine\<close> the engine, the RPC handler, the global initialisation and \<open>main\<close>.
  brpc's channel, Babylon's builder, object pool and graphs and Boost's property trees are arguments, and what is relied on is
  stated as contracts. \<open>Graph_Runs\<close> has those of the graph library: an evaluation runs processors of configured vertices and
  configured expressions one after the other (\<open>runs_config\<close>), or moreover each after what its vertex is bound to until the
  response is there (\<open>runs_in_data_order\<close>). \<open>Graph_Pool\<close> has the object pool's and splits \<open>try_get\<close> into its accesses to the pool:
  the graph is back in the pool before the caller uses it, one call after the other and with overlapping calls.
  \<open>Service_Theorems\<close>: the builder calls a configuration leads to, which orders of processors yield a response and its exact
  price, the outcome of requests under the first contract, and the start-up without the dictionary file, in every schedule.
  \<open>Client_Server\<close> adds the client with the request it sends, takes the system from the start through the dictionaries and the
  handler to the printed reply under the second contract, and compares the shipped configuration with the processors'
  interfaces: it does not bind \<open>IsSkipPreRank\<close>, which the pre-ranking reads. \<open>Server_Signals\<close> has the options and signal
  handlers that \<open>main\<close> sets up first.

  \<^bold>\<open>Concurrency.\<close> \<open>Bthread_Executor\<close> has the executor's task tuples with every interleaving of
  submissions and finishing threads; no task is lost, run twice or leaked. \<open>Lock_Free_Queue\<close> has one step per
  access to shared memory, under sequential consistency, for any number of threads, and records calls with their arguments,
  the moments they take effect and returns with their values; \<open>Queue_Theorems\<close> proves that
  each execution is linearisable, that is, the effects are a run of a FIFO queue and each is that of its thread's call, and that a thread running alone finishes within \<open>10 * fresh + 34\<close> steps,
  where \<open>fresh\<close> bounds the nodes allocated so far. \<open>Queue_Program\<close> composes it with the endless producers and
  consumers of its \<open>main\<close>. \<open>Free_Lock_Queue\<close> exhibits the race of the second queue between two
  consumers; \<open>Single_Consumer\<close> shows that this queue, which has no constructor and leaves \<open>next\<close> unset, fails as it is written, and
  proves that once a sentinel and null \<open>next\<close> fields are provided every interleaving of one producer and one consumer is a run of a FIFO
  queue (calls end within three and seven steps), while a second producer accesses freed memory. \<open>Queue_Interface\<close>
  states the FIFO queue as the locale \<open>fifo_queue\<close> and interprets it for both queues used by one thread at a time, the
  second one under the same provisos.
  \<open>Bounded_Queue\<close> shows when the bounded-queue program waits for ever and what it prints, \<open>Shared_Ptr\<close>
  the uncounted copies and the correct moves of \<open>MySharedPtr\<close>.

  \<^bold>\<open>Sample programs.\<close> \<open>Design_Patterns\<close> (\<open>design_model/\<close>; the abstract factory's
  contract is the locale \<open>product_family\<close>, interpreted for the three factories), \<open>Sample_Classes\<close>
  (\<open>googletest/\<close>, \<open>boost/function_test\<close>: sums in the class template, the order that is no weak order,
  the factorial and its overflow from 13 on), \<open>Sample_Objects\<close> (the objects that the optional and future tests
  create, copy, move and destroy), \<open>Sample_Threads\<close> (atomic and thread-local counters under every
  interleaving, cache lines, \<open>protobuf/main.cpp\<close>), \<open>Babylon_Graph\<close> (the processors and
  vertices of \<open>babylon/graph_start.cpp\<close>, \<open>graph_condition.cpp\<close>, \<open>dependency/\<close> and \<open>expressor/\<close>), \<open>Struct_Benchmark\<close> (\<open>performance_units/struct_pb\<close>, with
  \<open>proto/cl_test.proto\<close>: both representations agree; the reloadable mode flag) and \<open>Cassandra_Client\<close>
  (\<open>cassandra_driver/main.cpp\<close>, \<open>brpc/cassandra_test.cpp\<close>: no driver object leaks, the
  authentication buffer is filled exactly), and \<open>Boost_Graphs\<close> (\<open>boost/\<close>: what the graph programs print for any
  adjacency list that lists edges in order of insertion).

  \<^bold>\<open>Not modelled.\<close> Files whose code is commented out (\<open>protobuf/dynamic_struct.h\<close>,
  \<open>.hpp\<close>, \<open>brpc/main.cpp\<close>) or that do not compile (\<open>facade/facade.h\<close>,
  \<open>performance_units/virtual_alignas_test.cpp\<close>); programs that only call a library on constants
  (the logging, formatting and Babylon container demos); the remaining test drivers; weak memory orders; logging and timing; build files, scripts and
  third-party patches. How Babylon's graph library schedules vertices and treats conditions, levels and expressions is not in the
  repository: nothing is claimed about runs of the Babylon example graphs under it.
\<close>

end
